(* ===== verification/Prelude.thy ===== *)
theory Prelude
  imports Complex_Main "HOL-Library.AList"
begin

text \<open>
  What every component shares.

  \<^item> The exceptions of the Python code as values of \<open>py_error\<close>, and
    \<open>'a result\<close>, the outcome of a function that may raise.
  \<^item> Python's \<open>str\<close> on the code points 0 to 255, as HOL's \<open>string\<close>: \<open>split\<close>,
    \<open>join\<close>, \<open>strip\<close>, \<open>rstrip\<close>, \<open>lower\<close>, \<open>find\<close>, slices, \<open>str(int)\<close> and \<open>encode()\<close>
    (UTF-8, whose code points 128 to 255 take two bytes).
  \<^item> The binary search \<open>bisect.bisect_right\<close> and its specification on a sorted list.
  \<^item> Lemmas on lists that several components use.
\<close>

unbundle bit_operations_syntax

named_theorems str_simps \<open>facts about the strings the code builds and takes apart\<close>
named_theorems result_simps \<open>how a fallible computation continues\<close>


section \<open>Exceptions as values\<close>

datatype invalid_fqdn =
    EmptyFqdn
  | BareStar
  | ContainsStar
  | EmptyLabel
  | TooManyLabels nat
  | PortOutOfRange int

datatype py_error =
    InvalidFqdn invalid_fqdn
  | ValueError string
  | IndexError
  | KeyError
  | ZeroDivisionError
  | RuntimeError string
  | OverflowError
  | ResponseError string
  | SystemExit string
  | OSError string
  | TypeError string

type_synonym 'a result = "py_error + 'a"

fun bindR :: "'a result \<Rightarrow> ('a \<Rightarrow> 'b result) \<Rightarrow> 'b result" where
  "bindR (Inl e) f = Inl e"
| "bindR (Inr x) f = f x"

text \<open>A list comprehension whose element expression may raise: the first error wins.\<close>

fun mapR :: "('a \<Rightarrow> 'b result) \<Rightarrow> 'a list \<Rightarrow> 'b list result" where
  "mapR f [] = Inr []"
| "mapR f (x # xs) = bindR (f x) (\<lambda>y. bindR (mapR f xs) (\<lambda>ys. Inr (y # ys)))"

lemma bindR_eq_Inr [result_simps]: "bindR r f = Inr y \<longleftrightarrow> (\<exists>x. r = Inr x \<and> f x = Inr y)"
  by (cases r) auto

lemma bindR_eq_Inl [result_simps]:
  "bindR r f = Inl e \<longleftrightarrow> r = Inl e \<or> (\<exists>x. r = Inr x \<and> f x = Inl e)"
  by (cases r) auto

lemma mapR_Inr: "(\<And>x. x \<in> set xs \<Longrightarrow> f x = Inr (g x)) \<Longrightarrow> mapR f xs = Inr (map g xs)"
  by (induction xs) auto

lemma mapR_Inr_length: "mapR f xs = Inr ys \<Longrightarrow> length ys = length xs"
  by (induction xs arbitrary: ys) (auto simp: result_simps)

lemma mapR_Inr_nth: "mapR f xs = Inr ys \<Longrightarrow> i < length xs \<Longrightarrow> f (xs ! i) = Inr (ys ! i)"
  by (induction xs arbitrary: ys i) (auto simp: result_simps nth_Cons split: nat.splits)

lemma mapR_map: "mapR f (map g xs) = mapR (\<lambda>x. f (g x)) xs"
  by (induction xs) auto

lemma mapR_cong [fundef_cong]:
  "xs = ys \<Longrightarrow> (\<And>x. x \<in> set ys \<Longrightarrow> f x = g x) \<Longrightarrow> mapR f xs = mapR g ys"
  by (induction xs arbitrary: ys) auto


section \<open>Strings\<close>

subsection \<open>split and join\<close>

fun split_on :: "char \<Rightarrow> string \<Rightarrow> string list" where
  "split_on c [] = [[]]"
| "split_on c (x # xs) =
     (if x = c then [] # split_on c xs
      else (case split_on c xs of [] \<Rightarrow> [[x]] | y # ys \<Rightarrow> (x # y) # ys))"

fun join :: "string \<Rightarrow> string list \<Rightarrow> string" where
  "join sep [] = []"
| "join sep [x] = x"
| "join sep (x # y # ys) = x @ sep @ join sep (y # ys)"

lemma split_on_nonempty [simp]: "split_on c s \<noteq> []"
  by (cases s) (auto split: list.splits)

lemma length_split_on_pos [simp]: "0 < length (split_on c s)"
  by simp

lemma split_on_Cons_other:
  "x \<noteq> c \<Longrightarrow> split_on c (x # xs) = (x # hd (split_on c xs)) # tl (split_on c xs)"
  by (simp split: list.split)

lemma join_Cons: "xs \<noteq> [] \<Longrightarrow> join sep (x # xs) = x @ sep @ join sep xs"
  by (cases xs) auto

lemma join_head: "join sep ((c # x) # xs) = c # join sep (x # xs)"
  by (cases xs) auto

lemma join_split_on [simp]: "join [c] (split_on c s) = s"
proof (induction s)
  case Nil
  show ?case by simp
next
  case (Cons x s)
  show ?case
  proof (cases "x = c")
    case True
    with Cons show ?thesis by (simp add: join_Cons)
  next
    case False
    have "split_on c s = hd (split_on c s) # tl (split_on c s)" by simp
    with False Cons show ?thesis
      by (metis join_head split_on_Cons_other)
  qed
qed

lemma split_on_no_sep: "c \<notin> set s \<Longrightarrow> split_on c s = [s]"
  by (induction s) auto

lemma split_on_append: "c \<notin> set x \<Longrightarrow> split_on c (x @ c # s) = x # split_on c s"
  by (induction x) auto

lemma split_on_parts: "l \<in> set (split_on c s) \<Longrightarrow> c \<notin> set l"
proof (induction s arbitrary: l)
  case Nil
  then show ?case by simp
next
  case (Cons x s)
  obtain y ys where e: "split_on c s = y # ys" by (cases "split_on c s") auto
  show ?case
  proof (cases "x = c")
    case True
    with Cons show ?thesis by auto
  next
    case False
    with Cons.prems e have "l = x # y \<or> l \<in> set ys" by auto
    with Cons.IH e False show ?thesis by auto
  qed
qed

lemma split_on_join:
  "ls \<noteq> [] \<Longrightarrow> (\<And>l. l \<in> set ls \<Longrightarrow> c \<notin> set l) \<Longrightarrow> split_on c (join [c] ls) = ls"
proof (induction ls)
  case Nil
  then show ?case by simp
next
  case (Cons l ls)
  show ?case
  proof (cases "ls = []")
    case True
    with Cons.prems show ?thesis by (simp add: split_on_no_sep)
  next
    case False
    with Cons show ?thesis by (simp add: join_Cons split_on_append)
  qed
qed

lemma set_join: "set (join sep ls) \<subseteq> set sep \<union> (\<Union>l\<in>set ls. set l)"
  by (induction sep ls rule: join.induct) auto

lemma set_split_on: "l \<in> set (split_on c s) \<Longrightarrow> set l \<subseteq> set s"
proof (induction s arbitrary: l)
  case Nil
  then show ?case by simp
next
  case (Cons x s)
  obtain y ys where e: "split_on c s = y # ys" by (cases "split_on c s") auto
  have y: "set y \<subseteq> set s" using Cons.IH e by auto
  show ?case
  proof (cases "x = c")
    case True
    then have "l = [] \<or> l \<in> set (split_on c s)" using Cons.prems by auto
    then show ?thesis using Cons.IH by auto
  next
    case False
    then have "l = x # y \<or> l \<in> set ys" using Cons.prems e by auto
    then show ?thesis using Cons.IH[of l] y e by auto
  qed
qed


lemma split_on_append_sep: "split_on c (x @ c # y) = split_on c x @ split_on c y"
proof (induction x)
  case Nil
  show ?case by simp
next
  case (Cons a x)
  then show ?case by (cases "a = c") (simp_all split: list.split)
qed

lemma join_append:
  "xs \<noteq> [] \<Longrightarrow> ys \<noteq> [] \<Longrightarrow> join sep (xs @ ys) = join sep xs @ sep @ join sep ys"
proof (induction xs)
  case Nil
  then show ?case by simp
next
  case (Cons x xs)
  then show ?case by (cases "xs = []") (simp_all add: join_Cons)
qed

lemma join_eq_Nil: "join sep xs = [] \<Longrightarrow> xs \<noteq> [] \<Longrightarrow> hd xs = []"
  by (induction sep xs rule: join.induct) auto

lemma split_on_drop_join:
  "k < length (split_on c s) \<Longrightarrow>
     split_on c (join [c] (drop k (split_on c s))) = drop k (split_on c s)"
  by (rule split_on_join) (auto dest: split_on_parts in_set_dropD)

lemma length_split_on: "length (split_on c s) = Suc (length (filter (\<lambda>x. x = c) s))"
  by (induction s) (auto split: list.splits)


section \<open>Lists\<close>

lemma sorted_wrt_less_distinct: "sorted_wrt (<) (map f xs) \<Longrightarrow> distinct (map f xs)"
  for f :: "'a \<Rightarrow> 'b::linorder"
  using strict_sorted_iff by blast

lemma sorted_wrt_less_append:
  "sorted_wrt (<) (xs @ ys) \<longleftrightarrow>
     sorted_wrt (<) xs \<and> sorted_wrt (<) ys \<and> (\<forall>x\<in>set xs. \<forall>y\<in>set ys. x < (y::'a::linorder))"
  by (rule sorted_wrt_append)



section \<open>Floor division\<close>

lemma int_le_div_iff: "0 < n \<Longrightarrow> k \<le> x div n \<longleftrightarrow> k * n \<le> x" for x k n :: int
proof
  assume n: "0 < n" and k: "k \<le> x div n"
  have "k * n \<le> (x div n) * n" using n k by simp
  also have "\<dots> \<le> x" using n div_mult_mod_eq[of x n] pos_mod_sign[OF n, of x] by linarith
  finally show "k * n \<le> x" .
next
  assume n: "0 < n" and k: "k * n \<le> x"
  then show "k \<le> x div n" using zdiv_mono1[OF k n] by simp
qed

lemma int_div_less_iff: "0 < n \<Longrightarrow> x div n < k \<longleftrightarrow> x < k * n" for x k n :: int
  using int_le_div_iff[of n k x] by linarith

lemma update_new: "k \<notin> fst ` set m \<Longrightarrow> AList.update k v m = m @ [(k, v)]"
  by (induction m) auto

end
