(* ===== verification/Py_Str.thy ===== *)
theory Py_Str
  imports Prelude
begin

text \<open>
  The parts of Python's \<open>str\<close>, \<open>int\<close>, \<open>bisect\<close> and \<open>zlib\<close> that the modelled code calls,
  on strings whose code points are 0 to 255 (HOL's \<open>char\<close>): \<open>lower\<close>, \<open>strip\<close>,
  \<open>rstrip(".")\<close>, \<open>find\<close>, slices, \<open>startswith\<close>, \<open>encode\<close>, \<open>str(int)\<close>, \<open>int(str)\<close>,
  \<open>bisect_right\<close> and \<open>crc32\<close>, with the laws the components use.
\<close>

abbreviation ord :: "char \<Rightarrow> nat" where
  "ord c \<equiv> of_char c"

abbreviation chr :: "nat \<Rightarrow> char" where
  "chr n \<equiv> char_of n"


section \<open>Case, whitespace, prefixes\<close>

definition lower_char :: "char \<Rightarrow> char" where
  "lower_char c =
     (let n = ord c in
      if (65 \<le> n \<and> n \<le> 90) \<or> (192 \<le> n \<and> n \<le> 222 \<and> n \<noteq> 215) then chr (n + 32) else c)"

definition lower :: "string \<Rightarrow> string" where
  "lower s = map lower_char s"

definition is_space :: "char \<Rightarrow> bool" where
  "is_space c =
     (let n = ord c in
      (9 \<le> n \<and> n \<le> 13) \<or> (28 \<le> n \<and> n \<le> 32) \<or> n = 133 \<or> n = 160)"

definition rstrip_by :: "(char \<Rightarrow> bool) \<Rightarrow> string \<Rightarrow> string" where
  "rstrip_by p s = rev (dropWhile p (rev s))"

definition strip :: "string \<Rightarrow> string" where
  "strip s = rstrip_by is_space (dropWhile is_space s)"

definition rstrip_dots :: "string \<Rightarrow> string" where
  "rstrip_dots s = rstrip_by (\<lambda>c. c = CHR ''.'') s"

fun starts_with :: "string \<Rightarrow> string \<Rightarrow> bool" where
  "starts_with [] s = True"
| "starts_with (p # ps) [] = False"
| "starts_with (p # ps) (c # s) = (p = c \<and> starts_with ps s)"

text \<open>\<open>s.find(c, start)\<close>, with \<open>None\<close> for Python's \<open>-1\<close>, and the slice \<open>s[a:b]\<close>.\<close>

fun find_from :: "char \<Rightarrow> string \<Rightarrow> nat \<Rightarrow> nat option" where
  "find_from c [] i = None"
| "find_from c (x # xs) 0 =
     (if x = c then Some 0 else map_option Suc (find_from c xs 0))"
| "find_from c (x # xs) (Suc i) = map_option Suc (find_from c xs i)"

definition slice :: "string \<Rightarrow> nat \<Rightarrow> nat \<Rightarrow> string" where
  "slice s a b = take (b - a) (drop a s)"

lemma starts_with_iff: "starts_with p s \<longleftrightarrow> (\<exists>t. s = p @ t)"
  by (induction p s rule: starts_with.induct) auto

lemma starts_with_append [simp]: "starts_with p (p @ s)"
  by (auto simp: starts_with_iff)

lemma length_lower [simp]: "length (lower s) = length s"
  by (simp add: lower_def)

lemma lower_append [simp]: "lower (s @ t) = lower s @ lower t"
  by (simp add: lower_def)

lemma ord_less [simp]: "ord c < (256::nat)"
  using nat_of_char_less_256[of c] by simp

lemma ord_chr: "n < 256 \<Longrightarrow> ord (chr n) = n"
  by simp

lemma chr_inject: "a < 256 \<Longrightarrow> b < 256 \<Longrightarrow> chr a = chr b \<longleftrightarrow> a = b"
  by (metis ord_chr)

lemma lower_char_cases:
  obtains (upper) "(65 \<le> ord c \<and> ord c \<le> 90) \<or> (192 \<le> ord c \<and> ord c \<le> 222 \<and> ord c \<noteq> (215::nat))"
      "ord (lower_char c) = ord c + (32::nat)"
    | (other) "lower_char c = c"
        "\<not> ((65 \<le> ord c \<and> ord c \<le> 90) \<or> (192 \<le> ord c \<and> ord c \<le> 222 \<and> ord c \<noteq> (215::nat)))"
proof (cases "(65 \<le> ord c \<and> ord c \<le> 90) \<or> (192 \<le> ord c \<and> ord c \<le> 222 \<and> ord c \<noteq> (215::nat))")
  case True
  then have "lower_char c = chr (ord c + 32)" by (simp add: lower_char_def Let_def)
  moreover have "ord (chr (ord c + 32)) = ord c + (32::nat)" using True by auto
  ultimately show ?thesis using True upper by simp
next
  case False
  then have "lower_char c = c" unfolding lower_char_def Let_def by (simp only: if_False)
  with False show ?thesis using other by blast
qed

lemma lower_char_idem [simp]: "lower_char (lower_char c) = lower_char c"
proof (cases c rule: lower_char_cases)
  case upper
  then show ?thesis by (cases "lower_char c" rule: lower_char_cases) auto
next
  case other
  then show ?thesis by simp
qed

lemma lower_idem [simp]: "lower (lower s) = lower s"
  by (simp add: lower_def)

text \<open>Lower-casing never creates or removes the punctuation the pattern code looks at.\<close>

lemma lower_char_ord_eq:
  assumes "n < 65 \<or> (90 < n \<and> n < 97)"
  shows "ord (lower_char c) = (n::nat) \<longleftrightarrow> ord c = n"
  using assms by (cases c rule: lower_char_cases) auto

lemma is_space_lower_char: "is_space (lower_char c) \<Longrightarrow> is_space c"
  by (cases c rule: lower_char_cases) (auto simp: is_space_def Let_def)

lemma lower_char_fix: "ord d < (65::nat) \<Longrightarrow> lower_char c = d \<longleftrightarrow> c = d"
  using lower_char_ord_eq[of "ord d" c] by simp

lemma lower_char_dot [simp]: "lower_char c = CHR ''.'' \<longleftrightarrow> c = CHR ''.''"
  by (rule lower_char_fix) simp

lemma lower_char_star [simp]: "lower_char c = CHR ''*'' \<longleftrightarrow> c = CHR ''*''"
  by (rule lower_char_fix) simp

lemma set_lower_dot [simp]: "CHR ''.'' \<in> set (lower s) \<longleftrightarrow> CHR ''.'' \<in> set s"
  by (auto simp: lower_def image_iff) (metis lower_char_dot)+

lemma set_lower_star [simp]: "CHR ''*'' \<in> set (lower s) \<longleftrightarrow> CHR ''*'' \<in> set s"
  by (auto simp: lower_def image_iff) (metis lower_char_star)+

lemma split_on_lower: "split_on (CHR ''.'') (lower s) = map lower (split_on (CHR ''.'') s)"
proof (induction s)
  case Nil
  show ?case by (simp add: lower_def)
next
  case (Cons x s)
  have e: "lower (x # s) = lower_char x # lower s" by (simp add: lower_def)
  show ?case
  proof (cases "x = CHR ''.''")
    case True
    then have "lower_char x = CHR ''.''" by simp
    with True Cons show ?thesis by (simp add: e lower_def)
  next
    case False
    then have "lower_char x \<noteq> CHR ''.''" by simp
    with False Cons show ?thesis
      by (simp add: e split: list.split) (auto simp: lower_def)
  qed
qed


section \<open>Stripping\<close>

lemma rstrip_by_Nil [simp]: "rstrip_by p [] = []"
  by (simp add: rstrip_by_def)

lemma rstrip_by_snoc: "rstrip_by p (s @ [c]) = (if p c then rstrip_by p s else s @ [c])"
  by (simp add: rstrip_by_def)

lemma rstrip_by_idem [simp]: "rstrip_by p (rstrip_by p s) = rstrip_by p s"
  by (simp add: rstrip_by_def)

lemma rstrip_by_prefix: "\<exists>t. s = rstrip_by p s @ t \<and> (\<forall>c\<in>set t. p c)"
proof -
  have "s = rev (dropWhile p (rev s)) @ rev (takeWhile p (rev s))"
    by (metis rev_append rev_rev_ident takeWhile_dropWhile_id)
  moreover have "\<forall>c\<in>set (rev (takeWhile p (rev s))). p c"
    by (auto dest: set_takeWhileD)
  ultimately show ?thesis unfolding rstrip_by_def by blast
qed

lemma rstrip_by_id: "s = [] \<or> \<not> p (last s) \<Longrightarrow> rstrip_by p s = s"
  by (cases s rule: rev_cases) (auto simp: rstrip_by_snoc)

lemma rstrip_by_all: "\<forall>c\<in>set t. p c \<Longrightarrow> rstrip_by p (s @ t) = rstrip_by p s"
  by (induction t rule: rev_induct) (auto simp: rstrip_by_snoc simp flip: append_assoc)

lemma set_rstrip_by: "set (rstrip_by p s) \<subseteq> set s"
  by (metis Un_upper1 rstrip_by_prefix set_append)

lemma set_strip: "set (strip s) \<subseteq> set s"
  unfolding strip_def using set_rstrip_by set_dropWhileD by fastforce

lemma strip_id: "(\<And>c. c \<in> set s \<Longrightarrow> \<not> is_space c) \<Longrightarrow> strip s = s"
  unfolding strip_def by (cases s) (simp_all add: rstrip_by_id)

lemma last_rstrip_by: "rstrip_by p s \<noteq> [] \<Longrightarrow> \<not> p (last (rstrip_by p s))"
  by (simp add: rstrip_by_def last_rev hd_dropWhile)


section \<open>Decimal integers\<close>

fun dec :: "nat \<Rightarrow> string" where
  "dec n = (if n < 10 then [chr (48 + n)] else dec (n div 10) @ [chr (48 + n mod 10)])"

declare dec.simps [simp del]

definition py_str :: "int \<Rightarrow> string" where
  "py_str z = (if z < 0 then CHR ''-'' # dec (nat (- z)) else dec (nat z))"

definition is_digit :: "char \<Rightarrow> bool" where
  "is_digit c \<longleftrightarrow> 48 \<le> ord c \<and> ord c \<le> (57::nat)"

fun undec :: "string \<Rightarrow> nat \<Rightarrow> nat" where
  "undec [] a = a"
| "undec (c # cs) a = undec cs (10 * a + (ord c - 48))"

text \<open>A run of digits; single underscores may stand between digits.\<close>

definition digits_value :: "string \<Rightarrow> nat option" where
  "digits_value s =
     (let ps = split_on (CHR ''_'') s
      in if list_all (\<lambda>p. p \<noteq> [] \<and> list_all is_digit p) ps then Some (undec (concat ps) 0)
         else None)"

definition split_sign :: "string \<Rightarrow> bool \<times> string" where
  "split_sign s =
     (case s of
        [] \<Rightarrow> (False, [])
      | c # cs \<Rightarrow> if c = CHR ''-'' then (True, cs) else if c = CHR ''+'' then (False, cs)
                  else (False, s))"

text \<open>\<open>int(s)\<close>: surrounding blanks, a sign, decimal digits; other text raises ValueError.\<close>

definition py_int :: "string \<Rightarrow> int result" where
  "py_int s =
     (let (neg, body) = split_sign (strip s)
      in case digits_value body of
           None \<Rightarrow> Inl (ValueError ''int'')
         | Some n \<Rightarrow> Inr (if neg then - int n else int n))"

lemma undec_append: "undec (s @ t) a = undec t (undec s a)"
  by (induction s arbitrary: a) auto

lemma dec_digits: "c \<in> set (dec n) \<Longrightarrow> is_digit c"
proof (induction n rule: dec.induct)
  case (1 n)
  have d: "is_digit (chr (48 + m))" if "m < 10" for m
    using that by (simp add: is_digit_def)
  show ?case
  proof (cases "n < 10")
    case True
    with 1 d[of n] show ?thesis by (simp add: dec.simps[of n])
  next
    case False
    with 1 d[of "n mod 10"] show ?thesis by (auto simp: dec.simps[of n])
  qed
qed

lemma dec_nonempty [simp]: "dec n \<noteq> []"
  by (subst dec.simps) simp

lemma undec_dec [simp]: "undec (dec n) 0 = n"
proof (induction n rule: dec.induct)
  case (1 n)
  show ?case
  proof (cases "n < 10")
    case True
    then show ?thesis by (simp add: dec.simps[of n])
  next
    case False
    with 1 show ?thesis by (simp add: dec.simps[of n] undec_append)
  qed
qed

lemma dec_inject [simp, str_simps]: "dec m = dec n \<longleftrightarrow> m = n"
  by (metis undec_dec)

lemma not_in_dec: "\<not> is_digit c \<Longrightarrow> c \<notin> set (dec n)"
  using dec_digits by blast

lemma digits_value_dec [simp]: "digits_value (dec n) = Some n"
proof -
  have "\<not> is_digit (CHR ''_'')" by (simp add: is_digit_def)
  then have "split_on (CHR ''_'') (dec n) = [dec n]" by (intro split_on_no_sep not_in_dec)
  then show ?thesis by (simp add: digits_value_def list_all_iff dec_digits)
qed

lemma is_digit_not_space: "is_digit c \<Longrightarrow> \<not> is_space c"
  by (auto simp: is_digit_def is_space_def)

lemma split_sign_digit: "is_digit c \<Longrightarrow> split_sign (c # cs) = (False, c # cs)"
  by (auto simp: split_sign_def is_digit_def)

lemma strip_py_str: "strip (py_str z) = py_str z"
proof (rule strip_id)
  fix c assume "c \<in> set (py_str z)"
  then have "is_digit c \<or> c = CHR ''-''" by (auto simp: py_str_def dec_digits split: if_splits)
  moreover have "\<not> is_space (CHR ''-'')" by code_simp
  ultimately show "\<not> is_space c" using is_digit_not_space by blast
qed

lemma py_int_py_str [simp]: "py_int (py_str z) = Inr z"
proof (cases "z < 0")
  case True
  then have "split_sign (py_str z) = (True, dec (nat (- z)))" by (simp add: py_str_def split_sign_def)
  with True show ?thesis by (simp add: py_int_def strip_py_str)
next
  case False
  obtain c cs where d: "dec (nat z) = c # cs" by (cases "dec (nat z)") auto
  then have "is_digit c" using dec_digits[of c "nat z"] by simp
  then have "split_sign (py_str z) = (False, dec (nat z))"
    using False d by (simp add: py_str_def split_sign_digit)
  with False show ?thesis by (simp add: py_int_def strip_py_str)
qed

lemma py_str_inject [simp, str_simps]: "py_str y = py_str z \<longleftrightarrow> y = z"
  by (metis Inr_inject py_int_py_str)

lemma set_py_str: "c \<in> set (py_str z) \<Longrightarrow> is_digit c \<or> c = CHR ''-''"
  by (auto simp: py_str_def dec_digits split: if_splits)

lemma py_str_no: "\<not> is_digit c \<Longrightarrow> c \<noteq> CHR ''-'' \<Longrightarrow> c \<notin> set (py_str z)"
  using set_py_str by blast

lemma digit_tests [simp, str_simps]:
  "\<not> is_digit (CHR '':'')" "\<not> is_digit (CHR ''{'')" "\<not> is_digit (CHR ''}'')"
  "\<not> is_digit (CHR ''.'')" "\<not> is_digit (CHR ''*'')" "\<not> is_digit (CHR ''-'')"
  "\<not> is_digit (CHR 0x09)" "\<not> is_digit (CHR 0x0A)"
  by (simp_all add: is_digit_def)


section \<open>encode, bisect\_right, crc32\<close>

type_synonym bytes = "int list"

fun encode :: "string \<Rightarrow> bytes" where
  "encode [] = []"
| "encode (c # s) =
     (if ord c < (128::nat) then [int (ord c)]
      else [192 + int (ord c div 64), 128 + int (ord c mod 64)]) @ encode s"

lemma encode_append: "encode (s @ t) = encode s @ encode t"
  by (induction s) auto

lemma encode_bytes: "b \<in> set (encode s) \<Longrightarrow> 0 \<le> b \<and> b < 256"
proof (induction s)
  case Nil
  then show ?case by simp
next
  case (Cons c s)
  have "(ord c :: nat) div 64 < 4" using ord_less[of c] by linarith
  moreover have "(ord c :: nat) mod 64 < 64" by simp
  ultimately show ?case using Cons by (auto split: if_splits)
qed

text \<open>\<open>bisect.bisect_right(a, x)\<close>: the library's binary search.\<close>

function bisect_loop :: "int list \<Rightarrow> int \<Rightarrow> nat \<Rightarrow> nat \<Rightarrow> nat" where
  "bisect_loop a x lo hi =
     (if lo < hi
      then (let mid = (lo + hi) div 2
            in if x < a ! mid then bisect_loop a x lo mid else bisect_loop a x (mid + 1) hi)
      else lo)"
  by pat_completeness auto
termination
  by (relation "measure (\<lambda>(a, x, lo, hi). hi - lo)") auto

declare bisect_loop.simps [simp del]

definition bisect_right :: "int list \<Rightarrow> int \<Rightarrow> nat" where
  "bisect_right a x = bisect_loop a x 0 (length a)"

lemma bisect_loop_correct:
  assumes "sorted a" "lo \<le> hi" "hi \<le> length a"
    "\<forall>j<lo. a ! j \<le> x" "\<forall>j. hi \<le> j \<and> j < length a \<longrightarrow> x < a ! j"
  shows "bisect_loop a x lo hi \<le> length a
    \<and> (\<forall>j<bisect_loop a x lo hi. a ! j \<le> x)
    \<and> (\<forall>j. bisect_loop a x lo hi \<le> j \<and> j < length a \<longrightarrow> x < a ! j)"
  using assms
proof (induction a x lo hi rule: bisect_loop.induct)
  case (1 a x lo hi)
  show ?case
  proof (cases "lo < hi")
    case False
    then have "bisect_loop a x lo hi = lo" by (subst bisect_loop.simps) simp
    with False "1.prems" show ?thesis by simp
  next
    case lt: True
    let ?m = "(lo + hi) div 2"
    have m: "lo \<le> ?m" "?m < hi" "?m < length a" using lt "1.prems"(3) by auto
    show ?thesis
    proof (cases "x < a ! ?m")
      case True
      have up: "\<forall>j. ?m \<le> j \<and> j < length a \<longrightarrow> x < a ! j"
        using True "1.prems"(1) by (meson order.strict_trans2 sorted_nth_mono)
      have e: "bisect_loop a x lo hi = bisect_loop a x lo ?m"
        using lt True by (subst bisect_loop.simps) (simp add: Let_def)
      show ?thesis unfolding e
        by (rule "1.IH"(1)[OF lt refl True "1.prems"(1) m(1) less_imp_le[OF m(3)] "1.prems"(4) up])
    next
      case False
      have low: "\<forall>j<?m + 1. a ! j \<le> x"
      proof (intro allI impI)
        fix j assume "j < ?m + 1"
        then have "a ! j \<le> a ! ?m" using "1.prems"(1) m(3) by (simp add: sorted_nth_mono)
        with False show "a ! j \<le> x" by simp
      qed
      have m': "?m + 1 \<le> hi" using m(2) by simp
      have e: "bisect_loop a x lo hi = bisect_loop a x (?m + 1) hi"
        using lt False by (subst bisect_loop.simps) (simp add: Let_def)
      show ?thesis unfolding e
        by (rule "1.IH"(2)[OF lt refl False "1.prems"(1) m' "1.prems"(3) low "1.prems"(5)])
    qed
  qed
qed

lemma bisect_right_correct:
  assumes "sorted a"
  shows "bisect_right a x \<le> length a"
    and "j < bisect_right a x \<Longrightarrow> a ! j \<le> x"
    and "bisect_right a x \<le> j \<Longrightarrow> j < length a \<Longrightarrow> x < a ! j"
  using bisect_loop_correct[of a 0 "length a" x] assms by (auto simp: bisect_right_def)

text \<open>The bisection point is the only index that separates the list at \<open>x\<close>.\<close>

lemma bisect_right_eqI:
  assumes "sorted a" "k \<le> length a"
    "0 < k \<Longrightarrow> a ! (k - 1) \<le> x" "k < length a \<Longrightarrow> x < a ! k"
  shows "bisect_right a x = k"
proof (rule linorder_cases[of "bisect_right a x" k])
  assume lt: "bisect_right a x < k"
  then have "x < a ! (k - 1)"
    using bisect_right_correct(3)[OF assms(1), where x = x and j = "k - 1"] assms(2) by auto
  with assms(3) lt show ?thesis by auto
next
  assume gt: "k < bisect_right a x"
  then have "a ! k \<le> x" "k < length a"
    using bisect_right_correct(1,2)[OF assms(1), where x = x] by auto
  with assms(4) show ?thesis by auto
qed

text \<open>\<open>zlib.crc32\<close>: reflected CRC-32, initial value and final XOR all ones.\<close>

fun crc32_bits :: "nat \<Rightarrow> int \<Rightarrow> int" where
  "crc32_bits 0 crc = crc"
| "crc32_bits (Suc n) crc =
     crc32_bits n (if odd crc then drop_bit 1 crc XOR 0xEDB88320 else drop_bit 1 crc)"

fun crc32_loop :: "bytes \<Rightarrow> int \<Rightarrow> int" where
  "crc32_loop [] crc = crc"
| "crc32_loop (b # bs) crc = crc32_loop bs (crc32_bits 8 (crc XOR b))"

definition crc32 :: "bytes \<Rightarrow> int" where
  "crc32 data = crc32_loop data 0xFFFFFFFF XOR 0xFFFFFFFF"

end
