(* ===== verification/Fqdn_Pattern.thy ===== *)
theory Fqdn_Pattern
  imports Py_Str "HOL-Library.Sublist"
begin

text \<open>
  \<open>fqdnrules/fqdn_pattern.py\<close>: the pure matching logic. A query name is normalised,
  then turned into the list of patterns that can match it, most specific first, each
  with its rank and the co-location tag of the Redis key it lives under.

  The specification is \<open>pattern_matches\<close>: what it means, on the text of the two
  names alone, that a stored pattern covers a query under a mode. The list the code
  generates is shown to hold exactly the covering patterns, in strictly increasing rank.
  The locale \<open>candidate_source\<close> is the contract the router uses for both of its
  sides; it is interpreted on \<open>candidates\<close> and on \<open>field_candidates\<close>.
\<close>


section \<open>Data\<close>

definition MAX_LABELS :: nat where "MAX_LABELS = 20"
definition GLOBAL_RANK :: nat where "GLOBAL_RANK = 255"

datatype match_mode = SINGLE_LEVEL | MULTI_LEVEL

datatype wildcard_scope = SINGLE | MULTI | BOTH

fun scope_value :: "wildcard_scope \<Rightarrow> string" where
  "scope_value SINGLE = ''S''"
| "scope_value MULTI = ''M''"
| "scope_value BOTH = ''B''"

record candidate =
  c_pattern :: string
  c_rank :: nat
  c_needs_multi :: bool
  c_tag :: string
  c_bucket_index :: int

record field_candidate =
  f_pattern :: string
  f_rank :: nat
  f_needs_multi :: bool


section \<open>Operations\<close>

definition normalize_fqdn :: "string \<Rightarrow> string result" where
  "normalize_fqdn fqdn =
     (if fqdn = [] then Inl (InvalidFqdn EmptyFqdn)
      else if fqdn = ''*'' then Inl (InvalidFqdn BareStar)
      else
        let normalized = lower (rstrip_dots (strip fqdn)) in
        if CHR ''*'' \<in> set normalized then Inl (InvalidFqdn ContainsStar)
        else
          let labels = split_on (CHR ''.'') normalized in
          if list_ex (\<lambda>label. label = []) labels then Inl (InvalidFqdn EmptyLabel)
          else if length labels > MAX_LABELS
          then Inl (InvalidFqdn (TooManyLabels (length labels)))
          else Inr normalized)"

definition hash_tag :: "string \<Rightarrow> string" where
  "hash_tag pattern =
     (if pattern = ''*'' then ''__global__''
      else
        let remaining =
              (if starts_with ''*.'' pattern then split_on (CHR ''.'') (drop 2 pattern)
               else split_on (CHR ''.'') pattern)
        in if length remaining = 1 then ''__tld__:'' @ remaining ! 0
           else remaining ! (length remaining - 2) @ ''.'' @ remaining ! (length remaining - 1))"

definition is_bucketed_tag :: "string \<Rightarrow> bool" where
  "is_bucketed_tag t \<longleftrightarrow> t = ''__global__'' \<or> starts_with ''__tld__:'' t"

definition mk_candidate :: "string \<Rightarrow> nat \<Rightarrow> bool \<Rightarrow> int \<Rightarrow> candidate" where
  "mk_candidate pattern rank needs_multi bucket_index =
     \<lparr>c_pattern = pattern, c_rank = rank, c_needs_multi = needs_multi,
      c_tag = hash_tag pattern, c_bucket_index = bucket_index\<rparr>"

definition candidates :: "string \<Rightarrow> match_mode \<Rightarrow> int \<Rightarrow> candidate list" where
  "candidates fqdn mode num_buckets =
     (let labels = split_on (CHR ''.'') fqdn;
          n = length labels;
          bucket_index = (if num_buckets > 1 then crc32 (encode fqdn) mod num_buckets else 0)
      in [mk_candidate fqdn 0 False bucket_index]
         @ (if n \<ge> 2
            then [mk_candidate (''*.'' @ join ''.'' (drop 1 labels)) 1 False bucket_index]
            else [])
         @ (if mode = MULTI_LEVEL
            then map (\<lambda>k. mk_candidate (''*.'' @ join ''.'' (drop k labels)) k True bucket_index)
                   [2..<n]
            else [])
         @ [mk_candidate ''*'' GLOBAL_RANK False bucket_index])"

definition field_candidates :: "string \<Rightarrow> match_mode \<Rightarrow> field_candidate list" where
  "field_candidates fqdn mode =
     (let labels = split_on (CHR ''.'') fqdn;
          n = length labels
      in [\<lparr>f_pattern = fqdn, f_rank = 0, f_needs_multi = False\<rparr>]
         @ (if n \<ge> 2
            then [\<lparr>f_pattern = ''*.'' @ join ''.'' (drop 1 labels), f_rank = 1,
                   f_needs_multi = False\<rparr>]
            else [])
         @ (if mode = MULTI_LEVEL
            then map (\<lambda>k. \<lparr>f_pattern = ''*.'' @ join ''.'' (drop k labels), f_rank = k,
                           f_needs_multi = True\<rparr>) [2..<n]
            else [])
         @ [\<lparr>f_pattern = ''*'', f_rank = GLOBAL_RANK, f_needs_multi = False\<rparr>])"


section \<open>Normalisation\<close>

text \<open>What the rest of the program may assume of a normalised name.\<close>

definition clean :: "string \<Rightarrow> bool" where
  "clean s \<longleftrightarrow> (\<forall>l\<in>set (split_on (CHR ''.'') s). l \<noteq> []) \<and> CHR ''*'' \<notin> set s
     \<and> length (split_on (CHR ''.'') s) \<le> MAX_LABELS"

lemma clean_nonempty: "clean s \<Longrightarrow> s \<noteq> []"
  by (auto simp: clean_def)

lemma clean_no_star: "clean s \<Longrightarrow> CHR ''*'' \<notin> set s"
  by (simp add: clean_def)

lemma normalize_fqdn_Inr:
  "normalize_fqdn s = Inr t \<longleftrightarrow>
     s \<noteq> [] \<and> t = lower (rstrip_dots (strip s)) \<and> clean t"
proof -
  have "CHR ''*'' \<in> set (lower (rstrip_dots (strip ''*'')))" by code_simp
  then show ?thesis
    by (auto simp: normalize_fqdn_def clean_def Let_def list_ex_iff)
qed


section \<open>The candidate list in closed form\<close>

definition pattern_at :: "string \<Rightarrow> nat \<Rightarrow> string" where
  "pattern_at fqdn r =
     (if r = 0 then fqdn
      else if r = GLOBAL_RANK then ''*''
      else ''*.'' @ join ''.'' (drop r (split_on (CHR ''.'') fqdn)))"

definition is_deep :: "nat \<Rightarrow> bool" where
  "is_deep r \<longleftrightarrow> 2 \<le> r \<and> r < GLOBAL_RANK"

definition bucket_of :: "int \<Rightarrow> string \<Rightarrow> int" where
  "bucket_of num_buckets fqdn =
     (if num_buckets > 1 then crc32 (encode fqdn) mod num_buckets else 0)"

definition ranks :: "match_mode \<Rightarrow> nat \<Rightarrow> nat list" where
  "ranks mode n = 0 # [1..<(if mode = MULTI_LEVEL then n else min n 2)] @ [GLOBAL_RANK]"

abbreviation num_labels :: "string \<Rightarrow> nat" where
  "num_labels s \<equiv> length (split_on (CHR ''.'') s)"

lemma clean_num_labels: "clean s \<Longrightarrow> 0 < num_labels s \<and> num_labels s \<le> 20"
  by (simp add: clean_def MAX_LABELS_def)

lemma upt_split_2: "[Suc 0..<n] = (if n \<ge> 2 then [Suc 0] else []) @ [2..<n]"
  by (auto simp: upt_conv_Cons numeral_2_eq_2)

lemma upt_min_2: "[Suc 0..<min n 2] = (if n \<ge> 2 then [Suc 0] else [])"
  by (auto simp: min_def upt_conv_Cons numeral_2_eq_2)

lemma candidates_closed:
  assumes "num_labels fqdn \<le> GLOBAL_RANK"
  shows "candidates fqdn mode nb =
     map (\<lambda>r. mk_candidate (pattern_at fqdn r) r (is_deep r) (bucket_of nb fqdn))
       (ranks mode (num_labels fqdn))"
  using assms
  by (cases mode)
    (auto simp: candidates_def ranks_def pattern_at_def is_deep_def bucket_of_def Let_def
       GLOBAL_RANK_def upt_split_2 upt_min_2 simp del: upt_0)

lemma field_candidates_closed:
  assumes "num_labels fqdn \<le> GLOBAL_RANK"
  shows "field_candidates fqdn mode =
     map (\<lambda>r. \<lparr>f_pattern = pattern_at fqdn r, f_rank = r, f_needs_multi = is_deep r\<rparr>)
       (ranks mode (num_labels fqdn))"
  using assms
  by (cases mode)
    (auto simp: field_candidates_def ranks_def pattern_at_def is_deep_def Let_def
       GLOBAL_RANK_def upt_split_2 upt_min_2 simp del: upt_0)

lemma ranks_sorted: "n \<le> GLOBAL_RANK \<Longrightarrow> sorted_wrt (<) (ranks mode n)"
  by (auto simp: ranks_def GLOBAL_RANK_def sorted_wrt_append)

lemma ranks_hd: "ranks mode n = 0 # tl (ranks mode n)"
  by (simp add: ranks_def)

lemma set_ranks:
  "r \<in> set (ranks mode n) \<longleftrightarrow>
     r = 0 \<or> r = GLOBAL_RANK \<or> (1 \<le> r \<and> r < n \<and> (mode = MULTI_LEVEL \<or> r = 1))"
  by (cases mode) (auto simp: ranks_def)

lemma length_ranks:
  "0 < n \<Longrightarrow> length (ranks mode n) = (if mode = MULTI_LEVEL then n else min n 2) + 1"
  by (auto simp: ranks_def)

lemma ranks_subseq: "subseq (ranks SINGLE_LEVEL n) (ranks MULTI_LEVEL n)"
proof -
  have "subseq [Suc 0..<min n 2] [Suc 0..<n]"
    unfolding upt_min_2 upt_split_2 by simp
  then have "subseq ([Suc 0..<min n 2] @ [GLOBAL_RANK]) ([Suc 0..<n] @ [GLOBAL_RANK])"
    by (rule list_emb_append_mono) simp
  then show ?thesis by (simp add: ranks_def)
qed


section \<open>Which patterns cover a query\<close>

text \<open>
  The matching semantics of the module's documentation, on the text of the names: a
  pattern covers a query when it is the query itself, or the bare star, or
  \<open>*.\<close>\<open>y\<close> where the query is \<open>x.y\<close> with a non-empty \<open>x\<close>, which under
  \<open>SINGLE_LEVEL\<close> must be one label.
\<close>

definition pattern_matches :: "match_mode \<Rightarrow> string \<Rightarrow> string \<Rightarrow> bool" where
  "pattern_matches mode p q \<longleftrightarrow>
     p = q \<or> p = ''*'' \<or>
     (starts_with ''*.'' p \<and>
      (let y = drop 1 p; k = length q - length y in
       length y < length q \<and> drop k q = y \<and>
       (mode = SINGLE_LEVEL \<longrightarrow> CHR ''.'' \<notin> set (take k q))))"

lemma pattern_matches_iff:
  "pattern_matches mode p q \<longleftrightarrow>
     p = q \<or> p = ''*'' \<or>
     (\<exists>x y. p = ''*.'' @ y \<and> q = x @ CHR ''.'' # y \<and> x \<noteq> [] \<and>
        (mode = SINGLE_LEVEL \<longrightarrow> CHR ''.'' \<notin> set x))" (is "_ \<longleftrightarrow> _ \<or> _ \<or> ?E")
proof -
  let ?W = "starts_with ''*.'' p \<and>
      (let y = drop 1 p; k = length q - length y in
       length y < length q \<and> drop k q = y \<and>
       (mode = SINGLE_LEVEL \<longrightarrow> CHR ''.'' \<notin> set (take k q)))"
  have "?W \<Longrightarrow> ?E"
  proof -
    assume w: ?W
    then obtain y where p: "p = ''*.'' @ y" by (auto simp: starts_with_iff)
    let ?k = "length q - Suc (length y)"
    have "take ?k q @ CHR ''.'' # y = q" "take ?k q \<noteq> []"
      using w p by (auto simp: Let_def) (metis append_take_drop_id)+
    with w p show ?E by (intro exI[of _ "take ?k q"] exI[of _ y]) (auto simp: Let_def)
  qed
  moreover have "?E \<Longrightarrow> ?W" by (auto simp: Let_def)
  ultimately show ?thesis unfolding pattern_matches_def by blast
qed

lemma pattern_at_wildcard:
  assumes "clean q" "1 \<le> r" "r < num_labels q"
  obtains x where "q = x @ CHR ''.'' # join ''.'' (drop r (split_on (CHR ''.'') q))"
    "x = join ''.'' (take r (split_on (CHR ''.'') q))" "x \<noteq> []"
proof -
  let ?ls = "split_on (CHR ''.'') q"
  let ?x = "join ''.'' (take r ?ls)"
  have t: "take r ?ls \<noteq> []" and d: "drop r ?ls \<noteq> []" using assms by auto
  have "q = join ''.'' (take r ?ls @ drop r ?ls)" by simp
  then have "q = ?x @ CHR ''.'' # join ''.'' (drop r ?ls)"
    unfolding join_append[OF t d] by simp
  moreover have "?x \<noteq> []"
  proof
    assume "?x = []"
    then have "hd (take r ?ls) = []" using join_eq_Nil t by blast
    moreover have "hd (take r ?ls) \<in> set ?ls" using t by (meson hd_in_set in_set_takeD)
    ultimately show False using \<open>clean q\<close> by (auto simp: clean_def)
  qed
  ultimately show ?thesis using that by blast
qed

lemma pattern_at_matches:
  assumes "clean q" "r \<in> set (ranks mode (num_labels q))"
  shows "pattern_matches mode (pattern_at q r) q"
proof (cases "r = 0 \<or> r = GLOBAL_RANK")
  case True
  then show ?thesis by (auto simp: pattern_matches_iff pattern_at_def)
next
  case False
  with assms have r: "1 \<le> r" "r < num_labels q" "mode = MULTI_LEVEL \<or> r = 1"
    by (auto simp: set_ranks)
  from pattern_at_wildcard[OF assms(1) r(1,2)] obtain x where
    q: "q = x @ CHR ''.'' # join ''.'' (drop r (split_on (CHR ''.'') q))"
    and x: "x = join ''.'' (take r (split_on (CHR ''.'') q))" "x \<noteq> []" by blast
  have "CHR ''.'' \<notin> set x" if "mode = SINGLE_LEVEL"
  proof -
    from that r have "r = 1" by auto
    then have "x = hd (split_on (CHR ''.'') q)"
      using x(1) by (cases "split_on (CHR ''.'') q") auto
    then show ?thesis using split_on_parts by (metis hd_in_set split_on_nonempty)
  qed
  with False q x show ?thesis
    unfolding pattern_matches_iff pattern_at_def by auto
qed

lemma matches_pattern_at:
  assumes "clean q" "pattern_matches mode p q"
  shows "\<exists>r\<in>set (ranks mode (num_labels q)). p = pattern_at q r"
proof -
  consider "p = q" | "p = ''*''" | x y where "p = ''*.'' @ y" "q = x @ CHR ''.'' # y"
    "x \<noteq> []" "mode = SINGLE_LEVEL \<longrightarrow> CHR ''.'' \<notin> set x"
    using assms(2) unfolding pattern_matches_iff by blast
  then show ?thesis
  proof cases
    case 1
    then show ?thesis by (intro bexI[of _ 0]) (auto simp: pattern_at_def set_ranks)
  next
    case 2
    then show ?thesis
      by (intro bexI[of _ GLOBAL_RANK]) (auto simp: pattern_at_def set_ranks GLOBAL_RANK_def)
  next
    case 3
    let ?r = "num_labels x"
    have ls: "split_on (CHR ''.'') q = split_on (CHR ''.'') x @ split_on (CHR ''.'') y"
      using 3(2) by (simp add: split_on_append_sep)
    then have r: "1 \<le> ?r" "?r < num_labels q" by (auto simp: Suc_le_eq)
    have "mode = SINGLE_LEVEL \<longrightarrow> ?r = 1" using 3(4) by (simp add: split_on_no_sep)
    with r have "?r \<in> set (ranks mode (num_labels q))" by (cases mode) (auto simp: set_ranks)
    moreover have "?r \<noteq> GLOBAL_RANK"
      using r clean_num_labels[OF assms(1)] by (auto simp: GLOBAL_RANK_def)
    then have "p = pattern_at q ?r" using 3(1) r(1) by (auto simp: pattern_at_def ls)
    ultimately show ?thesis by blast
  qed
qed


section \<open>The contract of a candidate list\<close>

text \<open>
  What a matcher may rely on when it walks candidates of a clean name in list order:
  the first one is the exact name at rank 0, ranks increase strictly, a candidate is
  deep exactly when its rank is, and the patterns are the ones that cover the name.
\<close>

locale candidate_source =
  fixes gen :: "string \<Rightarrow> match_mode \<Rightarrow> 'c list"
    and pat :: "'c \<Rightarrow> string"
    and rk :: "'c \<Rightarrow> nat"
    and deep :: "'c \<Rightarrow> bool"
  assumes gen_rk: "clean q \<Longrightarrow> map rk (gen q mode) = ranks mode (num_labels q)"
    and gen_pat: "clean q \<Longrightarrow> c \<in> set (gen q mode) \<Longrightarrow> pat c = pattern_at q (rk c)"
    and gen_deep: "clean q \<Longrightarrow> c \<in> set (gen q mode) \<Longrightarrow> deep c = is_deep (rk c)"
begin

lemma length_gen: "clean q \<Longrightarrow> length (gen q mode) = length (ranks mode (num_labels q))"
  using gen_rk by (metis length_map)

lemma gen_nonempty: "clean q \<Longrightarrow> gen q mode \<noteq> []"
  using length_gen ranks_hd by (metis length_0_conv list.distinct(1))

lemma rk_sorted: "clean q \<Longrightarrow> sorted_wrt (<) (map rk (gen q mode))"
  using gen_rk ranks_sorted[of "num_labels q"] clean_num_labels[of q]
  by (simp add: GLOBAL_RANK_def)

lemma rk_nth: "clean q \<Longrightarrow> i < length (gen q mode) \<Longrightarrow>
    rk (gen q mode ! i) = ranks mode (num_labels q) ! i"
  by (metis gen_rk nth_map)

lemma rk_less: "clean q \<Longrightarrow> i < j \<Longrightarrow> j < length (gen q mode) \<Longrightarrow>
    rk (gen q mode ! i) < rk (gen q mode ! j)"
  using sorted_wrt_nth_less[OF rk_sorted] by fastforce

lemma rk_inject: "clean q \<Longrightarrow> i < length (gen q mode) \<Longrightarrow> j < length (gen q mode) \<Longrightarrow>
    rk (gen q mode ! i) = rk (gen q mode ! j) \<Longrightarrow> i = j"
  by (metis less_irrefl linorder_neqE_nat rk_less)

lemma rk_zero: "clean q \<Longrightarrow> i < length (gen q mode) \<Longrightarrow> rk (gen q mode ! i) = 0 \<longleftrightarrow> i = 0"
  by (metis gr0I less_nat_zero_code nth_Cons_0 ranks_hd rk_less rk_nth)

lemma rk_mem: "clean q \<Longrightarrow> c \<in> set (gen q mode) \<Longrightarrow> rk c \<in> set (ranks mode (num_labels q))"
  by (metis gen_rk image_eqI list.set_map)

lemma mem_rk: "clean q \<Longrightarrow> r \<in> set (ranks mode (num_labels q)) \<Longrightarrow> \<exists>c\<in>set (gen q mode). rk c = r"
  by (metis (no_types, lifting) gen_rk imageE list.set_map)

lemma covers: "clean q \<Longrightarrow> pat ` set (gen q mode) = {p. pattern_matches mode p q}"
proof (rule set_eqI)
  fix p
  assume q: "clean q"
  show "p \<in> pat ` set (gen q mode) \<longleftrightarrow> p \<in> {p. pattern_matches mode p q}"
  proof
    assume "p \<in> pat ` set (gen q mode)"
    then obtain c where "c \<in> set (gen q mode)" "p = pattern_at q (rk c)"
      using gen_pat q by blast
    then show "p \<in> {p. pattern_matches mode p q}"
      using pattern_at_matches q rk_mem by blast
  next
    assume "p \<in> {p. pattern_matches mode p q}"
    then obtain r where "r \<in> set (ranks mode (num_labels q))" "p = pattern_at q r"
      using matches_pattern_at q by blast
    then show "p \<in> pat ` set (gen q mode)" using mem_rk gen_pat q by (metis imageI)
  qed
qed

end

lemma clean_ranks_bound: "clean q \<Longrightarrow> num_labels q \<le> GLOBAL_RANK"
  using clean_num_labels[of q] by (simp add: GLOBAL_RANK_def)

interpretation cand: candidate_source "\<lambda>q m. candidates q m nb" c_pattern c_rank c_needs_multi
  for nb
  by unfold_locales
    (auto simp: candidates_closed clean_ranks_bound mk_candidate_def comp_def)

interpretation field: candidate_source field_candidates f_pattern f_rank f_needs_multi
  by unfold_locales (auto simp: field_candidates_closed clean_ranks_bound comp_def)


section \<open>Tags\<close>

text \<open>The three co-location groups: the registrable domain, the bare TLD, the global tier.\<close>

definition apex_tag :: "string \<Rightarrow> string" where
  "apex_tag q =
     (let ls = split_on (CHR ''.'') q; n = length ls in ls ! (n - 2) @ ''.'' @ ls ! (n - 1))"

definition tld_tag :: "string \<Rightarrow> string" where
  "tld_tag q = ''__tld__:'' @ last (split_on (CHR ''.'') q)"

definition tier_tag :: "string \<Rightarrow> nat \<Rightarrow> string" where
  "tier_tag q r =
     (if r = GLOBAL_RANK then ''__global__''
      else if r + 1 = num_labels q then tld_tag q else apex_tag q)"

lemma not_starts_star: "CHR ''*'' \<notin> set q \<Longrightarrow> \<not> starts_with ''*.'' q"
  by (auto simp: starts_with_iff)

lemma hash_tag_pattern_at:
  assumes "clean q" "r \<in> set (ranks mode (num_labels q))"
  shows "hash_tag (pattern_at q r) = tier_tag q r"
proof -
  let ?ls = "split_on (CHR ''.'') q"
  have n: "0 < num_labels q" "num_labels q < GLOBAL_RANK"
    using clean_num_labels[OF assms(1)] by (auto simp: GLOBAL_RANK_def)
  consider "r = 0" | "r = GLOBAL_RANK" | "1 \<le> r" "r < num_labels q"
    using assms(2) by (auto simp: set_ranks)
  then show ?thesis
  proof cases
    case 1
    have "q \<noteq> ''*''" "\<not> starts_with ''*.'' q"
      using clean_no_star[OF assms(1)] not_starts_star by auto
    with 1 n show ?thesis
      by (auto simp: pattern_at_def hash_tag_def tier_tag_def tld_tag_def apex_tag_def Let_def
          last_conv_nth)
  next
    case 2
    then show ?thesis
      by (simp add: pattern_at_def hash_tag_def tier_tag_def GLOBAL_RANK_def)
  next
    case 3
    have d: "split_on (CHR ''.'') (join ''.'' (drop r ?ls)) = drop r ?ls"
      using 3 by (intro split_on_drop_join) simp
    have e: "r + (num_labels q - r - 2) = num_labels q - 2"
      "r + (num_labels q - r - 1) = num_labels q - 1" if "num_labels q - r \<noteq> 1"
      using that 3 by auto
    have p: "pattern_at q r = ''*.'' @ join ''.'' (drop r ?ls)"
      using 3 n by (simp add: pattern_at_def)
    show ?thesis
    proof (cases "num_labels q - r = 1")
      case True
      then have r1: "r = num_labels q - 1" using 3 by simp
      have "drop r ?ls ! 0 = last ?ls" "r + 1 = num_labels q" "r \<noteq> GLOBAL_RANK"
        using 3 n unfolding r1 by (auto simp: last_conv_nth)
      with True show ?thesis
        by (simp add: p hash_tag_def d tier_tag_def tld_tag_def)
    next
      case False
      then have "r + 1 \<noteq> num_labels q" "r \<noteq> GLOBAL_RANK" using 3 n by auto
      with False e[OF False] 3 show ?thesis
        by (simp add: p hash_tag_def d tier_tag_def apex_tag_def Let_def)
    qed
  qed
qed

lemma candidate_tag:
  assumes "clean q" "c \<in> set (candidates q mode nb)"
  shows "c_tag c = tier_tag q (c_rank c)"
proof -
  obtain r where r: "r \<in> set (ranks mode (num_labels q))"
    "c = mk_candidate (pattern_at q r) r (is_deep r) (bucket_of nb q)"
    using assms by (auto simp: candidates_closed clean_ranks_bound)
  then show ?thesis using hash_tag_pattern_at[OF assms(1) r(1)] by (simp add: mk_candidate_def)
qed

lemma candidate_tag_hash:
  "c \<in> set (candidates q mode nb) \<Longrightarrow> c_tag c = hash_tag (c_pattern c)"
  by (auto simp: candidates_def mk_candidate_def Let_def split: if_splits)

lemma candidate_bucket:
  "c \<in> set (candidates q mode nb) \<Longrightarrow> c_bucket_index c = bucket_of nb q"
  by (auto simp: candidates_def mk_candidate_def Let_def bucket_of_def split: if_splits)

lemma bucket_of_range: "0 \<le> bucket_of nb q \<and> (1 < nb \<longrightarrow> bucket_of nb q < nb)"
  by (auto simp: bucket_of_def)

lemma apex_tag_dot: "CHR ''.'' \<in> set (apex_tag q)"
  by (simp add: apex_tag_def Let_def)

lemma bucketed_apex: "CHR '':'' \<notin> set q \<Longrightarrow> 2 \<le> num_labels q \<Longrightarrow> \<not> is_bucketed_tag (apex_tag q)"
proof -
  assume q: "CHR '':'' \<notin> set q" "2 \<le> num_labels q"
  have l: "CHR '':'' \<notin> set (split_on (CHR ''.'') q ! i)" if "i < num_labels q" for i
    using q(1) set_split_on[OF nth_mem[OF that]] by blast
  have "CHR '':'' \<notin> set (apex_tag q)"
    using q(2) l[of "num_labels q - 2"] l[of "num_labels q - 1"]
    by (auto simp: apex_tag_def Let_def)
  moreover have "apex_tag q \<noteq> ''__global__''"
    using apex_tag_dot[of q] by (intro notI) simp
  ultimately show ?thesis by (auto simp: is_bucketed_tag_def starts_with_iff)
qed

lemma bucketed_tld [simp]: "is_bucketed_tag (tld_tag q)"
  by (simp add: tld_tag_def is_bucketed_tag_def)

lemma bucketed_global [simp]: "is_bucketed_tag ''__global__''"
  by (simp add: is_bucketed_tag_def)


section \<open>Properties\<close>

text \<open>
  C4: The candidates generated for a normalised query are exactly the patterns that cover
  it under the mode: nothing that matches is missed, nothing else is probed.
\<close>

theorem candidates_cover:
  "clean q \<Longrightarrow> c_pattern ` set (candidates q mode nb) = {p. pattern_matches mode p q}"
  by (rule cand.covers)

theorem candidates_cover_witness:
  "clean ''a.b.com'' \<and>
   c_pattern ` set (candidates ''a.b.com'' MULTI_LEVEL 4)
     = {p. pattern_matches MULTI_LEVEL p ''a.b.com''}"
proof -
  have "clean ''a.b.com''" by code_simp
  then show ?thesis using candidates_cover by blast
qed

text \<open>
  Index order is precedence order: ranks increase strictly along the list, the first
  candidate is the query itself at rank 0 and is the only one of that rank, the last is the
  bare star at the global rank, a wildcard candidate of rank r strips exactly r labels, and
  a candidate needs the multi-level mode exactly when it strips two labels or more.
\<close>

theorem candidates_precedence:
  assumes "clean q"
  shows "sorted_wrt (<) (map c_rank (candidates q mode nb))
    \<and> c_pattern (hd (candidates q mode nb)) = q \<and> c_rank (hd (candidates q mode nb)) = 0
    \<and> c_pattern (last (candidates q mode nb)) = ''*''
    \<and> c_rank (last (candidates q mode nb)) = GLOBAL_RANK
    \<and> (\<forall>c\<in>set (candidates q mode nb).
          c_pattern c = pattern_at q (c_rank c) \<and>
          c_needs_multi c = (2 \<le> c_rank c \<and> c_rank c < GLOBAL_RANK))"
proof -
  let ?n = "num_labels q"
  have cs: "candidates q mode nb =
      map (\<lambda>r. mk_candidate (pattern_at q r) r (is_deep r) (bucket_of nb q)) (ranks mode ?n)"
    by (rule candidates_closed[OF clean_ranks_bound[OF assms]])
  have "hd (ranks mode ?n) = 0" "last (ranks mode ?n) = GLOBAL_RANK" "ranks mode ?n \<noteq> []"
    by (auto simp: ranks_def)
  then have "c_pattern (hd (candidates q mode nb)) = q" "c_rank (hd (candidates q mode nb)) = 0"
    "c_pattern (last (candidates q mode nb)) = ''*''"
    "c_rank (last (candidates q mode nb)) = GLOBAL_RANK"
    unfolding cs
    by (auto simp: hd_map last_map mk_candidate_def pattern_at_def GLOBAL_RANK_def)
  then show ?thesis
    using cand.rk_sorted[OF assms] cand.gen_pat[OF assms] cand.gen_deep[OF assms]
    by (auto simp: is_deep_def)
qed

theorem candidates_precedence_witness:
  "clean ''a.b.com'' \<and> sorted_wrt (<) (map c_rank (candidates ''a.b.com'' MULTI_LEVEL 1))
   \<and> map c_pattern (candidates ''a.b.com'' MULTI_LEVEL 1)
       = [''a.b.com'', ''*.b.com'', ''*.com'', ''*'']"
proof -
  have "clean ''a.b.com''" by code_simp
  then show ?thesis
    using candidates_precedence[of "''a.b.com''" MULTI_LEVEL 1]
    by (intro conjI) (blast, blast, code_simp)
qed

text \<open>
  The two modes are one mechanism: the single-level candidates are a subsequence of the
  multi-level ones (the same records, bucket placement included), they number at most three,
  and the multi-level ones number one more than the labels of the query.
\<close>

theorem single_level_subsequence:
  assumes "clean q"
  shows "subseq (candidates q SINGLE_LEVEL nb) (candidates q MULTI_LEVEL nb)
    \<and> length (candidates q SINGLE_LEVEL nb) \<le> 3
    \<and> length (candidates q MULTI_LEVEL nb) = num_labels q + 1
    \<and> length (candidates q MULTI_LEVEL nb) \<le> MAX_LABELS + 1"
  using assms clean_num_labels[OF assms]
  by (auto simp: candidates_closed clean_ranks_bound length_ranks MAX_LABELS_def
      intro: subseq_map ranks_subseq)

theorem single_level_subsequence_witness:
  "clean ''a.b.c.com'' \<and>
   subseq (candidates ''a.b.c.com'' SINGLE_LEVEL 8) (candidates ''a.b.c.com'' MULTI_LEVEL 8)"
proof -
  have "clean ''a.b.c.com''" by code_simp
  then show ?thesis using single_level_subsequence by blast
qed

text \<open>
  The module's documentation calls the single-level list a strict subsequence of the
  multi-level one. It is strict exactly when the query has more than two labels; for a
  query of one or two labels the two lists are equal.
\<close>

theorem modes_agree_iff_short:
  assumes "clean q"
  shows "candidates q SINGLE_LEVEL nb = candidates q MULTI_LEVEL nb \<longleftrightarrow> num_labels q \<le> 2"
proof
  assume "candidates q SINGLE_LEVEL nb = candidates q MULTI_LEVEL nb"
  then have "length (candidates q SINGLE_LEVEL nb) = length (candidates q MULTI_LEVEL nb)"
    by simp
  then show "num_labels q \<le> 2"
    using assms clean_num_labels[OF assms]
    by (simp add: candidates_closed clean_ranks_bound length_ranks)
next
  assume "num_labels q \<le> 2"
  then show "candidates q SINGLE_LEVEL nb = candidates q MULTI_LEVEL nb"
    using assms by (simp add: candidates_closed clean_ranks_bound ranks_def min_absorb1)
qed

theorem modes_agree_iff_short_witness:
  "clean ''b.com'' \<and> candidates ''b.com'' SINGLE_LEVEL 4 = candidates ''b.com'' MULTI_LEVEL 4"
proof -
  have "clean ''b.com''" "num_labels ''b.com'' \<le> 2" by code_simp+
  then show ?thesis using modes_agree_iff_short by blast
qed

text \<open>
  However many ancestors a lookup probes, its candidates fall into at most three
  co-location groups: the query's registrable domain, its bare TLD and the global tier.
  All of them carry the one replica index computed from the query, which is a valid index.
\<close>

theorem candidate_groups_at_most_three:
  assumes "clean q"
  shows "c_tag ` set (candidates q mode nb) \<subseteq> {apex_tag q, tld_tag q, ''__global__''}
    \<and> card (c_tag ` set (candidates q mode nb)) \<le> 3
    \<and> (\<forall>c\<in>set (candidates q mode nb). c_bucket_index c = bucket_of nb q
          \<and> 0 \<le> c_bucket_index c \<and> c_bucket_index c < max 1 nb)"
proof -
  have s: "c_tag ` set (candidates q mode nb) \<subseteq> {apex_tag q, tld_tag q, ''__global__''}"
    using candidate_tag[OF assms] by (auto simp: tier_tag_def)
  have "card (c_tag ` set (candidates q mode nb)) \<le> card {apex_tag q, tld_tag q, ''__global__''}"
    by (rule card_mono[OF _ s]) simp
  also have "\<dots> \<le> 3" by (simp add: card_insert_if)
  finally show ?thesis
    using s bucket_of_range[of nb q] candidate_bucket by (auto simp: bucket_of_def)
qed

theorem candidate_groups_at_most_three_witness:
  "clean ''a.b.c.com'' \<and> card (c_tag ` set (candidates ''a.b.c.com'' MULTI_LEVEL 4)) \<le> 3"
proof -
  have "clean ''a.b.c.com''" by code_simp
  then show ?thesis using candidate_groups_at_most_three by blast
qed


lemma star_in_normalized:
  "CHR ''*'' \<in> set (lower (rstrip_dots (strip s))) \<longleftrightarrow> CHR ''*'' \<in> set s"
proof -
  have sp: "\<not> is_space (CHR ''*'')" by code_simp
  have r: "CHR ''*'' \<in> set (rstrip_by p t) \<longleftrightarrow> CHR ''*'' \<in> set t" if "\<not> p (CHR ''*'')" for p t
    using that rstrip_by_prefix[of t p] by (metis Un_iff set_append)
  have "CHR ''*'' \<in> set (dropWhile is_space s) \<longleftrightarrow> CHR ''*'' \<in> set s"
    using sp by (metis Un_iff set_append set_takeWhileD takeWhile_dropWhile_id)
  then show ?thesis using sp by (simp add: r rstrip_dots_def strip_def)
qed

text \<open>
  The rejections of the boundary check, each under exactly its own condition: the empty
  string, the bare star, a star anywhere, an empty label, and more than 20 labels. Every
  other input is accepted, and what is accepted is clean, in lower case and without a final
  dot.
\<close>

theorem normalize_fqdn_outcomes:
  "let t = lower (rstrip_dots (strip s)) in
     (normalize_fqdn s = Inl (InvalidFqdn EmptyFqdn)) = (s = [])
   \<and> (normalize_fqdn s = Inl (InvalidFqdn BareStar)) = (s = ''*'')
   \<and> (normalize_fqdn s = Inl (InvalidFqdn ContainsStar)) = (s \<noteq> ''*'' \<and> CHR ''*'' \<in> set s)
   \<and> (normalize_fqdn s = Inl (InvalidFqdn EmptyLabel))
       = (s \<noteq> [] \<and> CHR ''*'' \<notin> set s \<and> [] \<in> set (split_on (CHR ''.'') t))
   \<and> (normalize_fqdn s = Inl (InvalidFqdn (TooManyLabels k)))
       = (CHR ''*'' \<notin> set s \<and> [] \<notin> set (split_on (CHR ''.'') t)
          \<and> k = num_labels t \<and> 20 < num_labels t)
   \<and> (normalize_fqdn s = Inr u) = (s \<noteq> [] \<and> u = t \<and> clean t)
   \<and> lower t = t \<and> rstrip_dots t = t"
proof -
  define t where "t = lower (rstrip_dots (strip s))"
  have star: "CHR ''*'' \<in> set t \<longleftrightarrow> CHR ''*'' \<in> set s"
    unfolding t_def by (rule star_in_normalized)
  have nil: "[] \<in> set (split_on (CHR ''.'') t)" if "s = []"
    unfolding t_def that by code_simp
  have errs: "(normalize_fqdn s = Inl (InvalidFqdn EmptyFqdn)) = (s = [])"
    "(normalize_fqdn s = Inl (InvalidFqdn BareStar)) = (s = ''*'')"
    "(normalize_fqdn s = Inl (InvalidFqdn ContainsStar)) = (s \<noteq> ''*'' \<and> CHR ''*'' \<in> set s)"
    "(normalize_fqdn s = Inl (InvalidFqdn EmptyLabel))
       = (s \<noteq> [] \<and> CHR ''*'' \<notin> set s \<and> [] \<in> set (split_on (CHR ''.'') t))"
    "(normalize_fqdn s = Inl (InvalidFqdn (TooManyLabels k)))
       = (CHR ''*'' \<notin> set s \<and> [] \<notin> set (split_on (CHR ''.'') t)
          \<and> k = num_labels t \<and> 20 < num_labels t)"
    using star nil
    by (auto simp: normalize_fqdn_def Let_def list_ex_iff MAX_LABELS_def simp flip: t_def)
  have "(normalize_fqdn s = Inr u) = (s \<noteq> [] \<and> u = t \<and> clean t)"
    unfolding normalize_fqdn_Inr t_def by auto
  moreover have "lower t = t" by (simp add: t_def)
  moreover have "rstrip_dots t = t"
    using last_rstrip_by[of "\<lambda>c. c = CHR ''.''" "strip s"]
    by (auto simp: t_def rstrip_dots_def lower_def last_map intro!: rstrip_by_id)
  ultimately show ?thesis using errs unfolding Let_def t_def[symmetric] by blast
qed

text \<open>
  A well-formed name without blanks is accepted with any number of trailing dots, and
  its value is its lower-case form: looking a name up is insensitive to case and to
  trailing dots, and normalising twice is normalising once. (The documentation speaks of
  one trailing dot and of rejecting empty labels.)
\<close>

theorem normalize_fqdn_accepts:
  assumes "clean s" "\<forall>c\<in>set s. \<not> is_space c"
  shows "normalize_fqdn (s @ replicate k (CHR ''.'')) = Inr (lower s)
    \<and> normalize_fqdn (lower s) = Inr (lower s)"
proof -
  have last: "last s \<noteq> CHR ''.''"
  proof
    assume "last s = CHR ''.''"
    then have "s = butlast s @ [CHR ''.'']"
      using clean_nonempty[OF assms(1)] by (metis append_butlast_last_id)
    then have "[] \<in> set (split_on (CHR ''.'') s)"
      using split_on_append_sep[of "CHR ''.''" "butlast s" "[]"] by (metis Un_iff list.set_intros(1)
          set_append split_on.simps(1))
    then show False using assms(1) by (auto simp: clean_def)
  qed
  have ns: "\<not> is_space (CHR ''.'')" by code_simp
  have sp: "strip (s @ replicate k (CHR ''.'')) = s @ replicate k (CHR ''.'')"
    using assms(2) ns by (intro strip_id) auto
  have rd: "rstrip_dots (s @ replicate k (CHR ''.'')) = s"
    using last by (simp add: rstrip_dots_def rstrip_by_all rstrip_by_id)
  have cl: "clean (lower s)"
    using assms(1) by (auto simp: clean_def split_on_lower) (simp add: lower_def)
  have "strip (lower s) = lower s"
    using assms(2) is_space_lower_char by (intro strip_id) (auto simp: lower_def)
  moreover have "rstrip_dots (lower s) = lower s"
    using last clean_nonempty[OF assms(1)]
    by (simp add: rstrip_dots_def rstrip_by_id lower_def last_map)
  ultimately have "normalize_fqdn (lower s) = Inr (lower s)"
    using cl clean_nonempty[OF cl] by (simp add: normalize_fqdn_Inr)
  then show ?thesis
    using sp rd cl clean_nonempty[OF assms(1)] by (simp add: normalize_fqdn_Inr)
qed

theorem normalize_fqdn_accepts_witness:
  "clean ''API.foo.com'' \<and> normalize_fqdn ''API.foo.com..'' = Inr ''api.foo.com''"
proof -
  have c: "clean ''API.foo.com''" and s: "\<forall>c\<in>set ''API.foo.com''. \<not> is_space c"
    and l: "lower ''API.foo.com'' = ''api.foo.com''" by code_simp+
  show ?thesis
    using c normalize_fqdn_accepts[OF c s, of 2] unfolding l by (simp add: numeral_2_eq_2)
qed

text \<open>
  Normalisation is not idempotent on names with blanks inside a trailing dot: a label
  that is one blank survives the first call, and the second call removes it.
\<close>

theorem normalize_fqdn_blank_label:
  "normalize_fqdn ''a. .'' = Inr ''a. '' \<and> normalize_fqdn ''a. '' = Inr ''a''"
  by code_simp

end
