(* ===== verification/Interval_Partition.thy ===== *)
theory Interval_Partition
  imports Py_Str
begin

text \<open>
  Half-open intervals \<open>[bnd k, bnd (k+1))\<close> with non-decreasing integer bounds, and the two
  ways the code finds the interval of a value by bisection: over the lower bounds
  (\<open>bisect_right(starts, x) - 1\<close>, the slot buckets) and over the upper bounds
  (\<open>bisect_right(prefix, x)\<close>, the rule layout). The locale is interpreted on the slot
  ranges and on the prefix sums of key sizes.
\<close>

locale interval_partition =
  fixes bnd :: "nat \<Rightarrow> int" and n :: nat
  assumes mono: "i \<le> j \<Longrightarrow> j \<le> n \<Longrightarrow> bnd i \<le> bnd j"
begin

lemma sorted_lower: "sorted (map bnd [0..<n])"
  by (auto simp: sorted_iff_nth_mono intro: mono)

lemma sorted_upper: "sorted (map (\<lambda>i. bnd (Suc i)) [0..<n])"
  by (auto simp: sorted_iff_nth_mono intro: mono)

lemma bisect_lower:
  assumes "k < n" "bnd k \<le> x" "x < bnd (Suc k)"
  shows "bisect_right (map bnd [0..<n]) x = Suc k"
  using assms by (intro bisect_right_eqI sorted_lower) auto

lemma bisect_upper:
  assumes "k < n" "bnd k \<le> x" "x < bnd (Suc k)"
  shows "bisect_right (map (\<lambda>i. bnd (Suc i)) [0..<n]) x = k"
  using assms by (intro bisect_right_eqI sorted_upper) (auto simp: gr0_conv_Suc)

lemma covers:
  assumes "bnd 0 \<le> x" "x < bnd n"
  shows "\<exists>k<n. bnd k \<le> x \<and> x < bnd (Suc k)"
proof -
  let ?k = "LEAST j. x < bnd j"
  have l1: "x < bnd ?k" by (rule LeastI[of "\<lambda>j. x < bnd j"]) (rule assms(2))
  have l2: "bnd j \<le> x" if "j < ?k" for j
    using not_less_Least[OF that] by (simp only: not_less)
  have "?k \<noteq> 0"
  proof
    assume "?k = 0"
    then show False using l1 assms(1) by simp
  qed
  then obtain m where m: "?k = Suc m" using not0_implies_Suc by blast
  have "?k \<le> n" by (rule Least_le) (rule assms(2))
  then have "m < n" using m by simp
  moreover have "bnd m \<le> x" by (rule l2) (simp add: m)
  moreover have "x < bnd (Suc m)" using l1 m by simp
  ultimately show ?thesis by blast
qed

lemma unique:
  assumes "j < n" "k < n" "bnd j \<le> x" "x < bnd (Suc j)" "bnd k \<le> x" "x < bnd (Suc k)"
  shows "j = k"
  using bisect_lower[OF assms(1,3,4)] bisect_lower[OF assms(2,5,6)] by simp

end

end
