(* ===== verification/Fqdn_Slots.thy ===== *)
theory Fqdn_Slots
  imports Interval_Partition
begin

text \<open>
  \<open>fqdnrules/fqdn_slots.py\<close>: CRC-16/XMODEM, Redis-Cluster slots, the floor partition of
  the slot space into buckets and the search for one token per bucket. Python's integers
  are \<open>int\<close>; the token search is the loop of the source with its draw cap, and
  raises \<open>RuntimeError\<close> when the cap is passed.
\<close>

definition NUM_SLOTS :: int where "NUM_SLOTS = 16384"


section \<open>CRC16 and slots\<close>

fun crc16_bits :: "nat \<Rightarrow> int \<Rightarrow> int" where
  "crc16_bits 0 crc = crc"
| "crc16_bits (Suc n) crc =
     crc16_bits n (if crc AND 0x8000 \<noteq> 0
                   then (push_bit 1 crc XOR 0x1021) AND 0xFFFF
                   else push_bit 1 crc AND 0xFFFF)"

fun crc16_loop :: "bytes \<Rightarrow> int \<Rightarrow> int" where
  "crc16_loop [] crc = crc"
| "crc16_loop (b # bs) crc = crc16_loop bs (crc16_bits 8 (crc XOR push_bit 8 b))"

definition crc16 :: "bytes \<Rightarrow> int" where
  "crc16 data = crc16_loop data 0"

definition slot :: "bytes \<Rightarrow> int" where
  "slot data = crc16 data AND 0x3FFF"

definition key_slot :: "string \<Rightarrow> int" where
  "key_slot key =
     (case find_from (CHR ''{'') key 0 of
        None \<Rightarrow> slot (encode key)
      | Some start \<Rightarrow>
          (case find_from (CHR ''}'') key (start + 1) of
             None \<Rightarrow> slot (encode key)
           | Some fin \<Rightarrow>
               if fin \<noteq> start + 1 then slot (encode (slice key (start + 1) fin))
               else slot (encode key)))"


section \<open>Buckets\<close>

definition slot_range :: "int \<Rightarrow> int \<Rightarrow> int \<times> int" where
  "slot_range i num_buckets =
     ((i * NUM_SLOTS) div num_buckets, ((i + 1) * NUM_SLOTS) div num_buckets)"

definition bucket_has_modulo_match :: "int \<Rightarrow> int \<Rightarrow> int \<Rightarrow> int \<Rightarrow> bool" where
  "bucket_has_modulo_match lo hi num_buckets bucket_index \<longleftrightarrow>
     (let smallest = lo + (bucket_index - lo) mod num_buckets in smallest < hi)"

definition is_modulo_safe :: "int \<Rightarrow> bool" where
  "is_modulo_safe num_buckets \<longleftrightarrow>
     list_all (\<lambda>i. case slot_range i num_buckets of
                     (lo, hi) \<Rightarrow> bucket_has_modulo_match lo hi num_buckets i)
       [0..num_buckets - 1]"

text \<open>\<open>math.ceil(math.log(n))\<close> for the integers the code passes to it, as its thresholds.\<close>

definition ceil_log :: "int \<Rightarrow> int" where
  "ceil_log n =
     (if n \<le> 1 then 0 else if n \<le> 2 then 1 else if n \<le> 7 then 2 else if n \<le> 20 then 3
      else if n \<le> 54 then 4 else if n \<le> 148 then 5 else if n \<le> 403 then 6
      else if n \<le> 1096 then 7 else if n \<le> 2980 then 8 else if n \<le> 8103 then 9 else 10)"

definition iteration_cap :: "int \<Rightarrow> int" where
  "iteration_cap num_buckets = 200 * num_buckets * ceil_log (max num_buckets 2) + 10000"

record bucket_table =
  tokens :: "string list"
  slots :: "int list"
  modulo_safe :: bool

definition table_token :: "bucket_table \<Rightarrow> int \<Rightarrow> string result" where
  "table_token t i =
     (if \<not> (0 \<le> i \<and> i < int (length (tokens t))) then Inl IndexError
      else Inr (tokens t ! nat i))"

function table_loop ::
  "int \<Rightarrow> int list \<Rightarrow> bool \<Rightarrow> int \<Rightarrow> string option list \<Rightarrow> int option list \<Rightarrow> int \<Rightarrow> int
    \<Rightarrow> (string option list \<times> int option list) result" where
  "table_loop num_buckets starts safe cap toks sls filled k =
     (if filled < num_buckets then
        if k > cap then Inl (RuntimeError ''compute_bucket_table'')
        else
          (let cand = py_str k;
               s = slot (encode cand);
               bucket = bisect_right starts s - 1
           in if toks ! bucket = None \<and> (\<not> safe \<or> s mod num_buckets = int bucket)
              then table_loop num_buckets starts safe cap
                     (toks[bucket := Some cand]) (sls[bucket := Some s]) (filled + 1) (k + 1)
              else table_loop num_buckets starts safe cap toks sls filled (k + 1))
      else Inr (toks, sls))"
  by pat_completeness auto
termination
  by (relation "measure (\<lambda>(n, starts, safe, cap, toks, sls, filled, k). nat (cap + 1 - k))") auto

declare table_loop.simps [simp del]

definition compute_bucket_table :: "int \<Rightarrow> bucket_table result" where
  "compute_bucket_table num_buckets =
     (if \<not> (1 \<le> num_buckets \<and> num_buckets \<le> 16384) then Inl (ValueError ''num_buckets'')
      else
        let starts = map (\<lambda>i. fst (slot_range i num_buckets)) [0..num_buckets - 1];
            safe = is_modulo_safe num_buckets;
            empty = replicate (nat num_buckets) None
        in bindR (table_loop num_buckets starts safe (iteration_cap num_buckets)
                    empty (replicate (nat num_buckets) None) 0 0)
             (\<lambda>(toks, sls). Inr \<lparr>tokens = map the toks, slots = map the sls,
                                  modulo_safe = safe\<rparr>))"


section \<open>Ranges of CRC and slot\<close>

lemma and_mask16: "x AND 0xFFFF = x mod (65536::int)"
  using take_bit_eq_mask[of 16 x] by (simp add: take_bit_eq_mod mask_eq_exp_minus_1)

lemma and_mask14: "x AND 0x3FFF = x mod (16384::int)"
  using take_bit_eq_mask[of 14 x] by (simp add: take_bit_eq_mod mask_eq_exp_minus_1)

lemma crc16_bits_range:
  "0 < n \<or> (0 \<le> crc \<and> crc < 65536) \<Longrightarrow> 0 \<le> crc16_bits n crc \<and> crc16_bits n crc < 65536"
  by (induction n arbitrary: crc) (auto simp: and_mask16)

lemma crc16_loop_range:
  "0 \<le> crc \<and> crc < 65536 \<Longrightarrow> 0 \<le> crc16_loop bs crc \<and> crc16_loop bs crc < 65536"
  by (induction bs arbitrary: crc) (auto simp: crc16_bits_range)

lemma crc16_range: "0 \<le> crc16 bs \<and> crc16 bs < 65536"
  by (simp add: crc16_def crc16_loop_range)

lemma slot_mod: "slot bs = crc16 bs mod 16384"
  by (simp add: slot_def and_mask14)

lemma slot_range_bounds: "0 \<le> slot bs" "slot bs < NUM_SLOTS"
  by (simp_all add: slot_mod NUM_SLOTS_def)


section \<open>The floor partition\<close>

definition bnd :: "int \<Rightarrow> nat \<Rightarrow> int" where
  "bnd n i = (int i * NUM_SLOTS) div n"

lemma slot_range_bnd: "slot_range (int i) n = (bnd n i, bnd n (Suc i))"
  by (simp add: slot_range_def bnd_def add.commute)

interpretation sp: interval_partition "bnd (int n)" n for n
proof
  fix i j assume "i \<le> j" "j \<le> n"
  then show "bnd (int n) i \<le> bnd (int n) j"
    by (cases "n = 0") (auto simp: bnd_def NUM_SLOTS_def intro!: zdiv_mono1)
qed

lemma bnd_0 [simp]: "bnd n 0 = 0"
  by (simp add: bnd_def)

lemma bnd_last: "0 < n \<Longrightarrow> bnd n (nat n) = NUM_SLOTS"
  by (simp add: bnd_def)

lemma upto_int: "[0..n - 1] = map int [0..<nat n]"
  by (rule nth_equalityI) auto


section \<open>What the token search computes\<close>

text \<open>Draw \<open>j\<close> (the decimal digits of \<open>j\<close>) is acceptable for bucket \<open>i\<close>.\<close>

definition fits :: "int \<Rightarrow> nat \<Rightarrow> int \<Rightarrow> bool" where
  "fits n i j \<longleftrightarrow>
     (let s = slot (encode (py_str j)) in
      bnd n i \<le> s \<and> s < bnd n (Suc i) \<and> (is_modulo_safe n \<longrightarrow> s mod n = int i))"

definition first_fit :: "int \<Rightarrow> nat \<Rightarrow> int \<Rightarrow> bool" where
  "first_fit n i j \<longleftrightarrow> 0 \<le> j \<and> fits n i j \<and> (\<forall>j'. 0 \<le> j' \<and> j' < j \<longrightarrow> \<not> fits n i j')"

lemma first_fit_exists: "0 \<le> j \<Longrightarrow> fits n i j \<Longrightarrow> \<exists>j0. j0 \<le> j \<and> first_fit n i j0"
proof (induction "nat j" arbitrary: j rule: less_induct)
  case less
  show ?case
  proof (cases "\<exists>j'. 0 \<le> j' \<and> j' < j \<and> fits n i j'")
    case True
    then obtain j' where "0 \<le> j'" "j' < j" "fits n i j'" by blast
    then have "\<exists>j0\<le>j'. first_fit n i j0" by (intro less.hyps) auto
    with \<open>j' < j\<close> show ?thesis by (meson less_imp_le order_trans)
  next
    case False
    with less.prems show ?thesis by (intro exI[of _ j]) (auto simp: first_fit_def)
  qed
qed

lemma first_fit_unique: "first_fit n i j \<Longrightarrow> first_fit n i j' \<Longrightarrow> j = j'"
  unfolding first_fit_def by (meson linorder_neqE)

definition slot_bucket :: "int \<Rightarrow> int \<Rightarrow> nat" where
  "slot_bucket n s = bisect_right (map (bnd n) [0..<nat n]) s - 1"

lemma slot_bucket_range:
  assumes "0 < n" "0 \<le> s" "s < NUM_SLOTS"
  shows "slot_bucket n s < nat n \<and> bnd n (slot_bucket n s) \<le> s
    \<and> s < bnd n (Suc (slot_bucket n s))"
proof -
  have n: "n = int (nat n)" using assms(1) by simp
  obtain k where k: "k < nat n" "bnd n k \<le> s" "s < bnd n (Suc k)"
    using sp.covers[of "nat n" s] assms bnd_last[OF assms(1)] n by auto
  then have "bisect_right (map (bnd n) [0..<nat n]) s = Suc k"
    using sp.bisect_lower[of k "nat n" s] n by simp
  with k show ?thesis by (simp add: slot_bucket_def)
qed

lemma slot_bucket_unique:
  assumes "0 < n" "i < nat n" "bnd n i \<le> s" "s < bnd n (Suc i)"
  shows "slot_bucket n s = i"
  using sp.bisect_lower[of i "nat n" s] assms by (simp add: slot_bucket_def)

lemma fits_iff:
  assumes "0 < n" "i < nat n"
  shows "fits n i j \<longleftrightarrow>
     i = slot_bucket n (slot (encode (py_str j))) \<and>
     (is_modulo_safe n \<longrightarrow> slot (encode (py_str j)) mod n = int i)"
  using slot_bucket_range[OF assms(1) slot_range_bounds, of "encode (py_str j)"]
    slot_bucket_unique[OF assms]
  by (auto simp: fits_def Let_def)

definition entry_ok :: "int \<Rightarrow> int \<Rightarrow> nat \<Rightarrow> string option \<Rightarrow> int option \<Rightarrow> bool" where
  "entry_ok n k i tok sl \<longleftrightarrow>
     (case tok of
        None \<Rightarrow> \<forall>j. 0 \<le> j \<and> j < k \<longrightarrow> \<not> fits n i j
      | Some t \<Rightarrow> \<exists>j<k. first_fit n i j \<and> t = py_str j \<and> sl = Some (slot (encode t)))"

definition loop_inv :: "int \<Rightarrow> string option list \<Rightarrow> int option list \<Rightarrow> int \<Rightarrow> int \<Rightarrow> bool" where
  "loop_inv n toks sls filled k \<longleftrightarrow>
     length toks = nat n \<and> length sls = nat n \<and> 0 \<le> k \<and>
     filled = int (card {i. i < nat n \<and> toks ! i \<noteq> None}) \<and>
     (\<forall>i<nat n. entry_ok n k i (toks ! i) (sls ! i))"

lemma loop_inv_start: "loop_inv n (replicate (nat n) None) (replicate (nat n) None) 0 0"
  by (auto simp: loop_inv_def entry_ok_def)

lemma entry_ok_step:
  assumes "entry_ok n k i tok sl" "tok = None \<Longrightarrow> \<not> fits n i k"
  shows "entry_ok n (k + 1) i tok sl"
proof (cases tok)
  case None
  have "\<not> fits n i j" if "0 \<le> j" "j < k + 1" for j
    using assms None that by (cases "j = k") (auto simp: entry_ok_def)
  with None show ?thesis by (simp add: entry_ok_def)
next
  case (Some t)
  with assms(1) obtain j where
    "j < k" "first_fit n i j" "t = py_str j" "sl = Some (slot (encode t))"
    by (auto simp: entry_ok_def)
  with Some show ?thesis by (auto simp: entry_ok_def intro!: exI[of _ j])
qed

lemma loop_inv_skip:
  assumes "loop_inv n toks sls filled k"
    and "\<And>i. i < nat n \<Longrightarrow> toks ! i = None \<Longrightarrow> \<not> fits n i k"
  shows "loop_inv n toks sls filled (k + 1)"
  using assms entry_ok_step by (simp add: loop_inv_def)

lemma loop_inv_take:
  assumes inv: "loop_inv n toks sls filled k"
    and b: "b < nat n" "toks ! b = None" "fits n b k"
    and other: "\<And>i. i < nat n \<Longrightarrow> i \<noteq> b \<Longrightarrow> \<not> fits n i k"
  shows "loop_inv n (toks[b := Some (py_str k)]) (sls[b := Some (slot (encode (py_str k)))])
           (filled + 1) (k + 1)"
proof -
  let ?A = "{i. i < nat n \<and> toks ! i \<noteq> None}"
  let ?T = "toks[b := Some (py_str k)]" and ?S = "sls[b := Some (slot (encode (py_str k)))]"
  have len: "length toks = nat n" "length sls = nat n" "0 \<le> k" and f: "filled = int (card ?A)"
    and ent: "\<And>i. i < nat n \<Longrightarrow> entry_ok n k i (toks ! i) (sls ! i)"
    using inv by (auto simp: loop_inv_def)
  have "{i. i < nat n \<and> ?T ! i \<noteq> None} = insert b ?A"
    using b(1) len by (auto simp: nth_list_update)
  moreover have "b \<notin> ?A" "finite ?A" using b(2) by auto
  ultimately have card: "card {i. i < nat n \<and> ?T ! i \<noteq> None} = card ?A + 1"
    by simp
  have "first_fit n b k"
    using ent[OF b(1)] b len(3) by (simp add: entry_ok_def first_fit_def)
  then have "entry_ok n (k + 1) b (?T ! b) (?S ! b)"
    using b(1) len by (auto simp: entry_ok_def intro!: exI[of _ k])
  moreover have "entry_ok n (k + 1) i (?T ! i) (?S ! i)" if "i < nat n" "i \<noteq> b" for i
    using entry_ok_step[OF ent[OF that(1)]] other[OF that] that by simp
  ultimately have "entry_ok n (k + 1) i (?T ! i) (?S ! i)" if "i < nat n" for i
    using that by (cases "i = b") auto
  then show ?thesis
    unfolding loop_inv_def card using len f by simp
qed


definition loop_post ::
  "int \<Rightarrow> int \<Rightarrow> (string option list \<times> int option list) result \<Rightarrow> bool" where
  "loop_post n cap r \<longleftrightarrow>
     (case r of
        Inl e \<Rightarrow> e = RuntimeError ''compute_bucket_table''
          \<and> (\<exists>i<nat n. \<forall>j. 0 \<le> j \<and> j \<le> cap \<longrightarrow> \<not> fits n i j)
      | Inr (T, S) \<Rightarrow> length T = nat n \<and> length S = nat n
          \<and> (\<forall>i<nat n. \<exists>j\<le>cap. first_fit n i j \<and> T ! i = Some (py_str j)
               \<and> S ! i = Some (slot (encode (py_str j)))))"

lemma loop_post_cap:
  assumes "loop_inv n toks sls filled k" "filled < n" "cap < k"
  shows "loop_post n cap (Inl (RuntimeError ''compute_bucket_table''))"
proof -
  let ?A = "{i. i < nat n \<and> toks ! i \<noteq> None}"
  have "card ?A < nat n" using assms(1,2) by (simp add: loop_inv_def)
  then have "card ?A \<noteq> card {..<nat n}" by simp
  then have "\<not> {..<nat n} \<subseteq> ?A" by (metis (lifting) mem_Collect_eq lessThan_iff subsetI subset_antisym)
  then obtain i where "i < nat n" "toks ! i = None" by blast
  moreover have "entry_ok n k i (toks ! i) (sls ! i)"
    using assms(1) \<open>i < nat n\<close> by (simp add: loop_inv_def)
  ultimately show ?thesis
    using assms(3) by (auto simp: loop_post_def entry_ok_def)
qed

lemma loop_post_done:
  assumes "loop_inv n toks sls filled k" "\<not> filled < n" "k \<le> cap + 1"
  shows "loop_post n cap (Inr (toks, sls))"
proof -
  let ?A = "{i. i < nat n \<and> toks ! i \<noteq> None}"
  have "nat n \<le> card ?A" using assms(1,2) by (simp add: loop_inv_def)
  then have "?A = {..<nat n}" using card_seteq[of "{..<nat n}" ?A] by auto
  then have some: "toks ! i \<noteq> None" if "i < nat n" for i using that by auto
  have "\<exists>j\<le>cap. first_fit n i j \<and> toks ! i = Some (py_str j)
      \<and> sls ! i = Some (slot (encode (py_str j)))" if i: "i < nat n" for i
  proof -
    have "entry_ok n k i (toks ! i) (sls ! i)" using assms(1) i by (simp add: loop_inv_def)
    with some[OF i] obtain j where "j < k" "first_fit n i j" "toks ! i = Some (py_str j)"
      "sls ! i = Some (slot (encode (py_str j)))" by (auto simp: entry_ok_def)
    with assms(3) show ?thesis by (intro exI[of _ j]) auto
  qed
  then show ?thesis using assms(1) by (simp add: loop_post_def loop_inv_def)
qed

lemma table_loop_post:
  assumes "0 < n" "starts = map (bnd n) [0..<nat n]" "safe = is_modulo_safe n"
    "loop_inv n toks sls filled k" "k \<le> cap + 1"
  shows "loop_post n cap (table_loop n starts safe cap toks sls filled k)"
  using assms
proof (induction n starts safe cap toks sls filled k rule: table_loop.induct)
  case (1 n starts safe cap toks sls filled k)
  let ?s = "slot (encode (py_str k))"
  let ?b = "bisect_right starts ?s - 1"
  have b: "?b = slot_bucket n ?s" using "1.prems"(2) by (simp add: slot_bucket_def)
  have bn: "?b < nat n"
    using slot_bucket_range[OF "1.prems"(1) slot_range_bounds] b by simp
  have fit: "fits n i k \<longleftrightarrow> i = ?b \<and> (safe \<longrightarrow> ?s mod n = int i)" if "i < nat n" for i
    using fits_iff[OF "1.prems"(1) that] b "1.prems"(3) by simp
  show ?case
  proof (cases "filled < n")
    case False
    then have "table_loop n starts safe cap toks sls filled k = Inr (toks, sls)"
      by (subst table_loop.simps) simp
    with loop_post_done[OF "1.prems"(4) False "1.prems"(5)] show ?thesis by simp
  next
    case more: True
    show ?thesis
    proof (cases "k > cap")
      case True
      with more have "table_loop n starts safe cap toks sls filled k
          = Inl (RuntimeError ''compute_bucket_table'')"
        by (subst table_loop.simps) simp
      with loop_post_cap[OF "1.prems"(4) more True] show ?thesis by simp
    next
      case within: False
      then have k1: "k + 1 \<le> cap + 1" by simp
      show ?thesis
      proof (cases "toks ! ?b = None \<and> (\<not> safe \<or> ?s mod n = int ?b)")
        case True
        have e: "table_loop n starts safe cap toks sls filled k =
            table_loop n starts safe cap (toks[?b := Some (py_str k)]) (sls[?b := Some ?s])
              (filled + 1) (k + 1)"
          using more within True by (subst table_loop.simps) (simp add: Let_def)
        have "loop_inv n (toks[?b := Some (py_str k)]) (sls[?b := Some ?s]) (filled + 1) (k + 1)"
          by (rule loop_inv_take[OF "1.prems"(4) bn]) (use True fit bn in auto)
        then show ?thesis unfolding e
          by (rule "1.IH"(1)[OF more within refl refl refl True "1.prems"(1-3) _ k1])
      next
        case False
        have e: "table_loop n starts safe cap toks sls filled k =
            table_loop n starts safe cap toks sls filled (k + 1)"
          using more within False by (subst table_loop.simps) (auto simp: Let_def)
        have "loop_inv n toks sls filled (k + 1)"
          by (rule loop_inv_skip[OF "1.prems"(4)]) (use False fit in auto)
        then show ?thesis unfolding e
          by (rule "1.IH"(2)[OF more within refl refl refl False "1.prems"(1-3) _ k1])
      qed
    qed
  qed
qed


definition table_wf :: "int \<Rightarrow> bucket_table \<Rightarrow> bool" where
  "table_wf n t \<longleftrightarrow>
     length (tokens t) = nat n \<and> length (slots t) = nat n \<and> modulo_safe t = is_modulo_safe n \<and>
     (\<forall>i<nat n. \<exists>j\<le>iteration_cap n. first_fit n i j \<and> tokens t ! i = py_str j
        \<and> slots t ! i = slot (encode (tokens t ! i)))"

lemma iteration_cap_pos: "1 \<le> n \<Longrightarrow> 0 \<le> iteration_cap n"
  by (auto simp: iteration_cap_def ceil_log_def)

lemma table_starts: "map (\<lambda>i. fst (slot_range i n)) [0..n - 1] = map (bnd n) [0..<nat n]"
  by (simp add: upto_int slot_range_bnd)

lemma compute_bucket_table_post:
  assumes "1 \<le> n" "n \<le> 16384"
  shows "case compute_bucket_table n of
      Inl e \<Rightarrow> e = RuntimeError ''compute_bucket_table''
        \<and> (\<exists>i<nat n. \<forall>j. 0 \<le> j \<and> j \<le> iteration_cap n \<longrightarrow> \<not> fits n i j)
    | Inr t \<Rightarrow> table_wf n t"
proof -
  let ?none = "replicate (nat n) None"
  let ?r = "table_loop n (map (bnd n) [0..<nat n]) (is_modulo_safe n) (iteration_cap n)
      (replicate (nat n) None) (replicate (nat n) None) 0 0"
  have "loop_post n (iteration_cap n) ?r"
    by (rule table_loop_post[OF _ refl refl loop_inv_start])
      (use assms iteration_cap_pos[of n] in auto)
  moreover have "compute_bucket_table n = bindR ?r
      (\<lambda>(toks, sls). Inr \<lparr>tokens = map the toks, slots = map the sls,
          modulo_safe = is_modulo_safe n\<rparr>)"
    using assms by (simp add: compute_bucket_table_def table_starts Let_def)
  ultimately show ?thesis
    by (cases ?r) (fastforce simp: loop_post_def table_wf_def)+
qed

lemma compute_bucket_table_ValueError:
  "\<not> (1 \<le> n \<and> n \<le> 16384) \<Longrightarrow> compute_bucket_table n = Inl (ValueError ''num_buckets'')"
  by (auto simp: compute_bucket_table_def)

lemma compute_bucket_table_Inr:
  assumes "compute_bucket_table n = Inr t"
  shows "1 \<le> n" "n \<le> 16384" "table_wf n t"
proof -
  show n: "1 \<le> n" "n \<le> 16384"
    using assms compute_bucket_table_ValueError[of n] by (cases "1 \<le> n \<and> n \<le> 16384"; auto)+
  show "table_wf n t" using compute_bucket_table_post[OF n] assms by simp
qed

lemma table_wf_first_fit:
  assumes "table_wf n t" "i < nat n"
  obtains j where "first_fit n i j" "j \<le> iteration_cap n" "tokens t ! i = py_str j"
    "slots t ! i = slot (encode (py_str j))"
  using assms unfolding table_wf_def by metis

lemma first_fit_slot:
  assumes "first_fit n i j"
  shows "bnd n i \<le> slot (encode (py_str j))" "slot (encode (py_str j)) < bnd n (Suc i)"
    "is_modulo_safe n \<Longrightarrow> slot (encode (py_str j)) mod n = int i"
  using assms by (auto simp: first_fit_def fits_def Let_def)

lemma table_wf_distinct:
  assumes "table_wf n t"
  shows "distinct (tokens t)"
proof (unfold distinct_conv_nth, intro allI impI)
  fix i k assume ik: "i < length (tokens t)" "k < length (tokens t)" "i \<noteq> k"
  then have lt: "i < nat n" "k < nat n" using assms by (auto simp: table_wf_def)
  obtain a where a: "first_fit n i a" "tokens t ! i = py_str a"
    using table_wf_first_fit[OF assms lt(1)] by blast
  obtain b where b: "first_fit n k b" "tokens t ! k = py_str b"
    using table_wf_first_fit[OF assms lt(2)] by blast
  show "tokens t ! i \<noteq> tokens t ! k"
  proof
    assume "tokens t ! i = tokens t ! k"
    then have "a = b" using a b by simp
    then have "i = k"
      using slot_bucket_unique[OF _ lt(1)] slot_bucket_unique[OF _ lt(2)] lt(1)
        first_fit_slot(1,2)[OF a(1)] first_fit_slot(1,2)[OF b(1)] by fastforce
    with ik show False by simp
  qed
qed


section \<open>The modulo policy\<close>

lemma modulo_match_iff:
  assumes "0 \<le> i" "i < n"
  shows "bucket_has_modulo_match lo hi n i \<longleftrightarrow> (\<exists>s. lo \<le> s \<and> s < hi \<and> s mod n = i)"
proof
  assume "bucket_has_modulo_match lo hi n i"
  moreover have "(lo + (i - lo) mod n) mod n = i"
    using assms by (simp add: mod_add_right_eq)
  moreover have "0 \<le> (i - lo) mod n" using assms by simp
  ultimately show "\<exists>s. lo \<le> s \<and> s < hi \<and> s mod n = i"
    by (intro exI[of _ "lo + (i - lo) mod n"]) (simp add: bucket_has_modulo_match_def Let_def)
next
  assume "\<exists>s. lo \<le> s \<and> s < hi \<and> s mod n = i"
  then obtain s where s: "lo \<le> s" "s < hi" "s mod n = i" by blast
  have "(i - lo) mod n = (s - lo) mod n" using s(3) by (metis mod_diff_left_eq)
  also have "\<dots> \<le> s - lo" using s(1) assms by (simp add: zmod_le_nonneg_dividend)
  finally show "bucket_has_modulo_match lo hi n i"
    using s(2) by (simp add: bucket_has_modulo_match_def Let_def)
qed

lemma is_modulo_safe_iff:
  "is_modulo_safe n \<longleftrightarrow>
     (\<forall>i<nat n. \<exists>s. bnd n i \<le> s \<and> s < bnd n (Suc i) \<and> s mod n = int i)"
  by (auto simp: is_modulo_safe_def upto_int list_all_iff slot_range_bnd modulo_match_iff)

lemma bnd_width: "0 < n \<Longrightarrow> bnd n i + 16384 div n \<le> bnd n (Suc i)
    \<and> bnd n (Suc i) \<le> bnd n i + 16384 div n + 1"
proof -
  assume n: "0 < n"
  have e: "int (Suc i) * 16384 = int i * 16384 + 16384" by simp
  have "(a + b) div n = a div n + b div n + (a mod n + b mod n) div n" for a b :: int
    by (rule div_add1_eq)
  moreover have "0 \<le> (a mod n + b mod n) div n \<and> (a mod n + b mod n) div n \<le> 1" for a b :: int
  proof -
    have "0 \<le> a mod n" "0 \<le> b mod n" using n by auto
    moreover have "a mod n + b mod n < 2 * n"
      using pos_mod_bound[OF n, of a] pos_mod_bound[OF n, of b] by linarith
    ultimately have m: "0 \<le> a mod n" "0 \<le> b mod n" "a mod n + b mod n < 2 * n" by auto
    have "(a mod n + b mod n) div n < 2" using n m by (simp add: int_div_less_iff)
    then show ?thesis using n m by (simp add: pos_imp_zdiv_nonneg_iff)
  qed
  ultimately show ?thesis unfolding bnd_def NUM_SLOTS_def e by (smt (verit))
qed


lemma modulo_safe_small:
  assumes "1 \<le> n" "n \<le> 128"
  shows "is_modulo_safe n"
proof -
  have w: "n \<le> 16384 div n"
  proof -
    have "128 \<le> 16384 div n" using assms zdiv_mono2[of 16384 n 128] by simp
    then show ?thesis using assms by simp
  qed
  have "\<exists>s. bnd n i \<le> s \<and> s < bnd n (Suc i) \<and> s mod n = int i" if "i < nat n" for i
  proof -
    let ?s = "bnd n i + (int i - bnd n i) mod n"
    have "?s < bnd n i + n" "bnd n i \<le> ?s" using assms by auto
    moreover have "?s mod n = int i" using that by (simp add: mod_add_right_eq)
    moreover have "bnd n i + n \<le> bnd n (Suc i)" using bnd_width[of n i] w assms by simp
    ultimately show ?thesis by (intro exI[of _ ?s]) simp
  qed
  then show ?thesis by (simp add: is_modulo_safe_iff)
qed

lemma modulo_safe_129: "is_modulo_safe 129"
  by code_simp

lemma modulo_safe_top:
  assumes "n = 16383 \<or> n = 16384"
  shows "is_modulo_safe n"
proof -
  have "bnd n i \<le> int i \<and> int i < bnd n (Suc i) \<and> int i mod n = int i" if "i < nat n" for i
    using assms that by (auto simp: bnd_def NUM_SLOTS_def int_div_less_iff int_le_div_iff
        simp flip: not_less) 
  then show ?thesis unfolding is_modulo_safe_iff by blast
qed

lemma not_modulo_safeI:
  assumes "i < nat n" "int i < bnd n i" "bnd n (Suc i) \<le> int i + n"
  shows "\<not> is_modulo_safe n"
proof -
  have "s mod n \<noteq> int i" if "bnd n i \<le> s" "s < bnd n (Suc i)" for s
  proof
    assume s: "s mod n = int i"
    have "0 < s - int i" "s - int i < n" using assms that by auto
    then have "(s - int i) mod n = s - int i" by simp
    moreover have "(s - int i) mod n = 0"
      using s assms(1) by (metis mod_eq_dvd_iff mod_mod_trivial dvd_imp_mod_0)
    ultimately show False using \<open>0 < s - int i\<close> by simp
  qed
  with assms(1) show ?thesis unfolding is_modulo_safe_iff by blast
qed

lemma modulo_unsafe_middle:
  assumes "181 \<le> n" "n \<le> 8192"
  shows "\<not> is_modulo_safe n"
proof (rule not_modulo_safeI[of 1])
  show "1 < nat n" using assms by simp
  show "int 1 < bnd n 1" using assms int_le_div_iff[of n 2 16384] by (simp add: bnd_def NUM_SLOTS_def)
  have "183 * 181 \<le> (n + 2) * n" using assms by (intro mult_mono) auto
  then have "32768 div n < n + 2" using assms by (simp add: int_div_less_iff)
  then show "bnd n (Suc 1) \<le> int 1 + n" by (simp add: bnd_def NUM_SLOTS_def)
qed

lemma modulo_unsafe_large:
  assumes "8193 \<le> n" "n \<le> 16382"
  shows "\<not> is_modulo_safe n"
proof -
  define d where "d = 16384 - n"
  define i where "i = n div d + 1"
  have d: "2 \<le> d" "d \<le> 8191" using assms by (auto simp: d_def)
  have i0: "1 \<le> i" using assms d by (simp add: i_def pos_imp_zdiv_nonneg_iff)
  have id: "n < i * d" "(i - 1) * d \<le> n"
    using int_div_less_iff[of d n i] int_le_div_iff[of d "i - 1" n] d by (auto simp: i_def)
  have "n div d \<le> n div 2" using d assms zdiv_mono2[of n 2 d] by simp
  then have ilt: "i < n" using assms by (simp add: i_def)
  have ii: "int (nat i) = i" using i0 by simp
  have e1: "i * 16384 = i * n + i * d" by (simp add: d_def algebra_simps)
  have e2: "(i + 1) * 16384 = (i + 1) * n + (i - 1) * d + 2 * d" by (simp add: d_def algebra_simps)
  show ?thesis
  proof (rule not_modulo_safeI[of "nat i"])
    show "nat i < nat n" using ilt i0 by simp
    have "(i + 1) * n \<le> i * 16384" using id(1) e1 by (simp add: algebra_simps)
    then show "int (nat i) < bnd n (nat i)"
      unfolding bnd_def NUM_SLOTS_def ii using assms int_le_div_iff[of n "i + 1" "i * 16384"] by simp
    have "(i + 1) * 16384 < (i + 4) * n"
      using e2 id(2) d assms by (simp add: algebra_simps)
    then have "((i + 1) * 16384) div n < i + 4" using assms by (simp add: int_div_less_iff)
    then show "bnd n (Suc (nat i)) \<le> int (nat i) + n"
      unfolding bnd_def NUM_SLOTS_def using ii assms by (simp add: add.commute)
  qed
qed

lemma modulo_unsafe_130_180:
  "list_all (\<lambda>n. \<not> is_modulo_safe n) [130..180]"
  by code_simp


section \<open>CRC16 is linear\<close>

definition crc16_step :: "int \<Rightarrow> int" where
  "crc16_step crc =
     (if crc AND 0x8000 \<noteq> 0 then (push_bit 1 crc XOR 0x1021) AND 0xFFFF
      else push_bit 1 crc AND 0xFFFF)"

lemma crc16_bits_step: "crc16_bits n crc = (crc16_step ^^ n) crc"
  by (induction n arbitrary: crc) (auto simp: crc16_step_def funpow_swap1 simp del: push_bit_eq_mult)

lemma and_8000: "crc AND 0x8000 \<noteq> 0 \<longleftrightarrow> bit crc 15" for crc :: int
  using and_exp_eq_0_iff_not_bit[of crc 15] by simp

lemma crc16_step_alt:
  "crc16_step x = take_bit 16 (push_bit 1 x) XOR (if bit x 15 then 0x1021 else 0)"
proof -
  have m: "y AND 0xFFFF = take_bit 16 y" for y :: int
    by (simp add: and_mask16 take_bit_eq_mod)
  have "take_bit 16 (0x1021 :: int) = 0x1021" by (simp add: take_bit_eq_mod)
  then show ?thesis
    unfolding crc16_step_def and_8000 m by (simp add: take_bit_xor del: push_bit_eq_mult)
qed

lemma crc16_step_xor: "crc16_step (x XOR y) = crc16_step x XOR crc16_step y"
  unfolding crc16_step_alt push_bit_xor take_bit_xor bit_xor_iff
  by (auto simp: ac_simps xor.left_commute)

lemma crc16_bits_xor: "crc16_bits n (x XOR y) = crc16_bits n x XOR crc16_bits n y"
  unfolding crc16_bits_step by (induction n) (simp_all add: crc16_step_xor)

lemma crc16_loop_xor:
  "length a = length b \<Longrightarrow>
     crc16_loop (map2 (XOR) a b) (x XOR y) = crc16_loop a x XOR crc16_loop b y"
proof (induction a b arbitrary: x y rule: list_induct2)
  case Nil
  then show ?case by simp
next
  case (Cons p ps q qs)
  have "(x XOR y) XOR push_bit 8 (p XOR q) = (x XOR push_bit 8 p) XOR (y XOR push_bit 8 q)"
    by (simp add: push_bit_xor ac_simps xor.left_commute del: push_bit_eq_mult)
  with Cons.IH show ?case
    by (simp add: crc16_bits_xor del: push_bit_eq_mult)
qed


section \<open>Hash tags\<close>

lemma find_from_0_append:
  "c \<notin> set p \<Longrightarrow> find_from c (p @ c # r) 0 = Some (length p)"
  by (induction p) auto

lemma find_from_0_None: "c \<notin> set p \<Longrightarrow> find_from c p 0 = None"
  by (induction p) auto

lemma find_from_skip: "find_from c (p @ r) (length p) = map_option ((+) (length p)) (find_from c r 0)"
proof (induction p)
  case Nil
  show ?case by (simp add: option.map_ident)
next
  case (Cons x p)
  then show ?case by (cases "find_from c r 0") auto
qed

lemma key_slot_tagged:
  assumes "CHR ''{'' \<notin> set pre" "CHR ''}'' \<notin> set tag" "tag \<noteq> []"
  shows "key_slot (pre @ ''{'' @ tag @ ''}'' @ post) = slot (encode tag)"
proof -
  let ?k = "pre @ ''{'' @ tag @ ''}'' @ post"
  have s: "find_from (CHR ''{'') ?k 0 = Some (length pre)"
    using find_from_0_append[OF assms(1)] by simp
  have "?k = (pre @ ''{'') @ (tag @ CHR ''}'' # post)" by simp
  then have "find_from (CHR ''}'') ?k (length pre + 1) = Some (length pre + 1 + length tag)"
    using find_from_skip[of "CHR ''}''" "pre @ ''{''" "tag @ CHR ''}'' # post"]
      find_from_0_append[OF assms(2)] by simp
  moreover have "slice ?k (length pre + 1) (length pre + 1 + length tag) = tag"
    by (simp add: slice_def)
  ultimately show ?thesis using s assms(3) by (simp add: key_slot_def)
qed

lemma key_slot_untagged: "CHR ''{'' \<notin> set key \<Longrightarrow> key_slot key = slot (encode key)"
  by (simp add: key_slot_def find_from_0_None)


lemma table_4:
  "compute_bucket_table 4 =
     Inr \<lparr>tokens = [''3'', ''2'', ''1'', ''0''], slots = [1584, 5649, 9842, 13907],
          modulo_safe = True\<rparr>"
  by code_simp


section \<open>Properties\<close>

text \<open>
  The checksum is CRC-16/XMODEM: it gives the published check value on "123456789", it
  is linear over XOR on messages of equal length (initial value 0, no final XOR, no
  reflection of either), and it always fits 16 bits, so every slot is one of the 16384.
\<close>

theorem crc16_linear:
  assumes "length a = length b"
  shows "crc16 (map2 (XOR) a b) = crc16 a XOR crc16 b
    \<and> crc16 (encode ''123456789'') = 0x31C3
    \<and> 0 \<le> crc16 a \<and> crc16 a < 2 ^ 16 \<and> 0 \<le> slot a \<and> slot a < NUM_SLOTS"
proof -
  have "crc16 (map2 (XOR) a b) = crc16 a XOR crc16 b"
    using crc16_loop_xor[OF assms, of 0 0] by (simp add: crc16_def)
  moreover have "crc16 (encode ''123456789'') = 0x31C3" by code_simp
  ultimately show ?thesis using crc16_range[of a] slot_range_bounds[of a] by simp
qed

theorem crc16_linear_witness:
  "length [49, 50::int] = length [3, 4::int] \<and> crc16 [50, 54] = crc16 [49, 50] XOR crc16 [3, 4]"
proof -
  have l: "length [49, 50::int] = length [3, 4::int]" by simp
  have "map2 (XOR) [49, 50] [3, 4::int] = [50, 54]" by code_simp
  then show ?thesis using crc16_linear[OF l] by simp
qed

text \<open>
  The floor boundaries partition the slot space: for every legal bucket count each slot
  lies in exactly one bucket's range, which is the one the bisection over the range starts
  finds; every bucket owns at least one slot and widths differ by at most one.
\<close>

theorem slot_ranges_partition:
  assumes "1 \<le> n" "n \<le> 16384" "0 \<le> s" "s < NUM_SLOTS"
  shows "(\<exists>!i. i < nat n \<and> fst (slot_range (int i) n) \<le> s \<and> s < snd (slot_range (int i) n))
    \<and> (let b = bisect_right (map (\<lambda>i. fst (slot_range i n)) [0..n - 1]) s - 1 in
        b < nat n \<and> fst (slot_range (int b) n) \<le> s \<and> s < snd (slot_range (int b) n))
    \<and> (\<forall>i<nat n. let (lo, hi) = slot_range (int i) n in
          lo < hi \<and> 16384 div n \<le> hi - lo \<and> hi - lo \<le> 16384 div n + 1)"
proof -
  have n: "0 < n" using assms by simp
  have w: "1 \<le> 16384 div n" using assms int_le_div_iff[OF n, of 1 16384] by simp
  let ?b = "slot_bucket n s"
  have r: "?b < nat n" "bnd n ?b \<le> s" "s < bnd n (Suc ?b)"
    using slot_bucket_range[OF n assms(3,4)] by auto
  have "\<exists>!i. i < nat n \<and> bnd n i \<le> s \<and> s < bnd n (Suc i)"
  proof (rule ex1I[of _ ?b])
    show "?b < nat n \<and> bnd n ?b \<le> s \<and> s < bnd n (Suc ?b)" using r by simp
    show "i = ?b" if "i < nat n \<and> bnd n i \<le> s \<and> s < bnd n (Suc i)" for i
      using slot_bucket_unique[OF n, of i s] that by simp
  qed
  moreover have "bnd n i < bnd n (Suc i) \<and> 16384 div n \<le> bnd n (Suc i) - bnd n i
      \<and> bnd n (Suc i) - bnd n i \<le> 16384 div n + 1" for i
    using bnd_width[OF n, of i] w by linarith
  ultimately show ?thesis
    using r unfolding table_starts slot_range_bnd slot_bucket_def[symmetric] Let_def
    by (simp only: fst_conv snd_conv prod.case simp_thms)
qed

theorem slot_ranges_partition_witness:
  "\<exists>!i. i < nat 7 \<and> fst (slot_range (int i) 7) \<le> 5000 \<and> 5000 < snd (slot_range (int i) 7)"
  using slot_ranges_partition[of 7 5000] by (simp add: NUM_SLOTS_def)

text \<open>
  The documented classification of the modulo policy, over the whole legal range: every
  bucket's contiguous range holds a slot with the bucket's own residue exactly for
  1 to 129 buckets and for 16383 and 16384.
\<close>

theorem is_modulo_safe_classification:
  assumes "1 \<le> n" "n \<le> 16384"
  shows "is_modulo_safe n \<longleftrightarrow> n \<le> 129 \<or> n = 16383 \<or> n = 16384"
proof -
  consider "n \<le> 128" | "n = 129" | "130 \<le> n \<and> n \<le> 180" | "181 \<le> n \<and> n \<le> 8192"
    | "8193 \<le> n \<and> n \<le> 16382" | "n = 16383 \<or> n = 16384"
    using assms by linarith
  then show ?thesis
  proof cases
    case 3
    then have "n \<in> set [130..180]" by (simp only: set_upto atLeastAtMost_iff)
    then have "\<not> is_modulo_safe n"
      using modulo_unsafe_130_180 unfolding list_all_iff by blast
    with 3 show ?thesis by auto
  qed (use assms modulo_safe_small modulo_safe_129 modulo_unsafe_middle modulo_unsafe_large
      modulo_safe_top in auto)
qed

theorem is_modulo_safe_classification_witness:
  "is_modulo_safe 129 \<and> \<not> is_modulo_safe 130 \<and> \<not> is_modulo_safe 16382"
  using is_modulo_safe_classification[of 129] is_modulo_safe_classification[of 130]
    is_modulo_safe_classification[of 16382] by simp

text \<open>
  Outcomes of the token search, all of them: a count outside 1 to 16384 raises
  ValueError; otherwise RuntimeError is raised exactly when some bucket accepts none of the
  draws up to the cap; otherwise the table holds, for each bucket, the first draw of the
  counter that the bucket accepts, and the search always ends.
\<close>

theorem compute_bucket_table_outcomes:
  "(compute_bucket_table n = Inl (ValueError ''num_buckets'')) = (n < 1 \<or> 16384 < n)
   \<and> (compute_bucket_table n = Inl (RuntimeError ''compute_bucket_table''))
      = (1 \<le> n \<and> n \<le> 16384 \<and>
         (\<exists>i<nat n. \<not> (\<exists>j. 0 \<le> j \<and> j \<le> iteration_cap n \<and> fits n i j)))
   \<and> (\<exists>t. compute_bucket_table n = Inr t)
      = (1 \<le> n \<and> n \<le> 16384 \<and>
         \<not> (\<exists>i<nat n. \<not> (\<exists>j. 0 \<le> j \<and> j \<le> iteration_cap n \<and> fits n i j)))
   \<and> \<not> (\<exists>t. compute_bucket_table n = Inr t \<and> \<not> table_wf n t)"
proof (cases "1 \<le> n \<and> n \<le> 16384")
  case False
  then show ?thesis by (auto simp: compute_bucket_table_ValueError)
next
  case True
  show ?thesis
  proof (cases "compute_bucket_table n")
    case (Inl e)
    with compute_bucket_table_post[of n] True have
      "e = RuntimeError ''compute_bucket_table''"
      "\<exists>i<nat n. \<forall>j. 0 \<le> j \<and> j \<le> iteration_cap n \<longrightarrow> \<not> fits n i j" by auto
    with Inl True show ?thesis by auto
  next
    case (Inr t)
    with compute_bucket_table_post[of n] True have wf: "table_wf n t" by simp
    have "\<exists>j. 0 \<le> j \<and> j \<le> iteration_cap n \<and> fits n i j" if "i < nat n" for i
      using table_wf_first_fit[OF wf that] unfolding first_fit_def by metis
    with Inr True wf show ?thesis by auto
  qed
qed

text \<open>
  C7: The placement guarantee. In every table the search returns, there is one token per
  bucket, the tokens are distinct, token i hashes to the recorded slot i, that slot lies in
  bucket i's exclusive range, and where the count is modulo safe it also has residue i; the
  accessor returns token i for a legal index and raises IndexError for any other.
\<close>

theorem bucket_table_placement:
  assumes "compute_bucket_table n = Inr t"
  shows "length (tokens t) = nat n \<and> length (slots t) = nat n \<and> distinct (tokens t)
    \<and> (\<forall>i<nat n. slots t ! i = slot (encode (tokens t ! i))
         \<and> fst (slot_range (int i) n) \<le> slots t ! i \<and> slots t ! i < snd (slot_range (int i) n)
         \<and> (modulo_safe t \<longrightarrow> slots t ! i mod n = int i)
         \<and> table_token t (int i) = Inr (tokens t ! i))
    \<and> (\<forall>i. i < 0 \<or> n \<le> i \<longrightarrow> table_token t i = Inl IndexError)"
proof -
  note n = compute_bucket_table_Inr(1)[OF assms] and wf = compute_bucket_table_Inr(3)[OF assms]
  have len: "length (tokens t) = nat n" "length (slots t) = nat n"
    "modulo_safe t = is_modulo_safe n" using wf by (auto simp: table_wf_def)
  have "slots t ! i = slot (encode (tokens t ! i))
     \<and> fst (slot_range (int i) n) \<le> slots t ! i \<and> slots t ! i < snd (slot_range (int i) n)
     \<and> (modulo_safe t \<longrightarrow> slots t ! i mod n = int i)
     \<and> table_token t (int i) = Inr (tokens t ! i)" if i: "i < nat n" for i
  proof -
    obtain j where j: "first_fit n i j" "tokens t ! i = py_str j"
      "slots t ! i = slot (encode (py_str j))"
      using table_wf_first_fit[OF wf i] by blast
    have "table_token t (int i) = Inr (tokens t ! i)"
      using i len(1) n by (simp add: table_token_def zless_nat_eq_int_zless)
    with j first_fit_slot[OF j(1)] len(3) show ?thesis by (simp add: slot_range_bnd)
  qed
  moreover have "table_token t i = Inl IndexError" if "i < 0 \<or> n \<le> i" for i
    using that len n by (auto simp: table_token_def)
  ultimately show ?thesis using len table_wf_distinct[OF wf] by blast
qed

theorem bucket_table_placement_witness:
  "\<exists>t. compute_bucket_table 4 = Inr t \<and> distinct (tokens t)
     \<and> (\<forall>i<4. 4096 * int i \<le> slots t ! i \<and> slots t ! i < 4096 * (int i + 1))"
proof -
  have b: "fst (slot_range (int i) 4) = 4096 * int i"
    "snd (slot_range (int i) 4) = 4096 * (int i + 1)" for i
    by (simp_all add: slot_range_def NUM_SLOTS_def)
  have "nat 4 = 4" by simp
  then show ?thesis using bucket_table_placement[OF table_4] table_4 unfolding b by auto
qed

text \<open>
  Hash tags: a key whose first braces enclose a non-empty tag is placed by that tag
  alone, whatever surrounds it, and a key without an opening brace is placed by its whole
  text.
\<close>

theorem key_slot_hash_tag:
  assumes "CHR ''{'' \<notin> set pre" "CHR ''}'' \<notin> set tag" "tag \<noteq> []"
  shows "key_slot (pre @ ''{'' @ tag @ ''}'' @ post) = slot (encode tag)
    \<and> key_slot pre = slot (encode pre)"
  using key_slot_tagged[OF assms] key_slot_untagged[OF assms(1)] by simp

theorem key_slot_hash_tag_witness:
  "key_slot ''prefix:{user:123}:suffix'' = slot (encode ''user:123'')"
proof -
  have "CHR ''{'' \<notin> set ''prefix:''" "CHR ''}'' \<notin> set ''user:123''" "''user:123'' \<noteq> []"
    by simp_all
  from key_slot_hash_tag[OF this, of "'':suffix''"] show ?thesis by simp
qed

end
