(* ===== verification/Redis_Api.thy ===== *)
theory Redis_Api
  imports Py_Str
begin

text \<open>
  The Redis or Dragonfly server and its client library are not part of the repository: they
  are a parameter of the model. \<open>redis_api\<close> lists the hash commands the router calls on
  a server state \<open>'db\<close>; \<open>redis_laws\<close> states what the code relies on, which is the
  documented behaviour of HSET, HGET, HMGET and HDEL on the fields of a hash. A pipeline
  with \<open>transaction=False\<close> sends its commands in order.

  \<open>mem_api\<close> is a server whose state is the map itself. It shows that the laws can hold,
  and the witnesses evaluate on it.
\<close>

record 'db redis_api =
  hset :: "'db \<Rightarrow> string \<Rightarrow> string \<Rightarrow> string \<Rightarrow> 'db"
  hget :: "'db \<Rightarrow> string \<Rightarrow> string \<Rightarrow> string option"
  hmget :: "'db \<Rightarrow> string \<Rightarrow> string list \<Rightarrow> string option list"
  hdel :: "'db \<Rightarrow> string \<Rightarrow> string \<Rightarrow> 'db"
  hdel_count :: "'db \<Rightarrow> string \<Rightarrow> string \<Rightarrow> int"

definition redis_laws :: "'db redis_api \<Rightarrow> bool" where
  "redis_laws api \<longleftrightarrow>
     (\<forall>db k f v k' f'. hget api (hset api db k f v) k' f'
        = (if k' = k \<and> f' = f then Some v else hget api db k' f')) \<and>
     (\<forall>db k f k' f'. hget api (hdel api db k f) k' f'
        = (if k' = k \<and> f' = f then None else hget api db k' f')) \<and>
     (\<forall>db k f. hdel_count api db k f = (if hget api db k f = None then 0 else 1)) \<and>
     (\<forall>db k fs. hmget api db k fs = map (hget api db k) fs)"

lemma redis_lawsD:
  assumes "redis_laws api"
  shows "hget api (hset api db k f v) k' f'
      = (if k' = k \<and> f' = f then Some v else hget api db k' f')"
    and "hget api (hdel api db k f) k' f'
      = (if k' = k \<and> f' = f then None else hget api db k' f')"
    and "hdel_count api db k f = (if hget api db k f = None then 0 else 1)"
    and "hmget api db k fs = map (hget api db k) fs"
  using assms unfolding redis_laws_def by blast+


section \<open>Pipelines\<close>

datatype pipe_cmd =
    PHset string string string
  | PHdel string string

fun run_cmd :: "'db redis_api \<Rightarrow> 'db \<Rightarrow> pipe_cmd \<Rightarrow> 'db" where
  "run_cmd api db (PHset k f v) = hset api db k f v"
| "run_cmd api db (PHdel k f) = hdel api db k f"

fun cmd_reply :: "'db redis_api \<Rightarrow> 'db \<Rightarrow> pipe_cmd \<Rightarrow> int" where
  "cmd_reply api db (PHset k f v) = (if hget api db k f = None then 1 else 0)"
| "cmd_reply api db (PHdel k f) = hdel_count api db k f"

fun execute_pipe :: "'db redis_api \<Rightarrow> 'db \<Rightarrow> pipe_cmd list \<Rightarrow> 'db \<times> int list" where
  "execute_pipe api db [] = (db, [])"
| "execute_pipe api db (c # cs) =
     (let (db', replies) = execute_pipe api (run_cmd api db c) cs
      in (db', cmd_reply api db c # replies))"

lemma execute_pipe_db: "fst (execute_pipe api db cs) = foldl (run_cmd api) db cs"
  by (induction cs arbitrary: db) (simp_all add: case_prod_unfold Let_def)

lemma execute_pipe_append:
  "fst (execute_pipe api db (cs @ ds)) = fst (execute_pipe api (fst (execute_pipe api db cs)) ds)"
  by (simp add: execute_pipe_db)


section \<open>A server that satisfies the laws\<close>

definition mem_api :: "(string \<Rightarrow> string \<Rightarrow> string option) redis_api" where
  "mem_api =
     \<lparr>hset = (\<lambda>db k f v. db(k := (db k)(f := Some v))),
      hget = (\<lambda>db k f. db k f),
      hmget = (\<lambda>db k fs. map (db k) fs),
      hdel = (\<lambda>db k f. db(k := (db k)(f := None))),
      hdel_count = (\<lambda>db k f. if db k f = None then 0 else 1)\<rparr>"

definition mem_empty :: "string \<Rightarrow> string \<Rightarrow> string option" where
  "mem_empty k f = None"

lemma mem_laws: "redis_laws mem_api"
  by (auto simp: redis_laws_def mem_api_def)

end
