(* ===== verification/Fqdn_Router.thy ===== *)
theory Fqdn_Router
  imports Fqdn_Pattern Fqdn_Slots Redis_Api "HOL-Library.Product_Lexorder"
begin

text \<open>
  \<open>fqdnrules/fqdn_router.py\<close>: the rule store. Physical key texts, the writes (single, bulk,
  delete) as pipelines of hash commands, the Lua script run by EVALSHA, and the lookup that
  groups candidates by tag, runs the script once per grp and keeps the best hit.
  A method that may raise returns a \<open>'a result\<close>; one that writes returns the server
  state after it.
\<close>


section \<open>The Lua script\<close>

text \<open>\<open>string.gmatch(s, "[^,]+")\<close> and the comparison of each piece with "1".\<close>

definition lua_bits :: "string \<Rightarrow> bool list" where
  "lua_bits s = map (\<lambda>b. b = ''1'') (filter (\<lambda>b. b \<noteq> []) (split_on (CHR '','') s))"

text \<open>Lua tables read out of range are nil, which is false in a condition.\<close>

definition lua_get :: "bool list \<Rightarrow> nat \<Rightarrow> bool" where
  "lua_get t i = (1 \<le> i \<and> i \<le> length t \<and> t ! (i - 1))"

definition lua_blocked :: "bool \<Rightarrow> bool \<Rightarrow> string \<Rightarrow> bool" where
  "lua_blocked exact deep v =
     (let scope = take 1 v in
      \<not> exact \<and> ((deep \<and> scope = ''S'') \<or> (\<not> deep \<and> scope = ''M'')))"

fun lua_vals ::
  "bool list \<Rightarrow> bool list \<Rightarrow> bool list \<Rightarrow> nat \<Rightarrow> nat \<Rightarrow> string option list
     \<Rightarrow> (nat \<times> nat \<times> string) option" where
  "lua_vals kmulti kexact fmulti i j [] = None"
| "lua_vals kmulti kexact fmulti i j (v # vs) =
     (case v of
        None \<Rightarrow> lua_vals kmulti kexact fmulti i (j + 1) vs
      | Some s \<Rightarrow>
          let exact = lua_get kexact i \<and> j = 1;
              deep = lua_get kmulti i \<or> lua_get fmulti j
          in if \<not> lua_blocked exact deep s then Some (i, j, drop 1 s)
             else lua_vals kmulti kexact fmulti i (j + 1) vs)"

fun lua_keys ::
  "'db redis_api \<Rightarrow> 'db \<Rightarrow> bool list \<Rightarrow> bool list \<Rightarrow> bool list \<Rightarrow> string list \<Rightarrow> nat
     \<Rightarrow> string list \<Rightarrow> (nat \<times> nat \<times> string) option" where
  "lua_keys api db kmulti kexact fmulti flds i [] = None"
| "lua_keys api db kmulti kexact fmulti flds i (k # ks) =
     (case lua_vals kmulti kexact fmulti i 1 (hmget api db k flds) of
        Some hit \<Rightarrow> Some hit
      | None \<Rightarrow> lua_keys api db kmulti kexact fmulti flds (i + 1) ks)"

definition lua_lookup ::
  "'db redis_api \<Rightarrow> 'db \<Rightarrow> string list \<Rightarrow> string \<Rightarrow> string \<Rightarrow> string \<Rightarrow> string list
     \<Rightarrow> (nat \<times> nat \<times> string) option" where
  "lua_lookup api db KEYS argv1 argv2 argv3 flds =
     lua_keys api db (lua_bits argv1) (lua_bits argv2) (lua_bits argv3) flds 1 KEYS"


section \<open>Rules, matches, the store\<close>

record rule =
  r_fqdn1 :: string
  r_port :: int
  r_fqdn2 :: string
  r_rule_id :: string
  r_scope :: wildcard_scope

record rule_match =
  m_rule_id :: string
  m_fqdn1_pattern :: string
  m_port :: int
  m_fqdn2_pattern :: string
  m_specificity :: "nat \<times> nat"

record rule_store =
  rs_namespace :: string
  rs_num_buckets :: int

definition validate_port :: "int \<Rightarrow> unit result" where
  "validate_port port =
     (if \<not> (0 < port \<and> port < 65536) then Inl (InvalidFqdn (PortOutOfRange port)) else Inr ())"

definition bucketing_meta_key :: "string \<Rightarrow> string" where
  "bucketing_meta_key namespace = ''r:{'' @ namespace @ '':__meta__}:bucketing''"

definition rule_store_init ::
  "'db redis_api \<Rightarrow> 'db \<Rightarrow> string \<Rightarrow> int \<Rightarrow> rule_store result" where
  "rule_store_init api db namespace num_buckets =
     (case hget api db (bucketing_meta_key namespace) ''num_buckets'' of
        None \<Rightarrow> Inr \<lparr>rs_namespace = namespace, rs_num_buckets = num_buckets\<rparr>
      | Some raw \<Rightarrow>
          bindR (py_int raw) (\<lambda>claimed.
            if claimed \<noteq> num_buckets then Inl (ValueError ''num_buckets'')
            else Inr \<lparr>rs_namespace = namespace, rs_num_buckets = num_buckets\<rparr>))"

definition rs_key :: "rule_store \<Rightarrow> string \<Rightarrow> int \<Rightarrow> string \<Rightarrow> int \<Rightarrow> string result" where
  "rs_key st tag bucket_index fqdn1_pattern port =
     (if is_bucketed_tag tag \<and> rs_num_buckets st > 1 then
        bindR (compute_bucket_table (rs_num_buckets st)) (\<lambda>t.
        bindR (table_token t bucket_index) (\<lambda>token.
          Inr (''r:'' @ rs_namespace st @ '':{'' @ token @ ''}:'' @ tag @ '':''
               @ py_str bucket_index @ '':'' @ fqdn1_pattern @ '':'' @ py_str port)))
      else Inr (''r:{'' @ rs_namespace st @ '':'' @ tag @ ''}:'' @ fqdn1_pattern
                @ '':'' @ py_str port))"

definition keys_for_pattern :: "rule_store \<Rightarrow> string \<Rightarrow> int \<Rightarrow> string list result" where
  "keys_for_pattern st pattern port =
     (let base_tag = hash_tag pattern in
      if is_bucketed_tag base_tag \<and> rs_num_buckets st > 1
      then mapR (\<lambda>i. rs_key st base_tag i pattern port) [0..rs_num_buckets st - 1]
      else bindR (rs_key st base_tag 0 pattern port) (\<lambda>k. Inr [k]))"

definition rule_value :: "rule \<Rightarrow> string" where
  "rule_value rule = scope_value (r_scope rule) @ r_rule_id rule"

definition meta_cmd :: "rule_store \<Rightarrow> pipe_cmd" where
  "meta_cmd st =
     PHset (bucketing_meta_key (rs_namespace st)) ''num_buckets'' (py_str (rs_num_buckets st))"

definition rs_put :: "'db redis_api \<Rightarrow> rule_store \<Rightarrow> 'db \<Rightarrow> rule \<Rightarrow> 'db result" where
  "rs_put api st db rule =
     bindR (validate_port (r_port rule)) (\<lambda>_.
     bindR (keys_for_pattern st (r_fqdn1 rule) (r_port rule)) (\<lambda>keys.
       let value = rule_value rule in
       if length keys = 1 then Inr (hset api db (keys ! 0) (r_fqdn2 rule) value)
       else Inr (fst (execute_pipe api db
              (map (\<lambda>key. PHset key (r_fqdn2 rule) value) keys @ [meta_cmd st])))))"

text \<open>The loop of \<open>put_many\<close>: the commands queued so far and the \<open>bucketed\<close> flag.\<close>

fun put_many_loop ::
  "rule_store \<Rightarrow> rule list \<Rightarrow> pipe_cmd list \<Rightarrow> bool \<Rightarrow> (pipe_cmd list \<times> bool) result" where
  "put_many_loop st [] pipe bucketed = Inr (pipe, bucketed)"
| "put_many_loop st (rule # rules) pipe bucketed =
     bindR (validate_port (r_port rule)) (\<lambda>_.
     bindR (keys_for_pattern st (r_fqdn1 rule) (r_port rule)) (\<lambda>keys.
       put_many_loop st rules
         (pipe @ map (\<lambda>key. PHset key (r_fqdn2 rule) (rule_value rule)) keys)
         (bucketed \<or> length keys > 1)))"

definition rs_put_many :: "'db redis_api \<Rightarrow> rule_store \<Rightarrow> 'db \<Rightarrow> rule list \<Rightarrow> 'db result" where
  "rs_put_many api st db rules =
     bindR (put_many_loop st rules [] False) (\<lambda>(pipe, bucketed).
       Inr (fst (execute_pipe api db (if bucketed then pipe @ [meta_cmd st] else pipe))))"

definition rs_delete ::
  "'db redis_api \<Rightarrow> rule_store \<Rightarrow> 'db \<Rightarrow> string \<Rightarrow> int \<Rightarrow> string \<Rightarrow> ('db \<times> bool) result" where
  "rs_delete api st db fqdn1 port fqdn2 =
     bindR (keys_for_pattern st fqdn1 port) (\<lambda>keys.
       if length keys = 1
       then Inr (hdel api db (keys ! 0) fqdn2, hdel_count api db (keys ! 0) fqdn2 \<noteq> 0)
       else (let (db', replies) = execute_pipe api db (map (\<lambda>key. PHdel key fqdn2) keys)
             in Inr (db', list_ex (\<lambda>n. n \<noteq> 0) replies)))"


section \<open>Lookup\<close>

text \<open>\<open>groups.setdefault(c.tag, []).append(c)\<close> on an insertion-ordered dict.\<close>

fun add_group ::
  "(string \<times> candidate list) list \<Rightarrow> candidate \<Rightarrow> (string \<times> candidate list) list" where
  "add_group [] c = [(c_tag c, [c])]"
| "add_group ((t, g) # gs) c = (if t = c_tag c then (t, g @ [c]) # gs else (t, g) # add_group gs c)"

definition group_by_tag :: "candidate list \<Rightarrow> (string \<times> candidate list) list" where
  "group_by_tag cs = foldl add_group [] cs"

definition bit_list :: "bool list \<Rightarrow> string" where
  "bit_list bs = join '','' (map (\<lambda>b. if b then ''1'' else ''0'') bs)"

text \<open>One EVALSHA: the declared keys of a grp and the script's answer.\<close>

definition group_reply ::
  "'db redis_api \<Rightarrow> rule_store \<Rightarrow> 'db \<Rightarrow> int \<Rightarrow> string \<Rightarrow> string list
     \<Rightarrow> string \<times> candidate list \<Rightarrow> (nat \<times> nat \<times> string) option result" where
  "group_reply api st db port fmulti flds tg =
     (case tg of (tag, grp) \<Rightarrow>
        bindR (mapR (\<lambda>c. rs_key st tag (c_bucket_index c) (c_pattern c) port) grp) (\<lambda>keys.
          let kmulti = bit_list (map c_needs_multi grp);
              kexact = bit_list (map (\<lambda>c. c_rank c = 0) grp)
          in Inr (lua_lookup api db keys kmulti kexact fmulti flds)))"

type_synonym best_hit = "(nat \<times> nat \<times> string \<times> string \<times> string) option"

text \<open>One turn of the loop over the grp replies.\<close>

definition better ::
  "field_candidate list \<Rightarrow> best_hit
     \<Rightarrow> (string \<times> candidate list) \<times> (nat \<times> nat \<times> string) option \<Rightarrow> best_hit" where
  "better b_candidates best tr =
     (case tr of ((tag, grp), raw) \<Rightarrow>
        (case raw of
           None \<Rightarrow> best
         | Some (i, j, rule_id) \<Rightarrow>
             let a = grp ! (i - 1); b = b_candidates ! (j - 1);
                 new = (c_rank a, f_rank b, c_pattern a, f_pattern b, rule_id)
             in (case best of
                   None \<Rightarrow> Some new
                 | Some (ra, rb, rest) \<Rightarrow>
                     if (c_rank a, f_rank b) < (ra, rb) then Some new else best)))"

definition rs_lookup ::
  "'db redis_api \<Rightarrow> rule_store \<Rightarrow> 'db \<Rightarrow> string \<Rightarrow> int \<Rightarrow> string \<Rightarrow> match_mode
     \<Rightarrow> rule_match option result" where
  "rs_lookup api st db fqdn1 port fqdn2 mode =
     bindR (normalize_fqdn fqdn1) (\<lambda>q1.
     bindR (normalize_fqdn fqdn2) (\<lambda>q2.
     bindR (validate_port port) (\<lambda>_.
       let a_candidates = candidates q1 mode (rs_num_buckets st);
           b_candidates = field_candidates q2 mode;
           flds = map f_pattern b_candidates;
           fmulti = bit_list (map f_needs_multi b_candidates);
           groups = group_by_tag a_candidates
       in bindR (mapR (group_reply api st db port fmulti flds) groups) (\<lambda>raws.
            Inr (case foldl (better b_candidates) None (zip groups raws) of
                   None \<Rightarrow> None
                 | Some (a_rank, b_rank, a_pattern, b_pattern, rule_id) \<Rightarrow>
                     Some \<lparr>m_rule_id = rule_id, m_fqdn1_pattern = a_pattern, m_port = port,
                           m_fqdn2_pattern = b_pattern,
                           m_specificity = (a_rank, b_rank)\<rparr>)))))"


section \<open>Sizing and the demonstration\<close>

text \<open>
  \<open>conn.info("server")\<close> is the server's answer: \<open>None\<close> stands for a RedisError, else a
  map whose values the client has already read as integers.
\<close>

definition recommended_num_buckets :: "(string \<Rightarrow> int option) option \<Rightarrow> int \<Rightarrow> int" where
  "recommended_num_buckets server_info dflt =
     (case server_info of
        None \<Rightarrow> dflt
      | Some info \<Rightarrow> (case info ''thread_count'' of None \<Rightarrow> dflt | Some n \<Rightarrow> n))"

definition mk_rule :: "string \<Rightarrow> int \<Rightarrow> string \<Rightarrow> string \<Rightarrow> wildcard_scope \<Rightarrow> rule" where
  "mk_rule fqdn1 port fqdn2 rule_id scope =
     \<lparr>r_fqdn1 = fqdn1, r_port = port, r_fqdn2 = fqdn2, r_rule_id = rule_id, r_scope = scope\<rparr>"

definition demo_rules :: "rule list" where
  "demo_rules =
     [mk_rule ''*.corp.dragonfly.com'' 443 ''retailer.com'' ''rule:corp-to-retailer'' BOTH,
      mk_rule ''*.corp.dragonfly.com'' 443 ''*.com'' ''rule:corp-to-any-dot-com'' BOTH,
      mk_rule ''*.dragonfly.com'' 443 ''*'' ''rule:tls-strict'' SINGLE]"

definition demo_cases :: "(string \<times> int \<times> string \<times> match_mode) list" where
  "demo_cases =
     [(''console.corp.dragonfly.com'', 443, ''retailer.com'', SINGLE_LEVEL),
      (''console.corp.dragonfly.com'', 443, ''shop.com'', SINGLE_LEVEL),
      (''a.console.corp.dragonfly.com'', 443, ''retailer.com'', SINGLE_LEVEL),
      (''a.console.corp.dragonfly.com'', 443, ''retailer.com'', MULTI_LEVEL),
      (''a.b.dragonfly.com'', 443, ''anything.net'', MULTI_LEVEL)]"

text \<open>Puts one rule after the other; the first error stops the run.\<close>

fun put_all :: "'db redis_api \<Rightarrow> rule_store \<Rightarrow> 'db \<Rightarrow> rule list \<Rightarrow> 'db result" where
  "put_all api st db [] = Inr db"
| "put_all api st db (r # rs) = bindR (rs_put api st db r) (\<lambda>db'. put_all api st db' rs)"

text \<open>\<open>_demo\<close> after \<open>flushdb\<close>: the answers it prints, in order.\<close>

definition demo :: "'db redis_api \<Rightarrow> 'db \<Rightarrow> rule_match option list result" where
  "demo api flushed =
     bindR (rule_store_init api flushed ''demo'' 1) (\<lambda>st.
     bindR (put_all api st flushed demo_rules) (\<lambda>db.
       mapR (\<lambda>(fqdn1, port, fqdn2, mode). rs_lookup api st db fqdn1 port fqdn2 mode) demo_cases))"

end
