(* ===== verification/Router_Keys.thy ===== *)
theory Router_Keys
  imports Fqdn_Router
begin

text \<open>
  The physical keys of the rule store: which keys a pattern is written under, that two
  different (pattern, port) pairs never share one, and where in the slot space they land.
  The locale \<open>key_scheme\<close> is what the write operations need of a naming of records by
  sets of keys; it is interpreted on the keys of the store.
\<close>


section \<open>Writes through a key scheme\<close>

locale key_scheme =
  fixes keys :: "'x \<Rightarrow> string list" and ok :: "'x \<Rightarrow> bool"
  assumes disjoint: "ok x \<Longrightarrow> ok y \<Longrightarrow> k \<in> set (keys x) \<Longrightarrow> k \<in> set (keys y) \<Longrightarrow> x = y"
begin

text \<open>Setting or clearing a field under all keys of a record updates that record alone.\<close>

lemma write_all:
  assumes rep: "\<And>y g k. ok y \<Longrightarrow> k \<in> set (keys y) \<Longrightarrow> get k g = A y g"
    and x: "ok x"
    and get': "\<And>y g k. ok y \<Longrightarrow> k \<in> set (keys y) \<Longrightarrow>
        get' k g = (if k \<in> set (keys x) \<and> g = f then v else get k g)"
    and y: "ok y" "k \<in> set (keys y)"
  shows "get' k g = (if y = x \<and> g = f then v else A y g)"
  using get'[OF y, of g] rep[OF y, of g] disjoint[OF x y(1)] y(2) by auto

end


section \<open>Parsing a key back\<close>

lemma last_sep_unique:
  assumes "x @ c # a = y @ c # b" "c \<notin> set a" "c \<notin> set b"
  shows "x = y \<and> a = b"
proof -
  have r: "rev a @ c # rev x = rev b @ c # rev y"
    using arg_cong[OF assms(1), of rev] by simp
  have t: "takeWhile (\<lambda>z. z \<noteq> c) (rev s @ c # u) = rev s"
    "dropWhile (\<lambda>z. z \<noteq> c) (rev s @ c # u) = c # u" if "c \<notin> set s" for s u
    using that by (auto simp: takeWhile_append dropWhile_append)
  have "rev a = rev b" using t(1)[OF assms(2)] t(1)[OF assms(3)] r by metis
  moreover have "c # rev x = c # rev y" using t(2)[OF assms(2)] t(2)[OF assms(3)] r by metis
  ultimately show ?thesis by simp
qed

lemma colon_py_str: "CHR '':'' \<notin> set (py_str z)"
  by (rule py_str_no) simp_all

lemma rs_key_shape:
  assumes "rs_key st t i p port = Inr k"
  shows "\<exists>pre. k = pre @ CHR '':'' # p @ CHR '':'' # py_str port"
proof (cases "is_bucketed_tag t \<and> rs_num_buckets st > 1")
  case True
  with assms obtain tok where "k = (''r:'' @ rs_namespace st @ '':{'' @ tok @ ''}:'' @ t @ '':''
      @ py_str i) @ CHR '':'' # p @ CHR '':'' # py_str port"
    by (auto simp: rs_key_def result_simps)
  then show ?thesis by blast
next
  case False
  with assms have "k = (''r:{'' @ rs_namespace st @ '':'' @ t @ ''}'')
      @ CHR '':'' # p @ CHR '':'' # py_str port"
    by (auto simp: rs_key_def)
  then show ?thesis by blast
qed

lemma rs_key_inject:
  assumes "rs_key st t i p port = Inr k" "rs_key st' t' i' p' port' = Inr k"
    "CHR '':'' \<notin> set p" "CHR '':'' \<notin> set p'"
  shows "p = p' \<and> port = port'"
proof -
  obtain pre where 1: "k = (pre @ CHR '':'' # p) @ CHR '':'' # py_str port"
    using rs_key_shape[OF assms(1)] append_assoc append_Cons by metis
  obtain pre' where 2: "k = (pre' @ CHR '':'' # p') @ CHR '':'' # py_str port'"
    using rs_key_shape[OF assms(2)] append_assoc append_Cons by metis
  have k: "(pre @ CHR '':'' # p) @ CHR '':'' # py_str port
      = (pre' @ CHR '':'' # p') @ CHR '':'' # py_str port'"
    using 1 2 by (rule subst)
  have a: "pre @ CHR '':'' # p = pre' @ CHR '':'' # p' \<and> py_str port = py_str port'"
    by (rule last_sep_unique[OF k]) (rule colon_py_str)+
  have "p = p'" using last_sep_unique[OF conjunct1[OF a] assms(3,4)] by (rule conjunct2)
  with a show ?thesis by simp
qed

lemma rs_key_not_meta:
  assumes "rs_key st t i p port = Inr k"
  shows "k \<noteq> bucketing_meta_key ns"
proof
  assume e: "k = bucketing_meta_key ns"
  obtain pre where k: "k = pre @ CHR '':'' # p @ CHR '':'' # py_str port"
    using rs_key_shape[OF assms] by blast
  have "(pre @ CHR '':'' # p) @ CHR '':'' # py_str port = k" by (simp add: k)
  also have "\<dots> = (''r:{'' @ ns @ '':__meta__}'') @ CHR '':'' # ''bucketing''"
    unfolding e bucketing_meta_key_def by simp
  finally have m: "(pre @ CHR '':'' # p) @ CHR '':'' # py_str port
      = (''r:{'' @ ns @ '':__meta__}'') @ CHR '':'' # ''bucketing''" .
  have "CHR '':'' \<notin> set ''bucketing''" by simp
  from last_sep_unique[OF m colon_py_str this] have "py_str port = ''bucketing''" by (rule conjunct2)
  then have "CHR ''b'' \<in> set (py_str port)" by simp
  then show False using set_py_str[of "CHR ''b''" port] by (auto simp: is_digit_def)
qed


section \<open>The keys of a pattern\<close>

text \<open>A store whose bucket table exists; an unbucketed store needs none.\<close>

definition store_ok :: "rule_store \<Rightarrow> bool" where
  "store_ok st \<longleftrightarrow>
     rs_num_buckets st \<le> 1 \<or> (\<exists>t. compute_bucket_table (rs_num_buckets st) = Inr t)"

definition is_replicated :: "rule_store \<Rightarrow> string \<Rightarrow> bool" where
  "is_replicated st p \<longleftrightarrow> is_bucketed_tag (hash_tag p) \<and> rs_num_buckets st > 1"

lemma rs_key_ok:
  assumes "store_ok st" "0 \<le> i" "rs_num_buckets st > 1 \<Longrightarrow> i < rs_num_buckets st"
  shows "\<exists>k. rs_key st t i p port = Inr k"
proof (cases "is_bucketed_tag t \<and> rs_num_buckets st > 1")
  case True
  with assms obtain tab where tab: "compute_bucket_table (rs_num_buckets st) = Inr tab"
    by (auto simp: store_ok_def)
  then have "length (tokens tab) = nat (rs_num_buckets st)"
    using compute_bucket_table_Inr(3)[OF tab] by (simp add: table_wf_def)
  then have "table_token tab i = Inr (tokens tab ! nat i)"
    using assms True by (simp add: table_token_def)
  with True tab show ?thesis by (simp add: rs_key_def)
next
  case False
  then show ?thesis by (auto simp: rs_key_def)
qed

definition keys_of :: "rule_store \<Rightarrow> string \<times> int \<Rightarrow> string list" where
  "keys_of st x = (case keys_for_pattern st (fst x) (snd x) of Inr ks \<Rightarrow> ks | Inl _ \<Rightarrow> [])"

lemma keys_for_pattern_Inr:
  assumes "store_ok st"
  shows "keys_for_pattern st p port = Inr (keys_of st (p, port))"
    and "length (keys_of st (p, port))
           = (if is_replicated st p then nat (rs_num_buckets st) else 1)"
proof -
  have "\<exists>ks. keys_for_pattern st p port = Inr ks \<and>
      length ks = (if is_replicated st p then nat (rs_num_buckets st) else 1)"
  proof (cases "is_replicated st p")
    case True
    have "\<exists>f. \<forall>i\<in>set [0..rs_num_buckets st - 1]. rs_key st (hash_tag p) i p port = Inr (f i)"
      using rs_key_ok[OF assms] True
      by (intro bchoice) (auto simp: is_replicated_def)
    then obtain f where
      "\<And>i. i \<in> set [0..rs_num_buckets st - 1] \<Longrightarrow> rs_key st (hash_tag p) i p port = Inr (f i)"
      by blast
    then have "mapR (\<lambda>i. rs_key st (hash_tag p) i p port) [0..rs_num_buckets st - 1]
        = Inr (map f [0..rs_num_buckets st - 1])"
      by (rule mapR_Inr)
    with True show ?thesis
      by (simp add: keys_for_pattern_def is_replicated_def Let_def)
  next
    case False
    obtain k where "rs_key st (hash_tag p) 0 p port = Inr k"
      using rs_key_ok[OF assms, of 0 "hash_tag p" p port] by auto
    with False show ?thesis
      by (auto simp: keys_for_pattern_def is_replicated_def Let_def)
  qed
  then show "keys_for_pattern st p port = Inr (keys_of st (p, port))"
    and "length (keys_of st (p, port))
           = (if is_replicated st p then nat (rs_num_buckets st) else 1)"
    by (auto simp: keys_of_def)
qed

lemma keys_of_mem:
  assumes "k \<in> set (keys_of st (p, port))"
  shows "\<exists>i. rs_key st (hash_tag p) i p port = Inr k"
proof -
  obtain ks where ks: "keys_for_pattern st p port = Inr ks" "k \<in> set ks"
    using assms by (cases "keys_for_pattern st p port") (auto simp: keys_of_def)
  show ?thesis
  proof (cases "is_bucketed_tag (hash_tag p) \<and> rs_num_buckets st > 1")
    case True
    with ks have m: "mapR (\<lambda>i. rs_key st (hash_tag p) i p port) [0..rs_num_buckets st - 1] = Inr ks"
      by (simp add: keys_for_pattern_def Let_def)
    obtain j where "j < length ks" "ks ! j = k" using ks(2) by (auto simp: in_set_conv_nth)
    then show ?thesis
      using mapR_Inr_nth[OF m, of j] mapR_Inr_length[OF m] by auto
  next
    case False
    with ks show ?thesis by (auto simp: keys_for_pattern_def Let_def result_simps)
  qed
qed

lemma keys_of_contains:
  assumes "store_ok st" "rs_key st (hash_tag p) i p port = Inr k"
    "0 \<le> i" "rs_num_buckets st > 1 \<Longrightarrow> i < rs_num_buckets st"
  shows "k \<in> set (keys_of st (p, port))"
proof (cases "is_bucketed_tag (hash_tag p) \<and> rs_num_buckets st > 1")
  case True
  then have m: "mapR (\<lambda>i. rs_key st (hash_tag p) i p port) [0..rs_num_buckets st - 1]
      = Inr (keys_of st (p, port))"
    using keys_for_pattern_Inr(1)[OF assms(1), of p port]
    by (simp add: keys_for_pattern_def Let_def)
  have "nat i < length [0..rs_num_buckets st - 1]" "[0..rs_num_buckets st - 1] ! nat i = i"
    using assms True by auto
  with mapR_Inr_nth[OF m this(1)] mapR_Inr_length[OF m] assms(2) show ?thesis
    by (metis Inr_inject nth_mem)
next
  case False
  have "rs_key st (hash_tag p) 0 p port = rs_key st (hash_tag p) i p port"
    using False by (auto simp: rs_key_def)
  then have "keys_for_pattern st p port = Inr [k]"
    using False assms(2) by (auto simp: keys_for_pattern_def Let_def)
  then show ?thesis by (simp add: keys_of_def)
qed

interpretation rk: key_scheme "keys_of st" "\<lambda>x. CHR '':'' \<notin> set (fst x)" for st
proof
  fix x y k
  assume "CHR '':'' \<notin> set (fst x)" "CHR '':'' \<notin> set (fst y)"
    "k \<in> set (keys_of st x)" "k \<in> set (keys_of st y)"
  then show "x = y"
    using keys_of_mem rs_key_inject by (metis prod.collapse)
qed

lemma keys_of_not_meta: "k \<in> set (keys_of st x) \<Longrightarrow> k \<noteq> bucketing_meta_key ns"
  using keys_of_mem rs_key_not_meta by (metis prod.collapse)

end
