(* ===== verification/Router_Store.thy ===== *)
theory Router_Store
  imports Router_Keys
begin

text \<open>
  The abstract rule table the store promises, a finite map from (fqdn1 pattern, port, fqdn2
  pattern) to scope and rule id, and the refinement of the writes: \<open>put\<close>, \<open>put_many\<close> and
  \<open>delete\<close> on the replicated hashes update that map at one key and nothing else.
\<close>

type_synonym rule_table = "string \<times> int \<times> string \<Rightarrow> (wildcard_scope \<times> string) option"

definition value_of :: "(wildcard_scope \<times> string) option \<Rightarrow> string option" where
  "value_of v = map_option (\<lambda>(scope, rule_id). scope_value scope @ rule_id) v"

text \<open>Every replica of every record shows the table's entry.\<close>

definition represents :: "'db redis_api \<Rightarrow> rule_store \<Rightarrow> 'db \<Rightarrow> rule_table \<Rightarrow> bool" where
  "represents api st db A \<longleftrightarrow>
     (\<forall>p port f. CHR '':'' \<notin> set p \<longrightarrow>
        (\<forall>k\<in>set (keys_of st (p, port)). hget api db k f = value_of (A (p, port, f))))"

definition rule_key :: "rule \<Rightarrow> string \<times> int \<times> string" where
  "rule_key r = (r_fqdn1 r, r_port r, r_fqdn2 r)"

definition table_put :: "rule_table \<Rightarrow> rule \<Rightarrow> rule_table" where
  "table_put A r = A(rule_key r \<mapsto> (r_scope r, r_rule_id r))"

text \<open>A rule the store accepts and keeps apart from every other one.\<close>

definition rule_ok :: "rule \<Rightarrow> bool" where
  "rule_ok r \<longleftrightarrow> 0 < r_port r \<and> r_port r < 65536 \<and> CHR '':'' \<notin> set (r_fqdn1 r)"

lemma scope_value_inject [simp]: "scope_value a = scope_value b \<longleftrightarrow> a = b"
  by (cases a; cases b) simp_all

lemma scope_value_length [simp]: "length (scope_value a) = 1"
  by (cases a) simp_all

lemma value_of_inject [simp]: "value_of a = value_of b \<longleftrightarrow> a = b"
proof -
  have "scope_value s @ i = scope_value t @ j \<longleftrightarrow> s = t \<and> i = j" for s t i j
    by (cases s; cases t) simp_all
  then show ?thesis by (cases a; cases b) (auto simp: value_of_def)
qed

lemma validate_port_iff: "validate_port p = Inr () \<longleftrightarrow> 0 < p \<and> p < 65536"
  by (simp add: validate_port_def)

lemma represents_unique:
  assumes "store_ok st" "represents api st db A" "represents api st db B" "CHR '':'' \<notin> set p"
  shows "A (p, port, f) = B (p, port, f)"
proof -
  have "length (keys_of st (p, port)) > 0"
    using keys_for_pattern_Inr(2)[OF assms(1), of p port] by (auto simp: is_replicated_def)
  then obtain k where "k \<in> set (keys_of st (p, port))" by (metis length_greater_0_conv list.set_sel(1))
  with assms have "value_of (A (p, port, f)) = value_of (B (p, port, f))"
    unfolding represents_def by metis
  then show ?thesis by simp
qed


section \<open>What a pipeline of writes leaves in a field\<close>

lemma hget_pipe_hset:
  assumes "redis_laws api"
  shows "hget api (fst (execute_pipe api db (map (\<lambda>k. PHset k f v) ks))) k' f'
    = (if k' \<in> set ks \<and> f' = f then Some v else hget api db k' f')"
  unfolding execute_pipe_db
  by (induction ks arbitrary: db) (auto simp: redis_lawsD[OF assms])

lemma hget_pipe_hdel:
  assumes "redis_laws api"
  shows "hget api (fst (execute_pipe api db (map (\<lambda>k. PHdel k f) ks))) k' f'
    = (if k' \<in> set ks \<and> f' = f then None else hget api db k' f')"
  unfolding execute_pipe_db
  by (induction ks arbitrary: db) (auto simp: redis_lawsD[OF assms])

lemma replies_pipe_hdel:
  assumes "redis_laws api"
  shows "list_ex (\<lambda>n. n \<noteq> 0) (snd (execute_pipe api db (map (\<lambda>k. PHdel k f) ks)))
    \<longleftrightarrow> (\<exists>k\<in>set ks. hget api db k f \<noteq> None)"
proof (induction ks arbitrary: db)
  case Nil
  show ?case by simp
next
  case (Cons k ks)
  show ?case
  proof (cases "hget api db k f = None")
    case True
    have "hget api (hdel api db k f) k' f = hget api db k' f" for k'
      using True by (simp add: redis_lawsD[OF assms])
    with True Cons show ?thesis
      by (simp add: case_prod_unfold Let_def redis_lawsD(3)[OF assms])
  next
    case False
    then have "hdel_count api db k f \<noteq> 0" by (simp add: redis_lawsD(3)[OF assms])
    with False show ?thesis by (simp add: case_prod_unfold Let_def)
  qed
qed

lemma hget_meta_cmd:
  assumes "redis_laws api" "k' \<noteq> bucketing_meta_key (rs_namespace st)"
  shows "hget api (fst (execute_pipe api db [meta_cmd st])) k' f' = hget api db k' f'"
  using assms by (simp add: meta_cmd_def redis_lawsD[OF assms(1)])


section \<open>put\<close>

lemma represents_update:
  assumes rep: "represents api st db A" and p: "CHR '':'' \<notin> set p"
    and db': "\<And>y g k. k \<in> set (keys_of st y) \<Longrightarrow> hget api db' k g
      = (if k \<in> set (keys_of st (p, port)) \<and> g = f then value_of v else hget api db k g)"
  shows "represents api st db' (A((p, port, f) := v))"
  unfolding represents_def
proof (intro allI impI ballI)
  fix p' port' f' k
  assume y: "CHR '':'' \<notin> set p'" "k \<in> set (keys_of st (p', port'))"
  have "hget api db' k f' = (if (p', port') = (p, port) \<and> f' = f then value_of v
      else value_of (A (fst (p', port'), snd (p', port'), f')))"
    by (rule rk.write_all[where get = "hget api db" and st = st])
      (use rep p db' y in \<open>auto simp: represents_def\<close>)
  then show "hget api db' k f' = value_of ((A((p, port, f) := v)) (p', port', f'))"
    by auto
qed

lemma rs_put_db:
  assumes "redis_laws api" "store_ok st" "0 < r_port r" "r_port r < 65536"
  obtains db' where "rs_put api st db r = Inr db'"
    "\<And>y g k. k \<in> set (keys_of st y) \<Longrightarrow> hget api db' k g
      = (if k \<in> set (keys_of st (r_fqdn1 r, r_port r)) \<and> g = r_fqdn2 r
         then Some (rule_value r) else hget api db k g)"
proof (cases "length (keys_of st (r_fqdn1 r, r_port r)) = 1")
  case True
  then obtain k0 where k0: "keys_of st (r_fqdn1 r, r_port r) = [k0]"
    by (metis One_nat_def length_0_conv length_Suc_conv)
  have "rs_put api st db r = Inr (hset api db k0 (r_fqdn2 r) (rule_value r))"
    using keys_for_pattern_Inr(1)[OF assms(2), of "r_fqdn1 r" "r_port r"] assms(3,4) k0
    by (simp add: rs_put_def validate_port_def)
  then show ?thesis
    by (rule that) (simp add: k0 redis_lawsD[OF assms(1)])
next
  case False
  let ?ks = "keys_of st (r_fqdn1 r, r_port r)"
  let ?cs = "map (\<lambda>k. PHset k (r_fqdn2 r) (rule_value r)) ?ks"
  have "rs_put api st db r = Inr (fst (execute_pipe api db (?cs @ [meta_cmd st])))"
    using keys_for_pattern_Inr(1)[OF assms(2), of "r_fqdn1 r" "r_port r"] assms(3,4) False
    by (simp add: rs_put_def validate_port_def Let_def)
  then show ?thesis
    by (rule that)
      (simp only: execute_pipe_append hget_meta_cmd[OF assms(1)] keys_of_not_meta
        hget_pipe_hset[OF assms(1)] simp_thms)
qed

lemma rs_put_represents:
  assumes "redis_laws api" "store_ok st" "represents api st db A" "rule_ok r"
  shows "\<exists>db'. rs_put api st db r = Inr db' \<and> represents api st db' (table_put A r)"
proof -
  have v: "Some (rule_value r) = value_of (Some (r_scope r, r_rule_id r))"
    by (simp add: value_of_def rule_value_def)
  obtain db' where db': "rs_put api st db r = Inr db'"
    "\<And>y g k. k \<in> set (keys_of st y) \<Longrightarrow> hget api db' k g
      = (if k \<in> set (keys_of st (r_fqdn1 r, r_port r)) \<and> g = r_fqdn2 r
         then Some (rule_value r) else hget api db k g)"
    using rs_put_db[OF assms(1,2)] assms(4) unfolding rule_ok_def by metis
  have "represents api st db' (table_put A r)"
    unfolding table_put_def rule_key_def
    by (rule represents_update[OF assms(3)]) (use assms(4) db'(2) v in \<open>auto simp: rule_ok_def\<close>)
  with db'(1) show ?thesis by blast
qed



section \<open>put\_many\<close>

definition put_cmds :: "rule_store \<Rightarrow> rule \<Rightarrow> pipe_cmd list" where
  "put_cmds st r =
     map (\<lambda>key. PHset key (r_fqdn2 r) (rule_value r)) (keys_of st (r_fqdn1 r, r_port r))"

definition bulk_cmds :: "rule_store \<Rightarrow> rule list \<Rightarrow> pipe_cmd list" where
  "bulk_cmds st rules =
     concat (map (put_cmds st) rules)
     @ (if list_ex (\<lambda>r. length (keys_of st (r_fqdn1 r, r_port r)) > 1) rules
        then [meta_cmd st] else [])"

lemma put_many_loop_ok:
  assumes "store_ok st" "\<And>r. r \<in> set rules \<Longrightarrow> 0 < r_port r \<and> r_port r < 65536"
  shows "put_many_loop st rules pipe b =
     Inr (pipe @ concat (map (put_cmds st) rules),
          b \<or> list_ex (\<lambda>r. length (keys_of st (r_fqdn1 r, r_port r)) > 1) rules)"
  using assms(2)
proof (induction rules arbitrary: pipe b)
  case Nil
  show ?case by simp
next
  case (Cons r rules)
  have "validate_port (r_port r) = Inr ()" using Cons.prems by (simp add: validate_port_iff)
  with Cons show ?case
    by (simp add: keys_for_pattern_Inr(1)[OF assms(1)] put_cmds_def)
qed

lemma put_many_loop_bad_port:
  assumes "store_ok st" "r \<in> set rules" "\<not> (0 < r_port r \<and> r_port r < 65536)"
  shows "\<exists>port. (port \<le> 0 \<or> 65536 \<le> port)
    \<and> put_many_loop st rules pipe b = Inl (InvalidFqdn (PortOutOfRange port))"
  using assms(2)
proof (induction rules arbitrary: pipe b)
  case Nil
  then show ?case by simp
next
  case (Cons x rules)
  show ?case
  proof (cases "0 < r_port x \<and> r_port x < 65536")
    case True
    with Cons.prems assms(3) have "r \<in> set rules" by auto
    with Cons.IH True show ?thesis
      by (simp add: validate_port_def keys_for_pattern_Inr(1)[OF assms(1)])
  next
    case False
    then show ?thesis by (auto simp: validate_port_def)
  qed
qed

lemma rs_put_many_ok:
  assumes "store_ok st" "\<And>r. r \<in> set rules \<Longrightarrow> 0 < r_port r \<and> r_port r < 65536"
  shows "rs_put_many api st db rules = Inr (fst (execute_pipe api db (bulk_cmds st rules)))"
  using put_many_loop_ok[where pipe = "[]" and b = False, OF assms]
  by (simp add: rs_put_many_def bulk_cmds_def)

lemma represents_put_cmds:
  assumes "redis_laws api" "represents api st db A" "CHR '':'' \<notin> set (r_fqdn1 r)"
  shows "represents api st (fst (execute_pipe api db (put_cmds st r))) (table_put A r)"
  unfolding table_put_def rule_key_def put_cmds_def
  by (rule represents_update[OF assms(2,3)])
    (simp add: hget_pipe_hset[OF assms(1)] value_of_def rule_value_def)

lemma represents_meta:
  assumes "redis_laws api" "represents api st db A"
  shows "represents api st (fst (execute_pipe api db [meta_cmd st])) A"
proof -
  have "hget api (fst (execute_pipe api db [meta_cmd st])) k f = hget api db k f"
    if "k \<in> set (keys_of st y)" for y k f
    by (rule hget_meta_cmd[OF assms(1) keys_of_not_meta[OF that]])
  then show ?thesis using assms(2) unfolding represents_def by metis
qed

lemma represents_bulk:
  assumes "redis_laws api" "represents api st db A"
    "\<And>r. r \<in> set rules \<Longrightarrow> CHR '':'' \<notin> set (r_fqdn1 r)"
  shows "represents api st (fst (execute_pipe api db (concat (map (put_cmds st) rules))))
           (foldl table_put A rules)"
  using assms(2,3)
proof (induction rules arbitrary: db A)
  case Nil
  then show ?case by simp
next
  case (Cons r rules)
  then show ?case
    using represents_put_cmds[OF assms(1), of st db A r]
    by (simp add: execute_pipe_append)
qed

lemma represents_bulk_cmds:
  assumes "redis_laws api" "represents api st db A"
    "\<And>r. r \<in> set rules \<Longrightarrow> CHR '':'' \<notin> set (r_fqdn1 r)"
  shows "represents api st (fst (execute_pipe api db (bulk_cmds st rules)))
           (foldl table_put A rules)"
proof -
  have b: "represents api st (fst (execute_pipe api db (concat (map (put_cmds st) rules))))
      (foldl table_put A rules)"
    using represents_bulk[OF assms] .
  show ?thesis
  proof (cases "list_ex (\<lambda>r. length (keys_of st (r_fqdn1 r, r_port r)) > 1) rules")
    case True
    then have "bulk_cmds st rules = concat (map (put_cmds st) rules) @ [meta_cmd st]"
      by (simp add: bulk_cmds_def)
    then show ?thesis
      using represents_meta[OF assms(1) b] by (simp only: execute_pipe_append)
  next
    case False
    then show ?thesis using b by (simp add: bulk_cmds_def)
  qed
qed

text \<open>A pipeline of HSETs: each field shows the last command on it, if there is one.\<close>

fun last_write :: "pipe_cmd list \<Rightarrow> string \<Rightarrow> string \<Rightarrow> string option" where
  "last_write [] k f = None"
| "last_write (c # cs) k f =
     (case last_write cs k f of
        Some v \<Rightarrow> Some v
      | None \<Rightarrow> (case c of PHset k' f' v \<Rightarrow> if k' = k \<and> f' = f then Some v else None
                | PHdel _ _ \<Rightarrow> None))"

fun is_hset :: "pipe_cmd \<Rightarrow> bool" where
  "is_hset (PHset _ _ _) = True"
| "is_hset (PHdel _ _) = False"

lemma hget_last_write:
  assumes "redis_laws api" "list_all is_hset cs"
  shows "hget api (fst (execute_pipe api db cs)) k f =
    (case last_write cs k f of Some v \<Rightarrow> Some v | None \<Rightarrow> hget api db k f)"
  using assms(2) unfolding execute_pipe_db
proof (induction cs arbitrary: db)
  case Nil
  show ?case by simp
next
  case (Cons c cs)
  then show ?case
    by (cases c) (auto simp: redis_lawsD[OF assms(1)] split: option.splits)
qed

lemma last_write_append:
  "last_write (cs @ ds) k f =
     (case last_write ds k f of Some v \<Rightarrow> Some v | None \<Rightarrow> last_write cs k f)"
  by (induction cs) (auto split: option.splits)

lemma bulk_cmds_hset: "list_all is_hset (bulk_cmds st rules)"
  by (auto simp: bulk_cmds_def put_cmds_def meta_cmd_def list_all_iff)

lemma rerun_after_prefix:
  assumes "redis_laws api" "list_all is_hset cs"
  shows "hget api (fst (execute_pipe api (fst (execute_pipe api db (take n cs))) cs)) k f
    = hget api (fst (execute_pipe api db cs)) k f"
proof -
  have t: "list_all is_hset (take n cs)" using assms(2) by (auto simp: list_all_iff dest: in_set_takeD)
  have "last_write (take n cs) k f = None" if "last_write cs k f = None"
    using that last_write_append[of "take n cs" "drop n cs" k f] by (auto split: option.splits)
  then show ?thesis
    using hget_last_write[OF assms(1) t] hget_last_write[OF assms] by (auto split: option.splits)
qed


section \<open>delete\<close>

lemma rs_delete_represents:
  assumes "redis_laws api" "store_ok st" "represents api st db A" "CHR '':'' \<notin> set p"
  shows "\<exists>db'. rs_delete api st db p port f = Inr (db', A (p, port, f) \<noteq> None)
    \<and> represents api st db' (A((p, port, f) := None))"
proof -
  let ?ks = "keys_of st (p, port)"
  have some: "hget api db k f \<noteq> None \<longleftrightarrow> A (p, port, f) \<noteq> None" if "k \<in> set ?ks" for k
    using assms(3,4) that by (auto simp: represents_def value_of_def)
  have len: "length ?ks > 0"
    using keys_for_pattern_Inr(2)[OF assms(2), of p port] by (auto simp: is_replicated_def)
  have upd: "represents api st db' (A((p, port, f) := None))"
    if "\<And>k g. hget api db' k g = (if k \<in> set ?ks \<and> g = f then None else hget api db k g)" for db'
    by (rule represents_update[OF assms(3,4)]) (simp add: that value_of_def)
  show ?thesis
  proof (cases "length ?ks = 1")
    case True
    then obtain k0 where k0: "?ks = [k0]"
      by (metis One_nat_def length_0_conv length_Suc_conv)
    have "represents api st (hdel api db k0 f) (A((p, port, f) := None))"
      by (rule upd) (simp add: k0 redis_lawsD[OF assms(1)])
    then show ?thesis
      using keys_for_pattern_Inr(1)[OF assms(2), of p port] k0 some[of k0]
      by (auto simp: rs_delete_def redis_lawsD[OF assms(1)])
  next
    case False
    let ?r = "execute_pipe api db (map (\<lambda>key. PHdel key f) ?ks)"
    have "represents api st (fst ?r) (A((p, port, f) := None))"
      by (rule upd) (rule hget_pipe_hdel[OF assms(1)])
    moreover have "list_ex (\<lambda>n. n \<noteq> 0) (snd ?r) \<longleftrightarrow> A (p, port, f) \<noteq> None"
      unfolding replies_pipe_hdel[OF assms(1)]
      using some len by (metis length_greater_0_conv list.set_sel(1))
    ultimately show ?thesis
      using keys_for_pattern_Inr(1)[OF assms(2), of p port] False
      by (auto simp: rs_delete_def case_prod_unfold Let_def)
  qed
qed

end
