(* ===== verification/Router_Lookup.thy ===== *)
theory Router_Lookup
  imports Router_Store
begin

text \<open>
  The lookup. The specification reads the abstract rule table: a rule applies to a query when
  both its patterns cover it and its scope shows it at their ranks, and the answer is the
  applicable rule of least rank pair. The proof goes from the cells the Lua script scans,
  through the hit of one group, to the minimum over the groups.
\<close>

section \<open>What a lookup should return\<close>

text \<open>The rank of a pattern that covers a query, read off the two texts.\<close>

definition rank_of :: "string \<Rightarrow> string \<Rightarrow> nat" where
  "rank_of p q =
     (if p = q then 0 else if p = ''*'' then GLOBAL_RANK else num_labels q - num_labels (drop 2 p))"

text \<open>
  Scope restricts how far a wildcard reaches: an all-literal hit is always visible, a hit
  that strips two labels or more on either side is deep.
\<close>

definition visible :: "wildcard_scope \<Rightarrow> nat \<Rightarrow> nat \<Rightarrow> bool" where
  "visible scope r1 r2 \<longleftrightarrow>
     (r1 = 0 \<and> r2 = 0) \<or>
     (case scope of BOTH \<Rightarrow> True
      | SINGLE \<Rightarrow> \<not> is_deep r1 \<and> \<not> is_deep r2
      | MULTI \<Rightarrow> is_deep r1 \<or> is_deep r2)"

definition applies ::
  "rule_table \<Rightarrow> match_mode \<Rightarrow> string \<Rightarrow> int \<Rightarrow> string \<Rightarrow> string \<Rightarrow> string \<Rightarrow> string \<Rightarrow> bool" where
  "applies A mode q1 port q2 p1 p2 rule_id \<longleftrightarrow>
     pattern_matches mode p1 q1 \<and> pattern_matches mode p2 q2 \<and>
     (\<exists>scope. A (p1, port, p2) = Some (scope, rule_id)
        \<and> visible scope (rank_of p1 q1) (rank_of p2 q2))"

definition best_match ::
  "rule_table \<Rightarrow> match_mode \<Rightarrow> string \<Rightarrow> int \<Rightarrow> string \<Rightarrow> rule_match option \<Rightarrow> bool" where
  "best_match A mode q1 port q2 res =
     (case res of
        None \<Rightarrow> \<forall>p1 p2 rule_id. \<not> applies A mode q1 port q2 p1 p2 rule_id
      | Some m \<Rightarrow>
          applies A mode q1 port q2 (m_fqdn1_pattern m) (m_fqdn2_pattern m) (m_rule_id m)
          \<and> m_port m = port
          \<and> m_specificity m = (rank_of (m_fqdn1_pattern m) q1, rank_of (m_fqdn2_pattern m) q2)
          \<and> (\<forall>p1 p2 rule_id. applies A mode q1 port q2 p1 p2 rule_id
               \<longrightarrow> m_specificity m \<le> (rank_of p1 q1, rank_of p2 q2)))"

lemma rank_of_pattern_at:
  assumes "clean q" "r \<in> set (ranks mode (num_labels q))"
  shows "rank_of (pattern_at q r) q = r"
proof -
  consider "r = 0" | "r = GLOBAL_RANK" | "1 \<le> r" "r < num_labels q" "r \<noteq> GLOBAL_RANK"
    using assms(2) by (auto simp: set_ranks)
  then show ?thesis
  proof cases
    case 1
    then show ?thesis by (simp add: pattern_at_def rank_of_def)
  next
    case 2
    then show ?thesis
      using clean_no_star[OF assms(1)] by (auto simp: pattern_at_def rank_of_def GLOBAL_RANK_def)
  next
    case 3
    let ?ls = "split_on (CHR ''.'') q"
    have p: "pattern_at q r = ''*.'' @ join ''.'' (drop r ?ls)"
      using 3 by (simp add: pattern_at_def)
    have "num_labels (join ''.'' (drop r ?ls)) = num_labels q - r"
      using 3 by (simp add: split_on_drop_join)
    moreover have "CHR ''*'' \<in> set (pattern_at q r)" by (simp add: p)
    then have "pattern_at q r \<noteq> q" using clean_no_star[OF assms(1)] by metis
    moreover have "pattern_at q r \<noteq> ''*''" by (simp add: p)
    ultimately show ?thesis using 3 by (simp add: rank_of_def p)
  qed
qed


section \<open>Grouping by tag\<close>

lemma map_of_add_group:
  "map_of (add_group gs c) t =
     (if t = c_tag c then Some (case map_of gs t of None \<Rightarrow> [c] | Some g \<Rightarrow> g @ [c])
      else map_of gs t)"
  by (induction gs c rule: add_group.induct) auto

lemma fst_add_group: "fst ` set (add_group gs c) = insert (c_tag c) (fst ` set gs)"
  by (induction gs c rule: add_group.induct) auto

lemma distinct_add_group: "distinct (map fst gs) \<Longrightarrow> distinct (map fst (add_group gs c))"
proof (induction gs c rule: add_group.induct)
  case (1 c)
  show ?case by simp
next
  case (2 t g gs c)
  then show ?case using fst_add_group[of gs c] by auto
qed

lemma group_by_tag_spec:
  "distinct (map fst (group_by_tag cs))
   \<and> map_of (group_by_tag cs) t =
      (let g = filter (\<lambda>c. c_tag c = t) cs in if g = [] then None else Some g)"
proof (induction cs rule: rev_induct)
  case Nil
  show ?case by (simp add: group_by_tag_def)
next
  case (snoc c cs)
  have e: "group_by_tag (cs @ [c]) = add_group (group_by_tag cs) c"
    by (simp add: group_by_tag_def)
  show ?case
    unfolding e map_of_add_group
    using snoc distinct_add_group[of "group_by_tag cs" c] by (auto simp: Let_def)
qed

lemma group_by_tag_mem:
  assumes "(t, g) \<in> set (group_by_tag cs)"
  shows "g = filter (\<lambda>c. c_tag c = t) cs \<and> g \<noteq> []"
proof -
  have "map_of (group_by_tag cs) t = Some g"
    using group_by_tag_spec assms by (metis map_of_is_SomeI)
  then show ?thesis using group_by_tag_spec[of cs t] by (auto simp: Let_def split: if_splits)
qed

lemma group_by_tag_tags: "fst ` set (group_by_tag cs) = c_tag ` set cs"
proof (induction cs rule: rev_induct)
  case Nil
  show ?case by (simp add: group_by_tag_def)
next
  case (snoc c cs)
  then show ?case by (simp add: group_by_tag_def fst_add_group)
qed

lemma group_by_tag_covers:
  assumes "c \<in> set cs"
  shows "\<exists>tg\<in>set (group_by_tag cs). c \<in> set (snd tg)"
proof -
  have "c_tag c \<in> fst ` set (group_by_tag cs)" using assms by (simp add: group_by_tag_tags)
  then obtain g where g: "(c_tag c, g) \<in> set (group_by_tag cs)" by auto
  with group_by_tag_mem[OF g] assms show ?thesis by (intro bexI[OF _ g]) simp
qed

lemma length_group_by_tag: "length (group_by_tag cs) = card (c_tag ` set cs)"
proof -
  have "distinct (map fst (group_by_tag cs))" using group_by_tag_spec by blast
  from distinct_card[OF this] show ?thesis by (simp add: group_by_tag_tags)
qed


section \<open>The script on one group\<close>

lemma lua_bits_bit_list [simp]: "lua_bits (bit_list bs) = bs"
proof (cases "bs = []")
  case True
  then show ?thesis by (simp add: lua_bits_def bit_list_def)
next
  case False
  let ?f = "\<lambda>b. if b then ''1'' else ''0''"
  have "split_on (CHR '','') (bit_list bs) = map ?f bs"
    unfolding bit_list_def by (rule split_on_join) (use False in auto)
  moreover have "filter (\<lambda>b. b \<noteq> []) (map ?f bs) = map ?f bs" by (rule filter_True) auto
  moreover have "map ((\<lambda>b. b = ''1'') \<circ> ?f) bs = map id bs" by (rule map_cong) auto
  ultimately show ?thesis by (simp add: lua_bits_def)
qed

text \<open>What the script sees for candidate \<open>c\<close> and field \<open>b\<close> of the table.\<close>

definition cell :: "rule_table \<Rightarrow> int \<Rightarrow> candidate \<Rightarrow> field_candidate \<Rightarrow> string option" where
  "cell A port c b =
     (case A (c_pattern c, port, f_pattern b) of
        None \<Rightarrow> None
      | Some (scope, rule_id) \<Rightarrow>
          if visible scope (c_rank c) (f_rank b) then Some rule_id else None)"

definition row_of :: "rule_table \<Rightarrow> int \<Rightarrow> candidate \<Rightarrow> field_candidate list \<Rightarrow> string option list" where
  "row_of A port c bs = map (\<lambda>b. value_of (A (c_pattern c, port, f_pattern b))) bs"

lemma blocked_visible:
  "lua_blocked (r1 = 0 \<and> r2 = 0) (is_deep r1 \<or> is_deep r2) (scope_value scope @ s)
     \<longleftrightarrow> \<not> visible scope r1 r2"
  by (cases scope) (auto simp: lua_blocked_def visible_def Let_def)

text \<open>
  The fields carry distinct ranks, and only the first has rank 0, so \<open>j == 1\<close> in the script
  is exactness on that side.
\<close>

definition fields_ok :: "field_candidate list \<Rightarrow> bool" where
  "fields_ok bs \<longleftrightarrow> sorted_wrt (<) (map f_rank bs)
     \<and> (\<forall>i<length bs. f_needs_multi (bs ! i) = is_deep (f_rank (bs ! i))
          \<and> (f_rank (bs ! i) = 0 \<longleftrightarrow> i = 0))"

definition group_ok :: "candidate list \<Rightarrow> bool" where
  "group_ok g \<longleftrightarrow> sorted_wrt (<) (map c_rank g)
     \<and> (\<forall>c\<in>set g. c_needs_multi c = is_deep (c_rank c))"

text \<open>The first visible cell of a row, from position \<open>n\<close> on.\<close>

lemma lua_vals_spec:
  assumes bs: "fields_ok bs"
    and kx: "lua_get kexact i \<longleftrightarrow> c_rank c = 0" and km: "lua_get kmulti i \<longleftrightarrow> is_deep (c_rank c)"
    and n: "n \<le> length bs"
  shows "case lua_vals kmulti kexact (map f_needs_multi bs) i (Suc n) (drop n (row_of A port c bs)) of
      None \<Rightarrow> (\<forall>j. n \<le> j \<and> j < length bs \<longrightarrow> cell A port c (bs ! j) = None)
    | Some (i', j', rid) \<Rightarrow> i' = i \<and> n < j' \<and> j' \<le> length bs \<and> cell A port c (bs ! (j' - 1)) = Some rid
        \<and> (\<forall>j. n \<le> j \<and> j < j' - 1 \<longrightarrow> cell A port c (bs ! j) = None)"
    (is "?P n")
  using n
proof (induction "length bs - n" arbitrary: n)
  case 0
  then show ?case by (auto simp: row_of_def)
next
  case (Suc d)
  then have lt: "n < length bs" by simp
  let ?L = "\<lambda>n. lua_vals kmulti kexact (map f_needs_multi bs) i (Suc n) (drop n (row_of A port c bs))"
  let ?e = "A (c_pattern c, port, f_pattern (bs ! n))"
  have IH: "?P (Suc n)" by (rule Suc.hyps(1)) (use Suc.hyps(2) lt in auto)
  have d: "drop n (row_of A port c bs) = value_of ?e # drop (Suc n) (row_of A port c bs)"
    using lt by (simp add: row_of_def Cons_nth_drop_Suc[symmetric])
  have ex: "lua_get kexact i \<and> Suc n = 1 \<longleftrightarrow> c_rank c = 0 \<and> f_rank (bs ! n) = 0"
    using kx bs lt by (auto simp: fields_ok_def)
  have dp: "lua_get kmulti i \<or> lua_get (map f_needs_multi bs) (Suc n)
      \<longleftrightarrow> is_deep (c_rank c) \<or> is_deep (f_rank (bs ! n))"
    using km bs lt by (auto simp: fields_ok_def lua_get_def)
  have step: "?L n = (case cell A port c (bs ! n) of
      Some rid \<Rightarrow> Some (i, Suc n, rid) | None \<Rightarrow> ?L (Suc n))"
  proof (cases ?e)
    case None
    then show ?thesis unfolding d by (simp add: value_of_def cell_def)
  next
    case (Some sr)
    obtain scope rid where sr: "sr = (scope, rid)" by (cases sr)
    show ?thesis
      unfolding d using Some sr blocked_visible[of "c_rank c" "f_rank (bs ! n)" scope rid]
      by (simp add: value_of_def cell_def Let_def ex[simplified] dp)
  qed
  show ?case
  proof (cases "cell A port c (bs ! n)")
    case (Some rid)
    then show ?thesis unfolding step using lt by auto
  next
    case None
    have "cell A port c (bs ! j) = None" if "n \<le> j" "\<not> Suc n \<le> j" for j
      using that None by (simp add: le_antisym not_less_eq_eq)
    then show ?thesis unfolding step None option.case
      using IH by (auto split: option.splits)
  qed
qed


lemma lua_keys_spec:
  assumes bs: "fields_ok bs" and g: "group_ok g" and l: "length ks = length g"
    and row: "\<And>i. i < length g \<Longrightarrow> hmget api db (ks ! i) flds = row_of A port (g ! i) bs"
    and n: "n \<le> length g"
  shows "case lua_keys api db (map c_needs_multi g) (map (\<lambda>c. c_rank c = 0) g)
            (map f_needs_multi bs) flds (Suc n) (drop n ks) of
      None \<Rightarrow> (\<forall>i. n \<le> i \<and> i < length g \<longrightarrow> (\<forall>b\<in>set bs. cell A port (g ! i) b = None))
    | Some (i', j', rid) \<Rightarrow> n < i' \<and> i' \<le> length g \<and> 0 < j' \<and> j' \<le> length bs
        \<and> cell A port (g ! (i' - 1)) (bs ! (j' - 1)) = Some rid
        \<and> (\<forall>i. n \<le> i \<and> i < i' - 1 \<longrightarrow> (\<forall>b\<in>set bs. cell A port (g ! i) b = None))
        \<and> (\<forall>j. j < j' - 1 \<longrightarrow> cell A port (g ! (i' - 1)) (bs ! j) = None)"
    (is "?P n")
  using n
proof (induction "length g - n" arbitrary: n)
  case 0
  then show ?case using l by auto
next
  case (Suc d)
  then have lt: "n < length g" by simp
  let ?kx = "map (\<lambda>c. c_rank c = 0) g" and ?km = "map c_needs_multi g"
  let ?V = "lua_vals ?km ?kx (map f_needs_multi bs) (Suc n) 1 (row_of A port (g ! n) bs)"
  let ?K = "\<lambda>n. lua_keys api db ?km ?kx (map f_needs_multi bs) flds (Suc n) (drop n ks)"
  have IH: "?P (Suc n)" by (rule Suc.hyps(1)) (use Suc.hyps(2) lt in auto)
  have d: "drop n ks = ks ! n # drop (Suc n) ks" using lt l by (simp add: Cons_nth_drop_Suc)
  have kx: "lua_get ?kx (Suc n) \<longleftrightarrow> c_rank (g ! n) = 0"
    and km: "lua_get ?km (Suc n) \<longleftrightarrow> is_deep (c_rank (g ! n))"
    using lt g by (auto simp: lua_get_def group_ok_def)
  have V: "case ?V of
      None \<Rightarrow> (\<forall>j. j < length bs \<longrightarrow> cell A port (g ! n) (bs ! j) = None)
    | Some (i', j', rid) \<Rightarrow> i' = Suc n \<and> 0 < j' \<and> j' \<le> length bs
        \<and> cell A port (g ! n) (bs ! (j' - 1)) = Some rid
        \<and> (\<forall>j. j < j' - 1 \<longrightarrow> cell A port (g ! n) (bs ! j) = None)"
    using lua_vals_spec[OF bs kx km, of 0 A port] by (auto split: option.splits)
  have step: "?K n = (case ?V of Some hit \<Rightarrow> Some hit | None \<Rightarrow> ?K (Suc n))"
    unfolding d by (cases ?V) (simp_all add: row[OF lt])
  show ?case
  proof (cases ?V)
    case (Some hit)
    obtain i' j' rid where h: "hit = (i', j', rid)" by (cases hit)
    show ?thesis unfolding step Some using V[unfolded Some h] lt by (auto simp: h)
  next
    case None
    have "cell A port (g ! i) b = None" if "n \<le> i" "\<not> Suc n \<le> i" "b \<in> set bs" for i b
    proof -
      have "i = n" using that by simp
      then show ?thesis using V[unfolded None] that(3) by (auto simp: in_set_conv_nth)
    qed
    then show ?thesis unfolding step None option.case
      using IH by (auto split: option.splits)
  qed
qed


section \<open>The least hit\<close>

type_synonym hit = "nat \<times> nat \<times> string \<times> string \<times> string"

definition hit_key :: "hit \<Rightarrow> nat \<times> nat" where
  "hit_key h = (fst h, fst (snd h))"

definition hits :: "rule_table \<Rightarrow> int \<Rightarrow> candidate set \<Rightarrow> field_candidate set \<Rightarrow> hit set" where
  "hits A port as bs =
     {(c_rank a, f_rank b, c_pattern a, f_pattern b, rid) | a b rid.
        a \<in> as \<and> b \<in> bs \<and> cell A port a b = Some rid}"

definition least_hit :: "hit set \<Rightarrow> hit option \<Rightarrow> bool" where
  "least_hit H best =
     (case best of None \<Rightarrow> H = {} | Some h \<Rightarrow> h \<in> H \<and> (\<forall>h'\<in>H. hit_key h \<le> hit_key h'))"

lemma hits_Un: "hits A port (as \<union> as') bs = hits A port as bs \<union> hits A port as' bs"
  by (auto simp: hits_def)

lemma hits_empty [simp]: "hits A port {} bs = {}"
  by (simp add: hits_def)

lemma hitsI:
  "a \<in> as \<Longrightarrow> b \<in> bs \<Longrightarrow> cell A port a b = Some rid \<Longrightarrow>
     (c_rank a, f_rank b, c_pattern a, f_pattern b, rid) \<in> hits A port as bs"
  by (auto simp: hits_def)

text \<open>The hit a group reply stands for.\<close>

definition hit_of ::
  "candidate list \<Rightarrow> field_candidate list \<Rightarrow> (nat \<times> nat \<times> string) option \<Rightarrow> hit option" where
  "hit_of g bs raw =
     map_option (\<lambda>(i, j, rid). (c_rank (g ! (i - 1)), f_rank (bs ! (j - 1)),
        c_pattern (g ! (i - 1)), f_pattern (bs ! (j - 1)), rid)) raw"

lemma least_hit_pick:
  assumes "h \<in> H" "\<And>h'. h' \<in> H \<Longrightarrow> hit_key h \<le> hit_key h'"
    and "n \<in> H'" "\<And>h'. h' \<in> H' \<Longrightarrow> hit_key n \<le> hit_key h'"
  shows "least_hit (H \<union> H') (Some (if hit_key n < hit_key h then n else h))"
proof (cases "hit_key n < hit_key h")
  case True
  have "hit_key n \<le> hit_key h'" if "h' \<in> H \<union> H'" for h'
    using that assms(2,4) True by (meson Un_iff less_imp_le order.trans)
  with True assms(3) show ?thesis by (simp add: least_hit_def)
next
  case False
  then have "hit_key h \<le> hit_key n" by simp
  then have "hit_key h \<le> hit_key h'" if "h' \<in> H \<union> H'" for h'
    using that assms(2,4) by (meson Un_iff order.trans)
  with False assms(1) show ?thesis by (simp add: least_hit_def)
qed

lemma least_hit_better:
  assumes "least_hit H best" "least_hit H' (hit_of g bs raw)"
  shows "least_hit (H \<union> H') (better bs best ((t, g), raw))"
proof (cases raw)
  case None
  then show ?thesis using assms by (simp add: better_def hit_of_def least_hit_def)
next
  case (Some ijr)
  obtain i j rid where r: "ijr = (i, j, rid)" by (cases ijr)
  let ?new = "(c_rank (g ! (i - 1)), f_rank (bs ! (j - 1)),
     c_pattern (g ! (i - 1)), f_pattern (bs ! (j - 1)), rid)"
  have new: "?new \<in> H'" "\<And>h'. h' \<in> H' \<Longrightarrow> hit_key ?new \<le> hit_key h'"
    using assms(2) by (auto simp: Some r hit_of_def least_hit_def)
  show ?thesis
  proof (cases best)
    case None
    then show ?thesis
      using assms(1) new by (simp add: better_def Some r Let_def least_hit_def)
  next
    case (Some h)
    obtain ra rb rest where h: "h = (ra, rb, rest)" by (cases h)
    have old: "h \<in> H" "\<And>h'. h' \<in> H \<Longrightarrow> hit_key h \<le> hit_key h'"
      using assms(1) by (auto simp: Some least_hit_def)
    have b: "better bs best ((t, g), raw) = Some (if hit_key ?new < hit_key h then ?new else h)"
      using \<open>raw = Some ijr\<close> Some by (simp add: better_def r h Let_def hit_key_def)
    show ?thesis unfolding b by (rule least_hit_pick) (use new old in auto)
  qed
qed

lemma least_hit_foldl:
  assumes "\<And>t g raw. ((t, g), raw) \<in> set gr \<Longrightarrow> least_hit (hits A port (set g) bs') (hit_of g bs raw)"
    and "least_hit (hits A port as bs') best"
  shows "least_hit (hits A port (as \<union> (\<Union>x\<in>set gr. set (snd (fst x)))) bs') (foldl (better bs) best gr)"
  using assms
proof (induction gr arbitrary: as best)
  case Nil
  then show ?case by simp
next
  case (Cons x gr)
  obtain t g raw where x: "x = ((t, g), raw)" by (metis surj_pair)
  have "least_hit (hits A port (as \<union> set g) bs') (better bs best x)"
    unfolding hits_Un x by (rule least_hit_better) (use Cons.prems x in auto)
  then have "least_hit (hits A port (as \<union> set g \<union> (\<Union>x\<in>set gr. set (snd (fst x)))) bs')
      (foldl (better bs) (better bs best x) gr)"
    by (rule Cons.IH[rotated]) (use Cons.prems in auto)
  then show ?case by (simp add: x Un_assoc)
qed

lemma lex_less_rank:
  assumes g: "group_ok g" and bs: "fields_ok bs" and i: "i < length g" "i' < length g"
    and j: "j < length bs" "j' < length bs" and le: "i < i' \<or> (i = i' \<and> j \<le> j')"
  shows "(c_rank (g ! i), f_rank (bs ! j)) \<le> (c_rank (g ! i'), f_rank (bs ! j'))"
proof -
  have "c_rank (g ! i) < c_rank (g ! i')" if "i < i'"
    using g that i sorted_wrt_nth_less[of "(<)" "map c_rank g" i i'] by (auto simp: group_ok_def)
  moreover have "f_rank (bs ! j) \<le> f_rank (bs ! j')" if "j \<le> j'"
    using bs that j sorted_wrt_nth_less[of "(<)" "map f_rank bs" j j']
    by (cases "j = j'") (auto simp: fields_ok_def)
  ultimately show ?thesis using le by (auto simp: less_eq_prod_def)
qed

lemma group_least_hit:
  assumes bs: "fields_ok bs" and g: "group_ok g" and l: "length ks = length g"
    and row: "\<And>i. i < length g \<Longrightarrow> hmget api db (ks ! i) flds = row_of A port (g ! i) bs"
  shows "least_hit (hits A port (set g) (set bs))
    (hit_of g bs (lua_keys api db (map c_needs_multi g) (map (\<lambda>c. c_rank c = 0) g)
            (map f_needs_multi bs) flds 1 ks))"
    (is "least_hit _ (hit_of g bs ?raw)")
proof (cases ?raw)
  case None
  have "\<forall>i<length g. \<forall>b\<in>set bs. cell A port (g ! i) b = None"
    using lua_keys_spec[OF bs g l row, of 0] None by simp
  then have "cell A port a b = None" if "a \<in> set g" "b \<in> set bs" for a b
    using that by (metis in_set_conv_nth)
  then show ?thesis unfolding None by (auto simp: hit_of_def least_hit_def hits_def)
next
  case (Some ijr)
  obtain i j rid where r: "ijr = (i, j, rid)" by (cases ijr)
  have s: "0 < i" "i \<le> length g" "0 < j" "j \<le> length bs"
    "cell A port (g ! (i - 1)) (bs ! (j - 1)) = Some rid"
    "\<And>i0 b. i0 < i - 1 \<Longrightarrow> b \<in> set bs \<Longrightarrow> cell A port (g ! i0) b = None"
    "\<And>j0. j0 < j - 1 \<Longrightarrow> cell A port (g ! (i - 1)) (bs ! j0) = None"
    using lua_keys_spec[OF bs g l row, of 0] Some r by auto
  let ?h = "(c_rank (g ! (i - 1)), f_rank (bs ! (j - 1)),
     c_pattern (g ! (i - 1)), f_pattern (bs ! (j - 1)), rid)"
  have "?h \<in> hits A port (set g) (set bs)"
    by (rule hitsI) (use s(1-5) in auto)
  moreover have "hit_key ?h \<le> hit_key h" if hh: "h \<in> hits A port (set g) (set bs)" for h
  proof -
    obtain a b rid' where h: "h = (c_rank a, f_rank b, c_pattern a, f_pattern b, rid')"
      "a \<in> set g" "b \<in> set bs" "cell A port a b = Some rid'"
      using hh unfolding hits_def by blast
    obtain i0 where i0: "i0 < length g" "a = g ! i0" using h(2) by (auto simp: in_set_conv_nth)
    obtain j0 where j0: "j0 < length bs" "b = bs ! j0" using h(3) by (auto simp: in_set_conv_nth)
    have "\<not> i0 < i - 1" using s(6)[of i0 b] h(3,4) i0(2) by auto
    moreover have "\<not> (i0 = i - 1 \<and> j0 < j - 1)" using s(7)[of j0] h(4) i0(2) j0(2) by auto
    ultimately have "i - 1 < i0 \<or> (i - 1 = i0 \<and> j - 1 \<le> j0)" by linarith
    then have "(c_rank (g ! (i - 1)), f_rank (bs ! (j - 1))) \<le> (c_rank (g ! i0), f_rank (bs ! j0))"
      by (rule lex_less_rank[OF g bs _ i0(1) _ j0(1), rotated -1]) (use s in auto)
    then show ?thesis by (simp add: hit_key_def h(1) i0(2) j0(2))
  qed
  ultimately show ?thesis
    unfolding Some r by (simp add: hit_of_def least_hit_def)
qed


section \<open>The keys and bits the lookup hands to the script\<close>

lemma fields_ok_candidates: "clean q \<Longrightarrow> fields_ok (field_candidates q mode)"
  unfolding fields_ok_def
  using field.rk_sorted[of q mode] field.gen_deep[of q _ mode] field.rk_zero[of q _ mode]
  by (metis nth_mem)

lemma group_ok_filter: "clean q \<Longrightarrow> group_ok (filter P (candidates q mode nb))"
  unfolding group_ok_def
  using cand.rk_sorted[of q mode nb] cand.gen_deep[of q _ mode nb]
  by (auto simp: sorted_wrt_map intro: sorted_wrt_filter)

lemma colon_pattern_at: "CHR '':'' \<notin> set q \<Longrightarrow> CHR '':'' \<notin> set (pattern_at q r)"
proof -
  assume q: "CHR '':'' \<notin> set q"
  have "CHR '':'' \<notin> set (join ''.'' (drop r (split_on (CHR ''.'') q)))"
    using set_join[of "''.''" "drop r (split_on (CHR ''.'') q)"] q
    by (auto dest!: in_set_dropD set_split_on)
  then show ?thesis using q by (simp add: pattern_at_def)
qed

lemma group_keys:
  assumes "store_ok st" "g = filter (\<lambda>c. c_tag c = t) (candidates q mode (rs_num_buckets st))"
  obtains ks where
    "mapR (\<lambda>c. rs_key st t (c_bucket_index c) (c_pattern c) port) g = Inr ks"
    "length ks = length g"
    "\<And>i. i < length g \<Longrightarrow> ks ! i \<in> set (keys_of st (c_pattern (g ! i), port))"
proof -
  have "\<exists>k. rs_key st t (c_bucket_index c) (c_pattern c) port = Inr k
      \<and> k \<in> set (keys_of st (c_pattern c, port))" if "c \<in> set g" for c
  proof -
    have c: "c \<in> set (candidates q mode (rs_num_buckets st))" "c_tag c = t"
      using that assms(2) by auto
    have b: "0 \<le> c_bucket_index c" "rs_num_buckets st > 1 \<Longrightarrow> c_bucket_index c < rs_num_buckets st"
      using candidate_bucket[OF c(1)] bucket_of_range by auto
    have t: "t = hash_tag (c_pattern c)" using candidate_tag_hash c by blast
    obtain k where "rs_key st t (c_bucket_index c) (c_pattern c) port = Inr k"
      using rs_key_ok[OF assms(1) b] by blast
    with keys_of_contains[OF assms(1) _ b] t show ?thesis by auto
  qed
  then obtain f where f: "\<And>c. c \<in> set g \<Longrightarrow>
      rs_key st t (c_bucket_index c) (c_pattern c) port = Inr (f c)
      \<and> f c \<in> set (keys_of st (c_pattern c, port))"
    by metis
  show ?thesis
    by (rule that[of "map f g"]) (use f in \<open>auto intro: mapR_Inr\<close>)
qed

lemma group_reply_least:
  assumes "redis_laws api" "store_ok st" "represents api st db A"
    and q: "clean q1" "CHR '':'' \<notin> set q1" and bs: "fields_ok bs"
    and tg: "(t, g) \<in> set (group_by_tag (candidates q1 mode (rs_num_buckets st)))"
  shows "\<exists>raw. group_reply api st db port (bit_list (map f_needs_multi bs)) (map f_pattern bs) (t, g)
      = Inr raw \<and> least_hit (hits A port (set g) (set bs)) (hit_of g bs raw)"
proof -
  have g: "g = filter (\<lambda>c. c_tag c = t) (candidates q1 mode (rs_num_buckets st))"
    using group_by_tag_mem[OF tg] by blast
  obtain ks where ks: "mapR (\<lambda>c. rs_key st t (c_bucket_index c) (c_pattern c) port) g = Inr ks"
    "length ks = length g"
    "\<And>i. i < length g \<Longrightarrow> ks ! i \<in> set (keys_of st (c_pattern (g ! i), port))"
    using group_keys[OF assms(2) g] by blast
  have row: "hmget api db (ks ! i) (map f_pattern bs) = row_of A port (g ! i) bs"
    if "i < length g" for i
  proof -
    have "g ! i \<in> set (candidates q1 mode (rs_num_buckets st))"
      using nth_mem[OF that] by (subst (asm) g) simp
    then have "CHR '':'' \<notin> set (c_pattern (g ! i))"
      using cand.gen_pat[OF q(1)] colon_pattern_at[OF q(2)] by metis
    then show ?thesis
      using ks(3)[OF that] assms(3)
      by (simp add: redis_lawsD(4)[OF assms(1)] row_of_def represents_def)
  qed
  show ?thesis
    using group_least_hit[OF bs _ ks(2) row]
      group_ok_filter[OF q(1), of "\<lambda>c. c_tag c = t" mode "rs_num_buckets st"]
    by (simp add: group_reply_def ks(1) lua_lookup_def Let_def flip: g)
qed

lemma hits_applies:
  assumes "clean q1" "clean q2"
  shows "(r1, r2, p1, p2, rid) \<in> hits A port (set (candidates q1 mode nb)) (set (field_candidates q2 mode))
    \<longleftrightarrow> applies A mode q1 port q2 p1 p2 rid \<and> r1 = rank_of p1 q1 \<and> r2 = rank_of p2 q2"
    (is "?L \<longleftrightarrow> ?R")
proof -
  have c: "c_pattern c = pattern_at q1 (c_rank c)" "rank_of (c_pattern c) q1 = c_rank c"
    if "c \<in> set (candidates q1 mode nb)" for c
    using cand.gen_pat[OF assms(1) that] cand.rk_mem[OF assms(1) that]
      rank_of_pattern_at[OF assms(1)] by auto
  have f: "f_pattern b = pattern_at q2 (f_rank b)" "rank_of (f_pattern b) q2 = f_rank b"
    if "b \<in> set (field_candidates q2 mode)" for b
    using field.gen_pat[OF assms(2) that] field.rk_mem[OF assms(2) that]
      rank_of_pattern_at[OF assms(2)] by auto
  have pc: "pattern_matches mode p q1 \<longleftrightarrow> (\<exists>c\<in>set (candidates q1 mode nb). p = c_pattern c)" for p
    using cand.covers[OF assms(1), of mode nb] by blast
  have pf: "pattern_matches mode p q2 \<longleftrightarrow> (\<exists>b\<in>set (field_candidates q2 mode). p = f_pattern b)" for p
    using field.covers[OF assms(2), of mode] by blast
  have "?L \<longleftrightarrow> (\<exists>a\<in>set (candidates q1 mode nb). \<exists>b\<in>set (field_candidates q2 mode).
      r1 = c_rank a \<and> r2 = f_rank b \<and> p1 = c_pattern a \<and> p2 = f_pattern b
      \<and> cell A port a b = Some rid)"
    by (auto simp: hits_def)
  also have "\<dots> \<longleftrightarrow> (\<exists>a\<in>set (candidates q1 mode nb). \<exists>b\<in>set (field_candidates q2 mode).
      r1 = rank_of p1 q1 \<and> r2 = rank_of p2 q2 \<and> p1 = c_pattern a \<and> p2 = f_pattern b
      \<and> (\<exists>scope. A (p1, port, p2) = Some (scope, rid) \<and> visible scope (rank_of p1 q1) (rank_of p2 q2)))"
    by (intro bex_cong refl) (auto simp: cell_def c(2) f(2) split: option.splits prod.splits if_splits)
  also have "\<dots> \<longleftrightarrow> ?R" unfolding applies_def pc pf by blast
  finally show ?thesis .
qed

lemma lookup_least:
  assumes "redis_laws api" "store_ok st" "represents api st db A"
    and q1: "normalize_fqdn f1 = Inr q1" "CHR '':'' \<notin> set q1" and q2: "normalize_fqdn f2 = Inr q2"
    and port: "0 < port" "port < 65536"
  shows "\<exists>res. rs_lookup api st db f1 port f2 mode = Inr res \<and> best_match A mode q1 port q2 res"
proof -
  have c1: "clean q1" and c2: "clean q2" using q1(1) q2 by (auto simp: normalize_fqdn_Inr)
  let ?as = "candidates q1 mode (rs_num_buckets st)"
  let ?bs = "field_candidates q2 mode"
  let ?gs = "group_by_tag ?as"
  have "\<exists>raw. group_reply api st db port (bit_list (map f_needs_multi ?bs)) (map f_pattern ?bs) tg
      = Inr raw \<and> least_hit (hits A port (set (snd tg)) (set ?bs)) (hit_of (snd tg) ?bs raw)"
    if "tg \<in> set ?gs" for tg
    using group_reply_least[OF assms(1-3) c1 q1(2) fields_ok_candidates[OF c2], of "fst tg" "snd tg"] that
    by simp
  then obtain f where f: "\<And>tg. tg \<in> set ?gs \<Longrightarrow>
      group_reply api st db port (bit_list (map f_needs_multi ?bs)) (map f_pattern ?bs) tg = Inr (f tg)
      \<and> least_hit (hits A port (set (snd tg)) (set ?bs)) (hit_of (snd tg) ?bs (f tg))"
    by metis
  have m: "mapR (group_reply api st db port (bit_list (map f_needs_multi ?bs)) (map f_pattern ?bs)) ?gs
      = Inr (map f ?gs)"
    by (rule mapR_Inr) (use f in blast)
  define best where "best = foldl (better ?bs) None (zip ?gs (map f ?gs))"
  have z: "zip ?gs (map f ?gs) = map (\<lambda>tg. (tg, f tg)) ?gs"
    by (simp add: zip_map2 zip_same_conv_map)
  have u: "(\<Union>x\<in>set (zip ?gs (map f ?gs)). set (snd (fst x))) = set ?as"
  proof -
    have "(\<Union>x\<in>set (zip ?gs (map f ?gs)). set (snd (fst x))) = (\<Union>tg\<in>set ?gs. set (snd tg))"
      unfolding z by simp
    also have "\<dots> = set ?as" using group_by_tag_covers group_by_tag_mem by fastforce
    finally show ?thesis .
  qed
  have "least_hit (hits A port ({} \<union> (\<Union>x\<in>set (zip ?gs (map f ?gs)). set (snd (fst x)))) (set ?bs)) best"
    unfolding best_def
  proof (rule least_hit_foldl)
    fix t g raw
    assume "((t, g), raw) \<in> set (zip ?gs (map f ?gs))"
    then have "(t, g) \<in> set ?gs" "raw = f (t, g)" by (auto simp: z)
    then show "least_hit (hits A port (set g) (set ?bs)) (hit_of g ?bs raw)"
      using f[of "(t, g)"] by simp
  qed (simp add: least_hit_def)
  then have L: "least_hit (hits A port (set ?as) (set ?bs)) best" unfolding u by simp
  define res where "res = (case best of None \<Rightarrow> None
     | Some (a_rank, b_rank, a_pattern, b_pattern, rule_id) \<Rightarrow>
         Some \<lparr>m_rule_id = rule_id, m_fqdn1_pattern = a_pattern, m_port = port,
               m_fqdn2_pattern = b_pattern, m_specificity = (a_rank, b_rank)\<rparr>)"
  have "rs_lookup api st db f1 port f2 mode = Inr res"
    using port unfolding rs_lookup_def q1(1) q2 res_def best_def
    by (simp add: validate_port_def Let_def m)
  moreover have "best_match A mode q1 port q2 res"
  proof (cases best)
    case None
    then have "hits A port (set ?as) (set ?bs) = {}" using L by (simp add: least_hit_def)
    then have "\<not> applies A mode q1 port q2 p1 p2 rid" for p1 p2 rid
      using hits_applies[OF c1 c2] by blast
    then show ?thesis by (simp add: best_match_def res_def None)
  next
    case (Some h)
    obtain r1 r2 p1 p2 rid where h: "h = (r1, r2, p1, p2, rid)" by (metis surj_pair)
    have in_h: "applies A mode q1 port q2 p1 p2 rid" "r1 = rank_of p1 q1" "r2 = rank_of p2 q2"
      using L hits_applies[OF c1 c2] by (auto simp: Some h least_hit_def)
    moreover have "(r1, r2) \<le> (rank_of p1' q1, rank_of p2' q2)"
      if "applies A mode q1 port q2 p1' p2' rid'" for p1' p2' rid'
    proof -
      have "(rank_of p1' q1, rank_of p2' q2, p1', p2', rid') \<in> hits A port (set ?as) (set ?bs)"
        using that hits_applies[OF c1 c2] by blast
      then have "hit_key h \<le> hit_key (rank_of p1' q1, rank_of p2' q2, p1', p2', rid')"
        using L unfolding Some least_hit_def by auto
      then show ?thesis by (simp add: h hit_key_def)
    qed
    ultimately show ?thesis by (simp add: best_match_def res_def Some h)
  qed
  ultimately show ?thesis by blast
qed

end
