(* ===== verification/Router_Spec.thy ===== *)
theory Router_Spec
  imports Router_Lookup "HOL-Library.Multiset"
begin

text \<open>
  What the rule store promises its callers, over the whole store: what a lookup returns after
  which writes, the errors, what survives an interrupted or repeated bulk load, the count of
  replicas a namespace is pinned to, and where the keys of one script call live in a cluster.
\<close>

section \<open>A concrete store\<close>

definition store4 :: rule_store where
  "store4 = \<lparr>rs_namespace = ''ns'', rs_num_buckets = 4\<rparr>"

definition no_rules :: rule_table where
  "no_rules x = None"

lemma store4_ok: "store_ok store4"
  by (simp add: store_ok_def store4_def table_4)

lemma mem_represents: "represents mem_api st mem_empty no_rules"
  by (simp add: represents_def mem_api_def mem_empty_def no_rules_def value_of_def)

definition rule_any :: rule where
  "rule_any = mk_rule ''*'' 443 ''a.com'' ''any'' BOTH"

definition rule_sub :: rule where
  "rule_sub = mk_rule ''*.b.com'' 443 ''a.com'' ''sub'' SINGLE"

lemma sample_rules_ok: "rule_ok rule_any" "rule_ok rule_sub"
  by (simp_all add: rule_ok_def rule_any_def rule_sub_def mk_rule_def)

lemma sample_names:
  "normalize_fqdn ''x.b.com'' = Inr ''x.b.com''" "normalize_fqdn ''a.com'' = Inr ''a.com''"
  by code_simp+

lemma sample_side: "CHR '':'' \<notin> set ''x.b.com''" "0 < (443::int)" "(443::int) < 65536"
  by simp_all


section \<open>Lookup\<close>

text \<open>
  C1: Lookup returns the best rule. On a store that shows a table of rules, a query with
  valid names and port gets an answer, and the answer is right: no match exactly when no
  rule of the table applies, otherwise a rule that applies (both patterns cover the query
  under the mode and the scope shows it at their ranks), with its ranks as specificity, and
  no applicable rule has a lexicographically smaller rank pair.
\<close>

theorem lookup_best:
  assumes "redis_laws api" "store_ok st" "represents api st db A"
    and "normalize_fqdn f1 = Inr q1" "CHR '':'' \<notin> set q1" "normalize_fqdn f2 = Inr q2"
    and "0 < port" "port < 65536"
  shows "\<exists>res. rs_lookup api st db f1 port f2 mode = Inr res \<and> best_match A mode q1 port q2 res"
  by (rule lookup_least[OF assms])

theorem lookup_best_witness:
  "\<exists>db res. rs_put mem_api store4 mem_empty rule_any = Inr db
     \<and> rs_lookup mem_api store4 db ''x.b.com'' 443 ''a.com'' MULTI_LEVEL = Inr res
     \<and> best_match (table_put no_rules rule_any) MULTI_LEVEL ''x.b.com'' 443 ''a.com'' res"
proof -
  obtain db where "rs_put mem_api store4 mem_empty rule_any = Inr db"
    "represents mem_api store4 db (table_put no_rules rule_any)"
    using rs_put_represents[OF mem_laws store4_ok mem_represents sample_rules_ok(1)] by blast
  with lookup_best[OF mem_laws store4_ok _ sample_names(1) _ sample_names(2)] show ?thesis
    by fastforce
qed

lemma lookup_Inr:
  assumes "store_ok st" "normalize_fqdn f1 = Inr q1" "normalize_fqdn f2 = Inr q2"
    "validate_port port = Inr ()"
  shows "\<exists>res. rs_lookup api st db f1 port f2 mode = Inr res"
proof -
  let ?as = "candidates q1 mode (rs_num_buckets st)"
  have "\<exists>raw. group_reply api st db port fm fs tg = Inr raw" if "tg \<in> set (group_by_tag ?as)" for tg fm fs
  proof -
    obtain t g where tg: "tg = (t, g)" by (cases tg)
    have g: "g = filter (\<lambda>c. c_tag c = t) ?as" using group_by_tag_mem that unfolding tg by blast
    obtain ks where "mapR (\<lambda>c. rs_key st t (c_bucket_index c) (c_pattern c) port) g = Inr ks"
      using group_keys[OF assms(1) g] by blast
    then show ?thesis by (simp add: group_reply_def tg Let_def)
  qed
  then obtain f where f: "\<And>tg fm fs. tg \<in> set (group_by_tag ?as) \<Longrightarrow>
      group_reply api st db port fm fs tg = Inr (f tg fm fs)"
    by metis
  have "mapR (group_reply api st db port fm fs) (group_by_tag ?as)
      = Inr (map (\<lambda>tg. f tg fm fs) (group_by_tag ?as))" for fm fs
    by (rule mapR_Inr) (rule f)
  then show ?thesis by (simp add: rs_lookup_def assms(2-4) Let_def)
qed

text \<open>
  The errors of a lookup, in order: the first name's rejection, then the second name's,
  then the port's. Nothing else raises, so a lookup of valid arguments always returns.
\<close>

theorem lookup_errors:
  assumes "store_ok st"
  shows "rs_lookup api st db f1 port f2 mode = Inl e \<longleftrightarrow>
     normalize_fqdn f1 = Inl e
     \<or> (\<exists>q1. normalize_fqdn f1 = Inr q1 \<and>
          (normalize_fqdn f2 = Inl e
           \<or> (\<exists>q2. normalize_fqdn f2 = Inr q2
                \<and> (port \<le> 0 \<or> 65536 \<le> port) \<and> e = InvalidFqdn (PortOutOfRange port))))"
proof (cases "normalize_fqdn f1")
  case (Inl a)
  then show ?thesis by (auto simp: rs_lookup_def)
next
  case q1: (Inr q1)
  show ?thesis
  proof (cases "normalize_fqdn f2")
    case (Inl a)
    then show ?thesis by (auto simp: rs_lookup_def q1)
  next
    case q2: (Inr q2)
    show ?thesis
    proof (cases "validate_port port")
      case (Inl a)
      then show ?thesis
        by (auto simp: rs_lookup_def q1 q2 validate_port_def split: if_splits)
    next
      case (Inr u)
      then have v: "validate_port port = Inr ()" by simp
      obtain res where "rs_lookup api st db f1 port f2 mode = Inr res"
        using lookup_Inr[OF assms q1 q2 v, of api db mode] by blast
      moreover have "0 < port" "port < 65536" using v by (simp_all add: validate_port_iff)
      ultimately show ?thesis by (auto simp: q1 q2)
    qed
  qed
qed

theorem lookup_errors_witness:
  "store_ok store4 \<and> rs_lookup mem_api store4 mem_empty ''x.b.com'' 65536 ''a.com'' MULTI_LEVEL
     = Inl (InvalidFqdn (PortOutOfRange 65536))"
  unfolding lookup_errors[OF store4_ok] by (simp add: sample_names store4_ok)

lemma best_matchD:
  assumes "best_match A mode q1 port q2 (Some m)"
  shows "applies A mode q1 port q2 (m_fqdn1_pattern m) (m_fqdn2_pattern m) (m_rule_id m)"
    and "m_port m = port"
    and "m_specificity m = (rank_of (m_fqdn1_pattern m) q1, rank_of (m_fqdn2_pattern m) q2)"
  using assms by (simp_all add: best_match_def)

lemma best_match_le:
  assumes "best_match A mode q1 port q2 (Some m)" "applies A mode q1 port q2 p1 p2 rid"
  shows "m_specificity m \<le> (rank_of p1 q1, rank_of p2 q2)"
  using assms unfolding best_match_def option.case by blast

lemma matches_rank:
  assumes "clean q" "pattern_matches mode p q"
  shows "rank_of p q = 0 \<longleftrightarrow> p = q"
proof
  assume z: "rank_of p q = 0"
  obtain r where "r \<in> set (ranks mode (num_labels q))" "p = pattern_at q r"
    using matches_pattern_at[OF assms] by blast
  with rank_of_pattern_at[OF assms(1)] z show "p = q" by (simp add: pattern_at_def)
qed (simp add: rank_of_def)

text \<open>
  A rule whose two sides are literally the query's names always wins, whatever its scope
  and whatever wildcards also match, in both modes.
\<close>

theorem exact_rule_wins:
  assumes "redis_laws api" "store_ok st" "represents api st db A"
    and "normalize_fqdn f1 = Inr q1" "CHR '':'' \<notin> set q1" "normalize_fqdn f2 = Inr q2"
    and "0 < port" "port < 65536" and A: "A (q1, port, q2) = Some (scope, rule_id)"
  shows "rs_lookup api st db f1 port f2 mode =
     Inr (Some \<lparr>m_rule_id = rule_id, m_fqdn1_pattern = q1, m_port = port,
                m_fqdn2_pattern = q2, m_specificity = (0, 0)\<rparr>)"
proof -
  have c: "clean q1" "clean q2" using assms(4,6) by (auto simp: normalize_fqdn_Inr)
  obtain res where res: "rs_lookup api st db f1 port f2 mode = Inr res"
    "best_match A mode q1 port q2 res"
    using lookup_least[OF assms(1-8)] by blast
  have ap: "applies A mode q1 port q2 q1 q2 rule_id"
    using A by (simp add: applies_def pattern_matches_iff visible_def rank_of_def)
  then obtain m where m: "res = Some m" using res(2) by (cases res) (auto simp: best_match_def)
  note b = best_matchD[OF res(2)[unfolded m]] best_match_le[OF res(2)[unfolded m] ap]
  have z: "rank_of (m_fqdn1_pattern m) q1 = 0" "rank_of (m_fqdn2_pattern m) q2 = 0"
    using b(3,4) by (auto simp: less_eq_prod_def rank_of_def[of q1 q1] rank_of_def[of q2 q2])
  then have p: "m_fqdn1_pattern m = q1" "m_fqdn2_pattern m = q2"
    using b(1) matches_rank c by (auto simp: applies_def)
  then have "m_rule_id m = rule_id" using b(1) A by (auto simp: applies_def)
  with p b(2,3) z have "m = \<lparr>m_rule_id = rule_id, m_fqdn1_pattern = q1, m_port = port,
      m_fqdn2_pattern = q2, m_specificity = (0, 0)\<rparr>" by simp
  then show ?thesis by (simp add: res(1) m)
qed

theorem exact_rule_wins_witness:
  "\<exists>db. rs_put mem_api store4 mem_empty (mk_rule ''x.b.com'' 443 ''a.com'' ''id'' MULTI) = Inr db
     \<and> rs_lookup mem_api store4 db ''x.b.com'' 443 ''a.com'' SINGLE_LEVEL
       = Inr (Some \<lparr>m_rule_id = ''id'', m_fqdn1_pattern = ''x.b.com'', m_port = 443,
                    m_fqdn2_pattern = ''a.com'', m_specificity = (0, 0)\<rparr>)"
proof -
  let ?r = "mk_rule ''x.b.com'' 443 ''a.com'' ''id'' MULTI"
  have "rule_ok ?r" by (simp add: rule_ok_def mk_rule_def)
  then obtain db where "rs_put mem_api store4 mem_empty ?r = Inr db"
    "represents mem_api store4 db (table_put no_rules ?r)"
    using rs_put_represents[OF mem_laws store4_ok mem_represents] by blast
  moreover have "table_put no_rules ?r (''x.b.com'', 443, ''a.com'') = Some (MULTI, ''id'')"
    by (simp add: table_put_def rule_key_def mk_rule_def)
  ultimately show ?thesis
    using exact_rule_wins[OF mem_laws store4_ok _ sample_names(1) _ sample_names(2)] by fastforce
qed

lemma matches_single_multi: "pattern_matches SINGLE_LEVEL p q \<Longrightarrow> pattern_matches MULTI_LEVEL p q"
  by (auto simp: pattern_matches_iff)

text \<open>
  The multi-level mode never loses a match of the single-level mode: when the
  single-level lookup finds a rule, the multi-level lookup of the same query finds one too,
  at least as specific.
\<close>

theorem multi_level_finds_single:
  assumes "redis_laws api" "store_ok st" "represents api st db A"
    and "normalize_fqdn f1 = Inr q1" "CHR '':'' \<notin> set q1" "normalize_fqdn f2 = Inr q2"
    and "0 < port" "port < 65536"
    and "rs_lookup api st db f1 port f2 SINGLE_LEVEL = Inr (Some m)"
  shows "\<exists>m'. rs_lookup api st db f1 port f2 MULTI_LEVEL = Inr (Some m')
     \<and> m_specificity m' \<le> m_specificity m"
proof -
  have "best_match A SINGLE_LEVEL q1 port q2 (Some m)"
    using lookup_least[OF assms(1-8), of SINGLE_LEVEL] assms(9) by auto
  then have ap: "applies A MULTI_LEVEL q1 port q2 (m_fqdn1_pattern m) (m_fqdn2_pattern m) (m_rule_id m)"
    and sp: "m_specificity m = (rank_of (m_fqdn1_pattern m) q1, rank_of (m_fqdn2_pattern m) q2)"
    by (auto simp: best_match_def applies_def matches_single_multi)
  obtain res where res: "rs_lookup api st db f1 port f2 MULTI_LEVEL = Inr res"
    "best_match A MULTI_LEVEL q1 port q2 res"
    using lookup_least[OF assms(1-8)] by blast
  then obtain m' where m': "res = Some m'" using ap by (cases res) (auto simp: best_match_def)
  then have "m_specificity m' \<le> m_specificity m"
    using best_match_le[OF _ ap] res(2) by (simp add: sp)
  with res(1) m' show ?thesis by blast
qed


theorem multi_level_finds_single_witness:
  "\<exists>db m m'. rs_put mem_api store4 mem_empty (mk_rule ''x.b.com'' 443 ''a.com'' ''id'' BOTH) = Inr db
     \<and> rs_lookup mem_api store4 db ''x.b.com'' 443 ''a.com'' SINGLE_LEVEL = Inr (Some m)
     \<and> rs_lookup mem_api store4 db ''x.b.com'' 443 ''a.com'' MULTI_LEVEL = Inr (Some m')
     \<and> m_specificity m' \<le> m_specificity m"
proof -
  let ?r = "mk_rule ''x.b.com'' 443 ''a.com'' ''id'' BOTH"
  have "rule_ok ?r" by (simp add: rule_ok_def mk_rule_def)
  then obtain db where db: "rs_put mem_api store4 mem_empty ?r = Inr db"
    "represents mem_api store4 db (table_put no_rules ?r)"
    using rs_put_represents[OF mem_laws store4_ok mem_represents] by blast
  obtain res where res: "rs_lookup mem_api store4 db ''x.b.com'' 443 ''a.com'' SINGLE_LEVEL = Inr res"
    "best_match (table_put no_rules ?r) SINGLE_LEVEL ''x.b.com'' 443 ''a.com'' res"
    using lookup_least[OF mem_laws store4_ok db(2) sample_names(1) sample_side(1)
        sample_names(2) sample_side(2,3)] by blast
  have "applies (table_put no_rules ?r) SINGLE_LEVEL ''x.b.com'' 443 ''a.com'' ''x.b.com'' ''a.com'' ''id''"
    by (simp add: applies_def table_put_def rule_key_def mk_rule_def pattern_matches_iff
        visible_def rank_of_def)
  with res(2) obtain m where "res = Some m" by (cases res) (auto simp: best_match_def)
  with db(1) res(1) multi_level_finds_single[OF mem_laws store4_ok db(2) sample_names(1)
      sample_side(1) sample_names(2) sample_side(2,3)]
  show ?thesis by blast
qed


section \<open>Writes\<close>

text \<open>
  C19: A put of a valid rule succeeds and changes the table in one entry: the triple of the
  rule now maps to its scope and id, in every replica, and every other triple is untouched.
\<close>

theorem put_updates_one_entry:
  assumes "redis_laws api" "store_ok st" "represents api st db A" "rule_ok r"
  shows "\<exists>db'. rs_put api st db r = Inr db' \<and>
     represents api st db' (A((r_fqdn1 r, r_port r, r_fqdn2 r) \<mapsto> (r_scope r, r_rule_id r)))"
  using rs_put_represents[OF assms] by (simp add: table_put_def rule_key_def)

theorem put_updates_one_entry_witness:
  "\<exists>db. rs_put mem_api store4 mem_empty rule_any = Inr db
     \<and> represents mem_api store4 db (no_rules((''*'', 443, ''a.com'') \<mapsto> (BOTH, ''any'')))"
  using put_updates_one_entry[OF mem_laws store4_ok mem_represents sample_rules_ok(1)]
  by (simp add: rule_any_def mk_rule_def)

lemma put_all_represents:
  assumes "redis_laws api" "store_ok st" "represents api st db A" "list_all rule_ok rules"
  shows "\<exists>db'. put_all api st db rules = Inr db' \<and> represents api st db' (foldl table_put A rules)"
  using assms(3,4)
proof (induction rules arbitrary: db A)
  case Nil
  then show ?case by simp
next
  case (Cons r rules)
  then have r: "rule_ok r" by simp
  obtain db1 where "rs_put api st db r = Inr db1" "represents api st db1 (table_put A r)"
    using rs_put_represents[OF assms(1,2) Cons.prems(1) r] by blast
  with Cons.IH[of db1 "table_put A r"] Cons.prems(2) show ?case by simp
qed

lemma put_many_represents:
  assumes "redis_laws api" "store_ok st" "represents api st db A" "list_all rule_ok rules"
  shows "\<exists>db'. rs_put_many api st db rules = Inr db' \<and> represents api st db' (foldl table_put A rules)"
proof -
  have ok: "0 < r_port r \<and> r_port r < 65536" "CHR '':'' \<notin> set (r_fqdn1 r)"
    if "r \<in> set rules" for r
    using assms(4) that by (auto simp: list_all_iff rule_ok_def)
  have "rs_put_many api st db rules = Inr (fst (execute_pipe api db (bulk_cmds st rules)))"
    by (rule rs_put_many_ok[OF assms(2)]) (rule ok(1))
  moreover have "represents api st (fst (execute_pipe api db (bulk_cmds st rules)))
      (foldl table_put A rules)"
    by (rule represents_bulk_cmds[OF assms(1,3)]) (rule ok(2))
  ultimately show ?thesis by blast
qed

text \<open>
  C6: A bulk load is the sequence of its puts: one pipeline of all the writes leaves a store
  that shows the same table as putting the rules one at a time, and both show the table
  updated rule by rule in the given order.
\<close>

theorem put_many_is_puts:
  assumes "redis_laws api" "store_ok st" "represents api st db A" "list_all rule_ok rules"
  shows "\<exists>db1 db2. rs_put_many api st db rules = Inr db1 \<and> put_all api st db rules = Inr db2
     \<and> represents api st db1 (foldl table_put A rules)
     \<and> represents api st db2 (foldl table_put A rules)"
  using put_many_represents[OF assms] put_all_represents[OF assms] by blast

theorem put_many_is_puts_witness:
  "\<exists>db1. rs_put_many mem_api store4 mem_empty [rule_any, rule_sub] = Inr db1
     \<and> represents mem_api store4 db1 (foldl table_put no_rules [rule_any, rule_sub])"
  using put_many_is_puts[OF mem_laws store4_ok mem_represents, of "[rule_any, rule_sub]"]
    sample_rules_ok by auto

lemma foldl_table_put:
  "distinct (map rule_key rules) \<Longrightarrow> foldl table_put A rules x =
     (case map_of (map (\<lambda>r. (rule_key r, (r_scope r, r_rule_id r))) rules) x of
        Some v \<Rightarrow> Some v | None \<Rightarrow> A x)"
proof (induction rules arbitrary: A)
  case Nil
  show ?case by simp
next
  case (Cons r rules)
  then have "map_of (map (\<lambda>r. (rule_key r, (r_scope r, r_rule_id r))) rules) (rule_key r) = None"
    by (auto simp: map_of_eq_None_iff image_image)
  with Cons show ?case by (auto simp: table_put_def split: option.splits)
qed

text \<open>
  The order of a bulk load of distinct triples is immaterial: any reordering of the
  rules succeeds too and leaves a store that shows the same table.
\<close>

theorem put_many_any_order:
  assumes "redis_laws api" "store_ok st" "represents api st db A" "list_all rule_ok rules"
    and "distinct (map rule_key rules)" "mset rules' = mset rules"
  shows "\<exists>db1 db2 B. rs_put_many api st db rules = Inr db1 \<and> rs_put_many api st db rules' = Inr db2
     \<and> represents api st db1 B \<and> represents api st db2 B"
proof -
  have d: "distinct (map rule_key rules')"
    using assms(5,6) by (metis mset_map mset_eq_imp_distinct_iff)
  let ?e = "\<lambda>r. (rule_key r, (r_scope r, r_rule_id r))"
  have "map_of (map ?e rules) = map_of (map ?e rules')"
    by (subst map_of_inject_set) (use assms(5) d mset_eq_setD[OF assms(6)] in \<open>simp_all add: comp_def\<close>)
  then have "foldl table_put A rules = foldl table_put A rules'"
    by (intro ext) (simp add: foldl_table_put[OF assms(5)] foldl_table_put[OF d])
  moreover have "list_all rule_ok rules'"
    using assms(4) mset_eq_setD[OF assms(6)] by (simp add: list_all_iff)
  ultimately show ?thesis
    using put_many_represents[OF assms(1-4)] put_many_represents[OF assms(1-3)] by metis
qed

theorem put_many_any_order_witness:
  "\<exists>db1 db2 B. rs_put_many mem_api store4 mem_empty [rule_any, rule_sub] = Inr db1
     \<and> rs_put_many mem_api store4 mem_empty [rule_sub, rule_any] = Inr db2
     \<and> represents mem_api store4 db1 B \<and> represents mem_api store4 db2 B"
  by (rule put_many_any_order[OF mem_laws store4_ok mem_represents])
    (use sample_rules_ok in \<open>auto simp: rule_key_def rule_any_def rule_sub_def mk_rule_def\<close>)


text \<open>
  The documentation calls a bulk load order-independent. It is not when a triple is
  listed twice with different ids: the last one written wins, so swapping the two rules
  changes the answer of a lookup.
\<close>

theorem put_many_last_wins:
  "let st = \<lparr>rs_namespace = ''ns'', rs_num_buckets = 1\<rparr>;
       r1 = mk_rule ''b.com'' 443 ''a.com'' ''one'' BOTH;
       r2 = mk_rule ''b.com'' 443 ''a.com'' ''two'' BOTH;
       ask = \<lambda>rules. bindR (rs_put_many mem_api st mem_empty rules) (\<lambda>db.
               bindR (rs_lookup mem_api st db ''b.com'' 443 ''a.com'' SINGLE_LEVEL) (\<lambda>m.
                 Inr (map_option m_rule_id m)))
   in ask [r1, r2] = Inr (Some ''two'') \<and> ask [r2, r1] = Inr (Some ''one'')"
  by code_simp

text \<open>
  A port outside 1 to 65535 is rejected by every write that takes one, before anything
  is sent: a bulk load with one bad rule anywhere writes none of its rules.
\<close>

theorem bad_port_writes_nothing:
  assumes "store_ok st" "r \<in> set rules" "r_port r \<le> 0 \<or> 65536 \<le> r_port r"
  shows "rs_put api st db r = Inl (InvalidFqdn (PortOutOfRange (r_port r)))
    \<and> (\<exists>port. (port \<le> 0 \<or> 65536 \<le> port)
         \<and> rs_put_many api st db rules = Inl (InvalidFqdn (PortOutOfRange port)))"
proof -
  have bad: "\<not> (0 < r_port r \<and> r_port r < 65536)" using assms(3) by auto
  obtain port where "put_many_loop st rules [] False = Inl (InvalidFqdn (PortOutOfRange port))"
    "port \<le> 0 \<or> 65536 \<le> port"
    using put_many_loop_bad_port[OF assms(1,2) bad, of "[]" False] by blast
  then show ?thesis using bad by (auto simp: rs_put_def rs_put_many_def validate_port_def)
qed

theorem bad_port_writes_nothing_witness:
  "\<exists>port. rs_put_many mem_api store4 mem_empty [rule_any, mk_rule ''b.com'' 0 ''a.com'' ''x'' BOTH]
     = Inl (InvalidFqdn (PortOutOfRange port))"
  using bad_port_writes_nothing[OF store4_ok, of "mk_rule ''b.com'' 0 ''a.com'' ''x'' BOTH"
      "[rule_any, mk_rule ''b.com'' 0 ''a.com'' ''x'' BOTH]" mem_api mem_empty]
  by (auto simp: mk_rule_def)

lemma put_many_loop_hset:
  "put_many_loop st rules pipe b = Inr (pipe', b') \<Longrightarrow> list_all is_hset pipe \<Longrightarrow> list_all is_hset pipe'"
proof (induction rules arbitrary: pipe b)
  case Nil
  then show ?case by simp
next
  case (Cons r rules)
  then show ?case by (fastforce simp: result_simps list_all_iff)
qed

text \<open>
  C15: Resuming a half-applied bulk load converges: if a load was cut off after any number of
  the commands of its pipeline, running it again leaves every field of every key as one
  uninterrupted run would, and so does running a finished load a second time.
\<close>

theorem put_many_resumes:
  assumes "redis_laws api"
    and "put_many_loop st rules [] False = Inr (pipe, bucketed)"
    and "queued = (if bucketed then pipe @ [meta_cmd st] else pipe)"
    and "partial_db = fst (execute_pipe api db (take n queued))"
  shows "\<exists>once again. rs_put_many api st db rules = Inr once \<and> rs_put_many api st partial_db rules = Inr again
     \<and> (\<forall>k f. hget api again k f = hget api once k f)"
proof -
  have "list_all is_hset pipe" using put_many_loop_hset[OF assms(2)] by simp
  then have q: "list_all is_hset queued" by (simp add: assms(3) meta_cmd_def)
  have run: "rs_put_many api st x rules = Inr (fst (execute_pipe api x queued))" for x
    using assms(2,3) by (simp add: rs_put_many_def)
  show ?thesis unfolding run assms(4) using rerun_after_prefix[OF assms(1) q] by blast
qed

theorem put_many_resumes_witness:
  "\<exists>once again. rs_put_many mem_api store4 mem_empty [rule_any, rule_sub] = Inr once
     \<and> rs_put_many mem_api store4
          (fst (execute_pipe mem_api mem_empty (take 3 (bulk_cmds store4 [rule_any, rule_sub]))))
          [rule_any, rule_sub] = Inr again
     \<and> (\<forall>k f. hget mem_api again k f = hget mem_api once k f)"
proof -
  have p: "0 < r_port r \<and> r_port r < 65536" if "r \<in> set [rule_any, rule_sub]" for r
    using that sample_rules_ok by (auto simp: rule_ok_def)
  obtain pipe bucketed where
    L: "put_many_loop store4 [rule_any, rule_sub] [] False = Inr (pipe, bucketed)"
    and B: "bulk_cmds store4 [rule_any, rule_sub]
        = (if bucketed then pipe @ [meta_cmd store4] else pipe)"
    using put_many_loop_ok[where pipe = "[]" and b = False and rules = "[rule_any, rule_sub]",
        OF store4_ok p]
    by (fastforce simp: bulk_cmds_def)
  from put_many_resumes[OF mem_laws L B refl] show ?thesis by blast
qed

text \<open>
  C17: A delete removes exactly one triple from the table, from every replica, and reports
  whether the table had it; the answer of a repeated delete is therefore no.
\<close>

theorem delete_removes_one_entry:
  assumes "redis_laws api" "store_ok st" "represents api st db A" "CHR '':'' \<notin> set p"
  shows "\<exists>db' db''. rs_delete api st db p port f = Inr (db', A (p, port, f) \<noteq> None)
     \<and> represents api st db' (A((p, port, f) := None))
     \<and> rs_delete api st db' p port f = Inr (db'', False)
     \<and> represents api st db'' (A((p, port, f) := None))"
proof -
  obtain db' where 1: "rs_delete api st db p port f = Inr (db', A (p, port, f) \<noteq> None)"
    "represents api st db' (A((p, port, f) := None))"
    using rs_delete_represents[OF assms] by blast
  show ?thesis using rs_delete_represents[OF assms(1,2) 1(2) assms(4), of port f] 1 by auto
qed

theorem delete_removes_one_entry_witness:
  "\<exists>db db'. rs_put mem_api store4 mem_empty rule_any = Inr db
     \<and> rs_delete mem_api store4 db ''*'' 443 ''a.com'' = Inr (db', True)"
proof -
  obtain db where db: "rs_put mem_api store4 mem_empty rule_any = Inr db"
    "represents mem_api store4 db (table_put no_rules rule_any)"
    using rs_put_represents[OF mem_laws store4_ok mem_represents sample_rules_ok(1)] by blast
  have "table_put no_rules rule_any (''*'', 443, ''a.com'') \<noteq> None"
    by (simp add: table_put_def rule_key_def rule_any_def mk_rule_def)
  with db delete_removes_one_entry[OF mem_laws store4_ok db(2), of "''*''" 443 "''a.com''"]
  show ?thesis by auto
qed


section \<open>Construction\<close>

lemma init_claimed:
  assumes "hget api db (bucketing_meta_key ns) ''num_buckets'' = Some (py_str claimed)"
  shows "rule_store_init api db ns nb =
    (if nb = claimed then Inr \<lparr>rs_namespace = ns, rs_num_buckets = nb\<rparr>
     else Inl (ValueError ''num_buckets''))"
  using assms by (simp add: rule_store_init_def py_int_py_str)

text \<open>A single put is the bulk load of its rule, and what a load leaves in the bucketing field.\<close>

lemma rs_put_is_load:
  assumes "store_ok st" "rule_ok r"
  shows "rs_put api st db r = Inr (fst (execute_pipe api db (bulk_cmds st [r])))"
proof -
  let ?ks = "keys_of st (r_fqdn1 r, r_port r)"
  note keys = keys_for_pattern_Inr[OF assms(1), of "r_fqdn1 r" "r_port r"]
  have "length ?ks = 1 \<or> length ?ks > 1" using keys(2) by (auto simp: is_replicated_def)
  moreover have "validate_port (r_port r) = Inr ()" using assms(2) by (simp add: validate_port_def rule_ok_def)
  ultimately show ?thesis
    using keys(1) by (auto simp: rs_put_def bulk_cmds_def put_cmds_def Let_def length_Suc_conv)
qed

lemma load_keeps_claims:
  assumes "redis_laws api"
  shows "hget api (fst (execute_pipe api db (concat (map (put_cmds st) rules)))) (bucketing_meta_key ns) f
    = hget api db (bucketing_meta_key ns) f"
proof (induction rules arbitrary: db)
  case (Cons r rules)
  have "bucketing_meta_key ns \<notin> set (keys_of st (r_fqdn1 r, r_port r))" using keys_of_not_meta by blast
  then have "hget api (fst (execute_pipe api db (put_cmds st r))) (bucketing_meta_key ns) f = hget api db (bucketing_meta_key ns) f"
    by (simp add: put_cmds_def hget_pipe_hset[OF assms])
  then show ?case by (simp add: execute_pipe_append Cons)
qed simp

lemma load_claims:
  assumes "redis_laws api" "store_ok st"
  shows "if \<exists>r\<in>set rules. is_replicated st (r_fqdn1 r)
    then hget api (fst (execute_pipe api db (bulk_cmds st rules))) (bucketing_meta_key (rs_namespace st)) ''num_buckets''
      = Some (py_str (rs_num_buckets st))
    else \<forall>ns f. hget api (fst (execute_pipe api db (bulk_cmds st rules))) (bucketing_meta_key ns) f
      = hget api db (bucketing_meta_key ns) f"
proof -
  have "(\<lambda>r. length (keys_of st (r_fqdn1 r, r_port r)) > 1) = (\<lambda>r. is_replicated st (r_fqdn1 r))"
    using keys_for_pattern_Inr(2)[OF assms(2)] by (auto simp: is_replicated_def fun_eq_iff)
  then have "bulk_cmds st rules = concat (map (put_cmds st) rules)
      @ (if \<exists>r\<in>set rules. is_replicated st (r_fqdn1 r) then [meta_cmd st] else [])"
    unfolding bulk_cmds_def Bex_set by (rule arg_cong)
  then show ?thesis
    by (simp add: execute_pipe_append load_keeps_claims[OF assms(1)] meta_cmd_def redis_lawsD[OF assms(1)])
qed

text \<open>How stores open after a load: on the namespace only with its count, or as before.\<close>

definition pinned :: "'db redis_api \<Rightarrow> rule_store \<Rightarrow> 'db \<Rightarrow> bool" where
  "pinned api st db \<longleftrightarrow> (\<forall>nb. rule_store_init api db (rs_namespace st) nb =
     (if nb = rs_num_buckets st then Inr \<lparr>rs_namespace = rs_namespace st, rs_num_buckets = nb\<rparr>
      else Inl (ValueError ''num_buckets'')))"

definition same_claims :: "'db redis_api \<Rightarrow> 'db \<Rightarrow> 'db \<Rightarrow> bool" where
  "same_claims api db db' \<longleftrightarrow> (\<forall>ns nb. rule_store_init api db' ns nb = rule_store_init api db ns nb)"

lemma load_pins:
  assumes "redis_laws api" "store_ok st" "db' = fst (execute_pipe api db (bulk_cmds st rules))"
  shows "if \<exists>r\<in>set rules. is_replicated st (r_fqdn1 r) then pinned api st db' else same_claims api db db'"
  using load_claims[OF assms(1,2), of rules db] init_claimed[of api db' "rs_namespace st" "rs_num_buckets st"]
  unfolding assms(3)[symmetric] pinned_def same_claims_def by (auto simp: rule_store_init_def split: if_splits)

lemma put_all_pins:
  assumes "redis_laws api" "store_ok st" "list_all rule_ok rules"
  shows "\<exists>db'. put_all api st db rules = Inr db'
    \<and> (if \<exists>r\<in>set rules. is_replicated st (r_fqdn1 r) then pinned api st db' else same_claims api db db')"
  using assms(3)
proof (induction rules arbitrary: db)
  case (Cons r rules)
  let ?db = "fst (execute_pipe api db (bulk_cmds st [r]))"
  have p: "rs_put api st db r = Inr ?db" by (rule rs_put_is_load[OF assms(2)]) (use Cons.prems in simp)
  obtain db' where "put_all api st ?db rules = Inr db'"
    "if \<exists>r\<in>set rules. is_replicated st (r_fqdn1 r) then pinned api st db' else same_claims api ?db db'"
    using Cons.IH[of ?db] Cons.prems by auto
  with p load_pins[OF assms(1,2) refl, of "[r]" db] show ?case
    by (auto simp: pinned_def same_claims_def split: if_splits)
qed (simp add: same_claims_def)

text \<open>
  C20: The first replicated write pins the namespace's replica count. After puts of rules one by one, or a
  bulk load of them, with a catch-all rule anywhere among them, a store opened on that namespace with the
  same count is accepted and one with any other count, the default 1 included, raises ValueError. Without
  a replicated rule among them every namespace opens as before.
\<close>

theorem bucket_count_pinned:
  assumes "redis_laws api" "store_ok st" "list_all rule_ok rules"
  shows "\<exists>db1 db2. put_all api st db rules = Inr db1 \<and> rs_put_many api st db rules = Inr db2
    \<and> (if \<exists>r\<in>set rules. is_replicated st (r_fqdn1 r)
       then \<forall>db'\<in>{db1, db2}. \<forall>nb. rule_store_init api db' (rs_namespace st) nb =
              (if nb = rs_num_buckets st then Inr \<lparr>rs_namespace = rs_namespace st, rs_num_buckets = nb\<rparr>
               else Inl (ValueError ''num_buckets''))
       else \<forall>db'\<in>{db1, db2}. \<forall>ns nb. rule_store_init api db' ns nb = rule_store_init api db ns nb)"
proof -
  obtain db1 where db1: "put_all api st db rules = Inr db1"
    "if \<exists>r\<in>set rules. is_replicated st (r_fqdn1 r) then pinned api st db1 else same_claims api db db1"
    using put_all_pins[OF assms] by blast
  have "rs_put_many api st db rules = Inr (fst (execute_pipe api db (bulk_cmds st rules)))"
    using assms(3) by (intro rs_put_many_ok[OF assms(2)]) (auto simp: list_all_iff rule_ok_def)
  with db1 load_pins[OF assms(1,2) refl, of rules db] show ?thesis
    by (auto simp: pinned_def same_claims_def split: if_splits)
qed

theorem bucket_count_pinned_witness:
  "\<exists>db1 db2. put_all mem_api store4 mem_empty [rule_sub, rule_any] = Inr db1
     \<and> rs_put_many mem_api store4 mem_empty [rule_sub, rule_any] = Inr db2
     \<and> rule_store_init mem_api db1 ''ns'' 4 = Inr store4
     \<and> rule_store_init mem_api db1 ''ns'' 1 = Inl (ValueError ''num_buckets'')
     \<and> rule_store_init mem_api db2 ''ns'' 1 = Inl (ValueError ''num_buckets'')"
proof -
  have "is_replicated store4 (r_fqdn1 rule_any)" by code_simp
  then show ?thesis
    using bucket_count_pinned[OF mem_laws store4_ok, of "[rule_sub, rule_any]" mem_empty] sample_rules_ok
    by (auto simp: store4_def)
qed

text \<open>
  The demonstration's five answers, on an empty store: exact second name before
  wildcard, the fall through to the wildcard, the miss of a query too deep for the
  single-level mode, its hit under the multi-level mode, and the miss of a query that only a
  single-level rule covers at depth.
\<close>

theorem demo_answers:
  "demo mem_api mem_empty = Inr [
     Some \<lparr>m_rule_id = ''rule:corp-to-retailer'', m_fqdn1_pattern = ''*.corp.dragonfly.com'',
           m_port = 443, m_fqdn2_pattern = ''retailer.com'', m_specificity = (1, 0)\<rparr>,
     Some \<lparr>m_rule_id = ''rule:corp-to-any-dot-com'', m_fqdn1_pattern = ''*.corp.dragonfly.com'',
           m_port = 443, m_fqdn2_pattern = ''*.com'', m_specificity = (1, 1)\<rparr>,
     None,
     Some \<lparr>m_rule_id = ''rule:corp-to-retailer'', m_fqdn1_pattern = ''*.corp.dragonfly.com'',
           m_port = 443, m_fqdn2_pattern = ''retailer.com'', m_specificity = (2, 0)\<rparr>,
     None]"
  by code_simp

end
