(* ===== verification/Router_Slots.thy ===== *)
theory Router_Slots
  imports Router_Spec
begin

text \<open>
  Where the store's keys live in a cluster: the keys of one script call share a slot, the
  replicas of a catch-all tier each lie in the slot range of their index, and no two records
  share a key.
\<close>

definition no_braces :: "string \<Rightarrow> bool" where
  "no_braces s \<longleftrightarrow> CHR ''{'' \<notin> set s \<and> CHR ''}'' \<notin> set s"

lemma no_braces_py_str: "CHR ''}'' \<notin> set (py_str z)"
  by (rule py_str_no) simp_all

lemma py_str_nonempty: "py_str z \<noteq> []"
proof
  assume "py_str z = []"
  then have "py_int (py_str z) = py_int []" by simp
  then show False by (simp add: py_int_py_str) (code_simp)
qed

text \<open>The slot of a replicated key is the slot of its token.\<close>

lemma bucketed_key_slot:
  assumes k: "rs_key st t i p port = Inr k" and b: "is_bucketed_tag t" "rs_num_buckets st > 1"
    and ns: "no_braces (rs_namespace st)"
  obtains tab where "compute_bucket_table (rs_num_buckets st) = Inr tab"
    "0 \<le> i" "i < rs_num_buckets st" "key_slot k = slots tab ! nat i"
    "fst (slot_range i (rs_num_buckets st)) \<le> slots tab ! nat i"
    "slots tab ! nat i < snd (slot_range i (rs_num_buckets st))"
proof -
  obtain tab tok where tab: "compute_bucket_table (rs_num_buckets st) = Inr tab"
    and tok: "table_token tab i = Inr tok"
    and kk: "k = (''r:'' @ rs_namespace st @ '':'') @ ''{'' @ tok @ ''}''
        @ ('':'' @ t @ '':'' @ py_str i @ '':'' @ p @ '':'' @ py_str port)"
    using k b by (auto simp: rs_key_def result_simps)
  note wf = compute_bucket_table_Inr(3)[OF tab]
  have i: "0 \<le> i" "i < rs_num_buckets st" "tok = tokens tab ! nat i"
    using tok wf by (auto simp: table_token_def table_wf_def split: if_splits)
  then have lt: "nat i < nat (rs_num_buckets st)" by simp
  obtain j where j: "first_fit (rs_num_buckets st) (nat i) j" "tokens tab ! nat i = py_str j"
    "slots tab ! nat i = slot (encode (py_str j))"
    using table_wf_first_fit[OF wf lt] by blast
  have "key_slot k = slot (encode tok)"
    unfolding kk
    by (rule key_slot_tagged)
      (use ns i(3) j(2) no_braces_py_str py_str_nonempty in \<open>auto simp: no_braces_def\<close>)
  moreover have "fst (slot_range i (rs_num_buckets st)) \<le> slots tab ! nat i"
    "slots tab ! nat i < snd (slot_range i (rs_num_buckets st))"
    using first_fit_slot(1,2)[OF j(1)] i(1) slot_range_bnd[of "nat i" "rs_num_buckets st"]
    by (simp_all add: j(3))
  ultimately show ?thesis using that[OF tab i(1,2)] i(3) j by simp
qed

lemma unbucketed_key_slot:
  assumes k: "rs_key st t i p port = Inr k" and b: "\<not> (is_bucketed_tag t \<and> rs_num_buckets st > 1)"
    and ns: "no_braces (rs_namespace st)" "CHR ''}'' \<notin> set t"
  shows "key_slot k = slot (encode (rs_namespace st @ '':'' @ t))"
proof -
  have kk: "k = ''r:'' @ ''{'' @ (rs_namespace st @ '':'' @ t) @ ''}''
      @ ('':'' @ p @ '':'' @ py_str port)"
    using k b by (auto simp: rs_key_def)
  show ?thesis unfolding kk by (rule key_slot_tagged) (use ns in \<open>auto simp: no_braces_def\<close>)
qed

lemma tier_tag_brace:
  assumes "clean q" "CHR ''}'' \<notin> set q"
  shows "CHR ''}'' \<notin> set (tier_tag q r)"
proof -
  have l: "CHR ''}'' \<notin> set x" if "x \<in> set (split_on (CHR ''.'') q)" for x
    using set_split_on[OF that] assms(2) by auto
  have "CHR ''}'' \<notin> set (last (split_on (CHR ''.'') q))" using l by simp
  moreover have "CHR ''}'' \<notin> set (apex_tag q)"
    using l nth_mem[of "num_labels q - 2" "split_on (CHR ''.'') q"]
      nth_mem[of "num_labels q - 1" "split_on (CHR ''.'') q"] clean_num_labels[OF assms(1)]
    by (auto simp: apex_tag_def Let_def)
  ultimately show ?thesis by (auto simp: tier_tag_def tld_tag_def)
qed

lemma at_most_three_groups:
  assumes "clean q"
  shows "length (group_by_tag (candidates q mode n)) \<le> 3"
proof -
  have "card (c_tag ` set (candidates q mode n)) \<le> card {apex_tag q, tld_tag q, ''__global__''}"
    using candidate_tag[OF assms, of _ mode n] by (intro card_mono) (auto simp: tier_tag_def)
  also have "\<dots> \<le> 3" by (simp add: card_insert_if)
  finally show ?thesis by (simp add: length_group_by_tag)
qed

lemma group_tag_plain:
  assumes "clean q" "CHR ''}'' \<notin> set q" "(t, g) \<in> set (group_by_tag (candidates q mode n))"
  shows "CHR ''}'' \<notin> set t"
proof -
  have g: "g = filter (\<lambda>c. c_tag c = t) (candidates q mode n)" "g \<noteq> []" using group_by_tag_mem[OF assms(3)] by auto
  have "hd g \<in> set g" using g(2) by simp
  then have "hd g \<in> set (candidates q mode n)" "c_tag (hd g) = t" by (subst (asm) g(1), simp)+
  then show ?thesis using candidate_tag[OF assms(1)] tier_tag_brace[OF assms(1,2)] by metis
qed

text \<open>
  C5: A lookup's script calls are safe in a cluster. A query makes at most three of them,
  and all the keys one call declares hash to one slot, which for a replicated tier lies in
  the slot range of the query's replica index.
\<close>

theorem script_keys_share_slot:
  assumes "clean q" "CHR ''}'' \<notin> set q" "no_braces (rs_namespace st)"
    and "(t, g) \<in> set (group_by_tag (candidates q mode (rs_num_buckets st)))"
    and "mapR (\<lambda>c. rs_key st t (c_bucket_index c) (c_pattern c) port) g = Inr ks"
  shows "length (group_by_tag (candidates q mode (rs_num_buckets st))) \<le> 3
    \<and> (\<exists>s. (\<forall>k\<in>set ks. key_slot k = s) \<and>
         (is_bucketed_tag t \<and> rs_num_buckets st > 1 \<longrightarrow>
            fst (slot_range (bucket_of (rs_num_buckets st) q) (rs_num_buckets st)) \<le> s
            \<and> s < snd (slot_range (bucket_of (rs_num_buckets st) q) (rs_num_buckets st))))"
proof -
  let ?cs = "candidates q mode (rs_num_buckets st)"
  let ?b = "bucket_of (rs_num_buckets st) q"
  have g: "g = filter (\<lambda>c. c_tag c = t) ?cs" "g \<noteq> []" using group_by_tag_mem[OF assms(4)] by auto
  have key: "\<exists>p. rs_key st t ?b p port = Inr k" if "k \<in> set ks" for k
  proof -
    obtain i where i: "i < length g" "k = ks ! i"
      using \<open>k \<in> set ks\<close> mapR_Inr_length[OF assms(5)] by (metis in_set_conv_nth)
    have "g ! i \<in> set ?cs" using nth_mem[OF i(1)] by (subst (asm) g(1)) simp
    then have "c_bucket_index (g ! i) = ?b" by (rule candidate_bucket)
    with mapR_Inr_nth[OF assms(5) i(1)] i(2) show ?thesis by auto
  qed
  have t: "CHR ''}'' \<notin> set t" by (rule group_tag_plain[OF assms(1,2,4)])
  have "\<exists>s. (\<forall>k\<in>set ks. key_slot k = s) \<and>
         (is_bucketed_tag t \<and> rs_num_buckets st > 1 \<longrightarrow>
            fst (slot_range ?b (rs_num_buckets st)) \<le> s
            \<and> s < snd (slot_range ?b (rs_num_buckets st)))"
  proof (cases "is_bucketed_tag t \<and> rs_num_buckets st > 1")
    case True
    have "ks \<noteq> []" using mapR_Inr_length[OF assms(5)] g(2) by auto
    then obtain k0 where k0: "k0 \<in> set ks" by (meson list.set_sel(1))
    obtain p0 where p0: "rs_key st t ?b p0 port = Inr k0" using key[OF k0] by blast
    obtain tab where tab: "compute_bucket_table (rs_num_buckets st) = Inr tab"
      "fst (slot_range ?b (rs_num_buckets st)) \<le> slots tab ! nat ?b"
      "slots tab ! nat ?b < snd (slot_range ?b (rs_num_buckets st))"
      using bucketed_key_slot[OF p0 _ _ assms(3)] True by metis
    have "key_slot k = slots tab ! nat ?b" if "k \<in> set ks" for k
      using key[OF that] bucketed_key_slot[of st t ?b _ port k] True assms(3) tab(1)
      by (metis Inr_inject)
    with tab show ?thesis by blast
  next
    case False
    have "key_slot k = slot (encode (rs_namespace st @ '':'' @ t))" if "k \<in> set ks" for k
      using key[OF that] unbucketed_key_slot[OF _ False assms(3) t] by blast
    with False show ?thesis by blast
  qed
  then show ?thesis using at_most_three_groups[OF assms(1)] by blast
qed

theorem script_keys_share_slot_witness:
  "\<exists>ks. mapR (\<lambda>c. rs_key store4 ''b.com'' (c_bucket_index c) (c_pattern c) 443)
        (filter (\<lambda>c. c_tag c = ''b.com'') (candidates ''x.b.com'' MULTI_LEVEL 4)) = Inr ks
     \<and> length ks = 2 \<and> (\<exists>s. \<forall>k\<in>set ks. key_slot k = s)"
proof -
  let ?cs = "candidates ''x.b.com'' MULTI_LEVEL 4"
  let ?g = "filter (\<lambda>c. c_tag c = ''b.com'') ?cs"
  have c: "clean ''x.b.com''" and l: "length ?g = 2"
    and m: "(''b.com'', ?g) \<in> set (group_by_tag ?cs)" by code_simp+
  have n4: "rs_num_buckets store4 = 4" by (simp add: store4_def)
  obtain ks where ks: "mapR (\<lambda>c. rs_key store4 ''b.com'' (c_bucket_index c) (c_pattern c) 443) ?g = Inr ks"
    "length ks = length ?g"
  proof (rule group_keys[OF store4_ok, of ?g "''b.com''" "''x.b.com''" MULTI_LEVEL 443])
    show "?g = filter (\<lambda>c. c_tag c = ''b.com'') (candidates ''x.b.com'' MULTI_LEVEL (rs_num_buckets store4))"
      by (simp only: n4)
  qed
  have "\<exists>s. \<forall>k\<in>set ks. key_slot k = s"
  proof -
    have b: "CHR ''}'' \<notin> set ''x.b.com''" "no_braces (rs_namespace store4)" by code_simp+
    show ?thesis
      using script_keys_share_slot[OF c b m[folded n4] ks(1)[folded n4]] by blast
  qed
  with ks l show ?thesis by simp
qed

text \<open>
  The replicas of a catch-all record spread over the cluster: a key at replica index i
  is built only for an index from 0 to N-1 and hashes into the i-th of the N slot ranges, so
  distinct replicas never share a slot and keys of one replica index always do.
\<close>

theorem replicas_spread:
  assumes "is_bucketed_tag t" "rs_num_buckets st > 1" "no_braces (rs_namespace st)"
    and "rs_key st t i p port = Inr k" "rs_key st t i' p' port' = Inr k'"
  shows "0 \<le> i \<and> i < rs_num_buckets st
    \<and> fst (slot_range i (rs_num_buckets st)) \<le> key_slot k
    \<and> key_slot k < snd (slot_range i (rs_num_buckets st))
    \<and> (key_slot k = key_slot k') = (i = i')"
proof -
  let ?n = "rs_num_buckets st"
  obtain tab where 1: "compute_bucket_table ?n = Inr tab" "0 \<le> i" "i < ?n" "key_slot k = slots tab ! nat i"
    "fst (slot_range i ?n) \<le> key_slot k" "key_slot k < snd (slot_range i ?n)"
    by (rule bucketed_key_slot[OF assms(4,1,2,3)]) simp
  obtain tab' where 2: "compute_bucket_table ?n = Inr tab'" "0 \<le> i'" "i' < ?n"
    "key_slot k' = slots tab' ! nat i'" "fst (slot_range i' ?n) \<le> key_slot k'"
    "key_slot k' < snd (slot_range i' ?n)"
    by (rule bucketed_key_slot[OF assms(5,1,2,3)]) simp
  have "i = i'" if "key_slot k = key_slot k'"
  proof -
    have b: "bnd ?n (nat i) \<le> key_slot k" "key_slot k < bnd ?n (Suc (nat i))"
      "bnd ?n (nat i') \<le> key_slot k" "key_slot k < bnd ?n (Suc (nat i'))"
      using 1(2,5,6) 2(2,5,6) that slot_range_bnd[of "nat i" ?n] slot_range_bnd[of "nat i'" ?n] by auto
    have r: "0 < ?n" "nat i < nat ?n" "nat i' < nat ?n" using 1(2,3) 2(2,3) assms(2) by simp_all
    have "nat i = nat i'"
      using slot_bucket_unique[OF r(1,2) b(1,2)] slot_bucket_unique[OF r(1,3) b(3,4)] by simp
    then show ?thesis using 1(2) 2(2) by simp
  qed
  moreover have "key_slot k = key_slot k'" if "i = i'" using 1(1,4) 2(1,4) that by simp
  ultimately show ?thesis using 1 by blast
qed


theorem replicas_spread_witness:
  "\<exists>k k'. rs_key store4 ''__global__'' 1 ''*'' 443 = Inr k
     \<and> rs_key store4 ''__global__'' 2 ''*'' 443 = Inr k'
     \<and> 4096 \<le> key_slot k \<and> key_slot k < 8192 \<and> key_slot k \<noteq> key_slot k'"
proof -
  obtain k k' where k: "rs_key store4 ''__global__'' 1 ''*'' 443 = Inr k"
    "rs_key store4 ''__global__'' 2 ''*'' 443 = Inr k'"
    using rs_key_ok[OF store4_ok, of 1 "''__global__''" "''*''" 443]
      rs_key_ok[OF store4_ok, of 2 "''__global__''" "''*''" 443] by (auto simp: store4_def)
  have h: "is_bucketed_tag ''__global__''" "rs_num_buckets store4 > 1" "no_braces (rs_namespace store4)"
    by code_simp+
  have r: "slot_range 1 (rs_num_buckets store4) = (4096, 8192)" by code_simp
  show ?thesis using replicas_spread[OF h k] k unfolding r by auto
qed

text \<open>
  Records do not collide: two keys of a store's records are the same text only if they
  belong to the same pattern and port, whatever tag, replica index and store produced them,
  and none is the key that holds a namespace's replica count. (For patterns without a
  colon.)
\<close>

theorem keys_never_collide:
  assumes "rs_key st t i p port = Inr k" "rs_key st' t' i' p' port' = Inr k'"
    and "CHR '':'' \<notin> set p" "CHR '':'' \<notin> set p'"
  shows "(k = k' \<longrightarrow> p = p' \<and> port = port') \<and> k \<noteq> bucketing_meta_key ns"
  using rs_key_inject[OF assms(1) _ assms(3,4), of st' t' i' port'] assms(2)
    rs_key_not_meta[OF assms(1)] by auto

theorem keys_never_collide_witness:
  "\<exists>k k'. rs_key store4 ''__global__'' 1 ''*'' 443 = Inr k
     \<and> rs_key store4 ''__global__'' 1 ''*'' 44 = Inr k' \<and> k \<noteq> k'"
proof -
  obtain k k' where k: "rs_key store4 ''__global__'' 1 ''*'' 443 = Inr k"
    "rs_key store4 ''__global__'' 1 ''*'' 44 = Inr k'"
    using rs_key_ok[OF store4_ok, of 1 "''__global__''" "''*''" 443]
      rs_key_ok[OF store4_ok, of 1 "''__global__''" "''*''" 44] by (auto simp: store4_def)
  then show ?thesis using keys_never_collide[OF k] by auto
qed

end
