(* ===== verification/Float64.thy ===== *)
theory Float64
  imports Py_Str
begin

text \<open>
  Python's \<open>float\<close> as a rational: each arithmetic operation rounds its exact result to the
  nearest number with a 53-bit significand, ties to even. Overflow, subnormals, infinities
  and NaN are outside the model; the values the programs compute lie far from those ranges.
  \<open>round\<close>, \<open>math.ceil\<close> and \<open>math.floor\<close> act on the rational exactly.
\<close>

text \<open>Python's \<open>round(x)\<close> to an integer: to nearest, ties to even.\<close>

definition round_half_even :: "rat \<Rightarrow> int" where
  "round_half_even x =
     (let f = \<lfloor>x\<rfloor>; d = x - of_int f
      in if d < 1/2 then f else if 1/2 < d then f + 1 else if even f then f else f + 1)"

function bit_width :: "int \<Rightarrow> nat" where
  "bit_width a = (if a \<le> 0 then 0 else Suc (bit_width (a div 2)))"
  by pat_completeness auto
termination by (relation "measure nat") auto

declare bit_width.simps [simp del]

definition two_pow :: "int \<Rightarrow> rat" where
  "two_pow e = (if 0 \<le> e then 2 ^ nat e else 1 / 2 ^ nat (- e))"

text \<open>The exponent of the leading bit.\<close>

definition expo :: "rat \<Rightarrow> int" where
  "expo x =
     (let (a, b) = quotient_of \<bar>x\<bar>; e = int (bit_width a) - int (bit_width b)
      in if two_pow e \<le> \<bar>x\<bar> then e else e - 1)"

definition round64 :: "rat \<Rightarrow> rat" where
  "round64 x =
     (if x = 0 then 0
      else let u = two_pow (expo x - 52) in of_int (round_half_even (x / u)) * u)"

abbreviation fadd :: "rat \<Rightarrow> rat \<Rightarrow> rat" where "fadd x y \<equiv> round64 (x + y)"
abbreviation fsub :: "rat \<Rightarrow> rat \<Rightarrow> rat" where "fsub x y \<equiv> round64 (x - y)"
abbreviation fmul :: "rat \<Rightarrow> rat \<Rightarrow> rat" where "fmul x y \<equiv> round64 (x * y)"
abbreviation fdiv :: "rat \<Rightarrow> rat \<Rightarrow> rat" where "fdiv x y \<equiv> round64 (x / y)"


section \<open>Rounding to an integer\<close>

lemma round_half_even_of_int [simp]: "round_half_even (of_int n) = n"
  by (simp add: round_half_even_def)

lemma round_half_even_error: "\<bar>of_int (round_half_even x) - x\<bar> \<le> 1/2"
  by (auto simp: round_half_even_def Let_def abs_if field_simps) linarith+

lemma round_half_even_eqI:
  assumes "\<bar>x - of_int n\<bar> < 1/2"
  shows "round_half_even x = n"
proof -
  have "\<bar>of_int (round_half_even x) - (of_int n :: rat)\<bar> < 1"
    using round_half_even_error[of x] assms
      abs_triangle_ineq[of "of_int (round_half_even x) - x" "x - of_int n"] by simp
  then have "\<bar>round_half_even x - n\<bar> < 1" by (metis of_int_1_less_iff of_int_abs of_int_diff of_int_less_1_iff)
  then show ?thesis by simp
qed

lemma round_half_even_mono: "x \<le> y \<Longrightarrow> round_half_even x \<le> round_half_even y"
proof (rule ccontr)
  assume xy: "x \<le> y" and "\<not> round_half_even x \<le> round_half_even y"
  then have lt: "round_half_even y + 1 \<le> round_half_even x" by simp
  have "\<lfloor>x\<rfloor> \<le> \<lfloor>y\<rfloor>" using xy by (rule floor_mono)
  moreover have "round_half_even x \<le> \<lfloor>x\<rfloor> + 1" "\<lfloor>y\<rfloor> \<le> round_half_even y"
    by (auto simp: round_half_even_def Let_def)
  ultimately have e: "\<lfloor>x\<rfloor> = \<lfloor>y\<rfloor>" using lt by linarith
  then show False using lt xy unfolding round_half_even_def Let_def e by (auto split: if_splits)
qed

lemma round_half_even_nonneg: "0 \<le> x \<Longrightarrow> 0 \<le> round_half_even x"
  using round_half_even_mono[of 0 x] round_half_even_of_int[of 0] by simp


section \<open>The exponent\<close>

lemma bit_width_pos:
  assumes "0 < a"
  shows "0 < bit_width a \<and> 2 ^ (bit_width a - 1) \<le> a \<and> a < 2 ^ bit_width a"
  using assms
proof (induction a rule: bit_width.induct)
  case (1 a)
  show ?case
  proof (cases "a = 1")
    case True
    have "bit_width 1 = 1" by (subst bit_width.simps, subst bit_width.simps) simp
    then show ?thesis using True by simp
  next
    case False
    with "1.prems" have h: "0 < a div 2" "\<not> a \<le> 0" by auto
    note IH = "1.IH"[OF h(2,1)]
    have b: "bit_width a = Suc (bit_width (a div 2))" by (subst bit_width.simps) (use h in simp)
    have "2 * 2 ^ (bit_width (a div 2) - 1) = (2::int) ^ bit_width (a div 2)"
      using IH by (metis Suc_pred' power_Suc)
    with IH have "2 ^ bit_width (a div 2) \<le> 2 * (a div 2)" "a div 2 + 1 \<le> 2 ^ bit_width (a div 2)"
      by auto
    moreover have "2 * (a div 2) \<le> a" "a \<le> 2 * (a div 2) + 1" by auto
    ultimately have "2 ^ bit_width (a div 2) \<le> a" "a < 2 * 2 ^ bit_width (a div 2)" by linarith+
    then show ?thesis unfolding b by simp
  qed
qed

lemma two_pow_pos [simp]: "0 < two_pow e"
  by (simp add: two_pow_def)

lemma two_pow_nonzero [simp]: "two_pow e \<noteq> 0"
  using two_pow_pos[of e] by (rule less_imp_neq[symmetric])

lemma two_pow_abs [simp]: "\<bar>two_pow e\<bar> = two_pow e"
  using two_pow_pos[of e] by (simp only: abs_of_pos)

lemma two_pow_add: "two_pow (a + b) = two_pow a * two_pow b"
proof -
  have "two_pow e = 2 powi e" for e
    by (simp add: two_pow_def power_int_def inverse_eq_divide power_one_over)
  then show ?thesis by (simp add: power_int_add)
qed

lemma two_pow_mono: "a \<le> b \<Longrightarrow> two_pow a \<le> two_pow b"
proof -
  assume ab: "a \<le> b"
  have "two_pow b = two_pow a * two_pow (b - a)" using two_pow_add[of a "b - a"] by simp
  moreover have "1 \<le> two_pow (b - a)" using ab by (simp add: two_pow_def)
  ultimately show ?thesis by (simp add: two_pow_pos[THEN less_imp_le])
qed

lemma two_pow_nat: "two_pow (int n) = 2 ^ n"
  by (simp add: two_pow_def)

lemma int_pow_le_rat: "2 ^ n \<le> a \<Longrightarrow> 2 ^ n \<le> (of_int a :: rat)"
proof -
  assume "2 ^ n \<le> a"
  then have "of_int (2 ^ n) \<le> (of_int a :: rat)" by (simp only: of_int_le_iff)
  then show ?thesis by simp
qed

lemma int_pow_less_rat: "a < 2 ^ n \<Longrightarrow> (of_int a :: rat) < 2 ^ n"
proof -
  assume "a < 2 ^ n"
  then have "(of_int a :: rat) < of_int (2 ^ n)" by (simp only: of_int_less_iff)
  then show ?thesis by simp
qed

lemma expo_bounds:
  assumes "x \<noteq> 0"
  shows "two_pow (expo x) \<le> \<bar>x\<bar>" "\<bar>x\<bar> < two_pow (expo x + 1)"
proof -
  obtain a b where q: "quotient_of \<bar>x\<bar> = (a, b)" by (cases "quotient_of \<bar>x\<bar>")
  have b: "0 < b" using q quotient_of_denom_pos by blast
  have x: "\<bar>x\<bar> = of_int a / of_int b" using q quotient_of_div by blast
  have "0 < \<bar>x\<bar>" using assms by simp
  then have a: "0 < a" using b unfolding x by (simp add: zero_less_divide_iff)
  note wa = bit_width_pos[OF a] and wb = bit_width_pos[OF b]
  have ca: "2 ^ (bit_width a - 1) \<le> (of_int a :: rat)" "(of_int a :: rat) < 2 ^ bit_width a"
    by (rule int_pow_le_rat[OF conjunct1[OF conjunct2[OF wa]]],
      rule int_pow_less_rat[OF conjunct2[OF conjunct2[OF wa]]])
  have cb: "2 ^ (bit_width b - 1) \<le> (of_int b :: rat)" "(of_int b :: rat) < 2 ^ bit_width b"
    by (rule int_pow_le_rat[OF conjunct1[OF conjunct2[OF wb]]],
      rule int_pow_less_rat[OF conjunct2[OF conjunct2[OF wb]]])
  have wa0: "0 < bit_width a" and wb0: "0 < bit_width b" using wa wb by blast+
  let ?e = "int (bit_width a) - int (bit_width b)"
  have p: "two_pow (?e - 1) * 2 ^ bit_width b = 2 ^ (bit_width a - 1)"
  proof -
    have e: "?e - 1 + int (bit_width b) = int (bit_width a - 1)" using wa0 by linarith
    show ?thesis
      using two_pow_add[of "?e - 1" "int (bit_width b)"] unfolding e two_pow_nat by (rule sym)
  qed
  have q': "two_pow (?e + 1) * 2 ^ (bit_width b - 1) = 2 ^ bit_width a"
  proof -
    have e: "?e + 1 + int (bit_width b - 1) = int (bit_width a)" using wb0 by linarith
    show ?thesis
      using two_pow_add[of "?e + 1" "int (bit_width b - 1)"] unfolding e two_pow_nat by (rule sym)
  qed
  have bpos: "(0::rat) < of_int b" using b by simp
  have "two_pow (?e - 1) * of_int b \<le> two_pow (?e - 1) * 2 ^ bit_width b"
    by (rule mult_left_mono[OF less_imp_le[OF cb(2)] less_imp_le[OF two_pow_pos]])
  then have "two_pow (?e - 1) * of_int b \<le> of_int a" using ca(1) unfolding p by (rule order.trans)
  then have lo: "two_pow (?e - 1) \<le> \<bar>x\<bar>" unfolding x pos_le_divide_eq[OF bpos] .
  have "two_pow (?e + 1) * 2 ^ (bit_width b - 1) \<le> two_pow (?e + 1) * of_int b"
    by (rule mult_left_mono[OF cb(1) less_imp_le[OF two_pow_pos]])
  then have "of_int a < two_pow (?e + 1) * of_int b" using ca(2) unfolding q' by (rule less_le_trans[rotated])
  then have hi: "\<bar>x\<bar> < two_pow (?e + 1)" unfolding x pos_divide_less_eq[OF bpos] .
  show "two_pow (expo x) \<le> \<bar>x\<bar>" "\<bar>x\<bar> < two_pow (expo x + 1)"
    using lo hi by (auto simp: expo_def q Let_def)
qed


section \<open>Accuracy\<close>

lemma round64_error: "\<bar>round64 x - x\<bar> \<le> \<bar>x\<bar> / 2 ^ 53"
proof (cases "x = 0")
  case True
  then show ?thesis by (simp add: round64_def)
next
  case False
  let ?u = "two_pow (expo x - 52)"
  have "round64 x - x = (of_int (round_half_even (x / ?u)) - x / ?u) * ?u"
    using False two_pow_pos[of "expo x - 52"] by (simp add: round64_def Let_def left_diff_distrib)
  then have "\<bar>round64 x - x\<bar> = \<bar>of_int (round_half_even (x / ?u)) - x / ?u\<bar> * ?u"
    by (simp add: abs_mult)
  also have "\<dots> \<le> 1/2 * ?u"
    by (rule mult_right_mono[OF round_half_even_error]) (simp add: less_imp_le)
  also have "\<dots> = two_pow (expo x) / 2 ^ 53"
    using two_pow_add[of "expo x" "-52"] by (simp add: two_pow_def)
  also have "\<dots> \<le> \<bar>x\<bar> / 2 ^ 53" by (rule divide_right_mono[OF expo_bounds(1)[OF False]]) simp
  finally show ?thesis .
qed

lemma round64_0 [simp]: "round64 0 = 0"
  by (simp add: round64_def)

lemma round64_of_int:
  assumes "\<bar>n\<bar> < 2 ^ 53"
  shows "round64 (of_int n) = of_int n"
proof (cases "n = 0")
  case False
  let ?e = "expo (of_int n)"
  have n: "(of_int n :: rat) \<noteq> 0" using False by simp
  have "two_pow ?e \<le> \<bar>of_int n :: rat\<bar>" by (rule expo_bounds(1)[OF n])
  also have "\<dots> < two_pow 53"
  proof -
    have "\<bar>of_int n :: rat\<bar> = of_int \<bar>n\<bar>" by simp
    also have "\<dots> < of_int (2 ^ 53)" using assms by (simp only: of_int_less_iff)
    finally show ?thesis by (simp add: two_pow_def)
  qed
  finally have "?e \<le> 52" using two_pow_mono[of 53 ?e] by linarith
  then have u: "two_pow (?e - 52) = 1 / 2 ^ nat (52 - ?e)"
    by (cases "?e = 52") (auto simp: two_pow_def)
  have "of_int n / two_pow (?e - 52) = (of_int (n * 2 ^ nat (52 - ?e)) :: rat)" unfolding u by simp
  then have "round_half_even (of_int n / two_pow (?e - 52)) = n * 2 ^ nat (52 - ?e)"
    by (simp only: round_half_even_of_int)
  then show ?thesis using n by (simp add: round64_def Let_def u)
qed simp

lemma round64_nonneg: "0 \<le> x \<Longrightarrow> 0 \<le> round64 x"
  using round_half_even_nonneg[of "x / two_pow (expo x - 52)"]
  by (auto simp: round64_def Let_def less_imp_le)

lemma round64_bounds:
  assumes "0 < x"
  shows "two_pow (expo x) \<le> round64 x" "round64 x \<le> two_pow (expo x + 1)"
proof -
  let ?u = "two_pow (expo x - 52)"
  have u: "two_pow (expo x) = of_int (2 ^ 52) * ?u" "two_pow (expo x + 1) = of_int (2 ^ 53) * ?u"
  proof -
    have c: "two_pow 52 = of_int (2 ^ 52)" "two_pow 53 = of_int (2 ^ 53)" by (simp_all add: two_pow_def)
    have "52 + (expo x - 52) = expo x" "53 + (expo x - 52) = expo x + 1" by simp_all
    then show "two_pow (expo x) = of_int (2 ^ 52) * ?u" "two_pow (expo x + 1) = of_int (2 ^ 53) * ?u"
      using two_pow_add[of 52 "expo x - 52"] two_pow_add[of 53 "expo x - 52"] unfolding c by metis+
  qed
  have x: "two_pow (expo x) \<le> x" "x \<le> two_pow (expo x + 1)"
    using expo_bounds[of x] assms by simp_all
  have "of_int (2 ^ 52) \<le> x / ?u" using x(1) unfolding u pos_le_divide_eq[OF two_pow_pos] .
  from round_half_even_mono[OF this] have "2 ^ 52 \<le> round_half_even (x / ?u)"
    by (simp only: round_half_even_of_int)
  then have "of_int (2 ^ 52) * ?u \<le> of_int (round_half_even (x / ?u)) * ?u"
    by (intro mult_right_mono less_imp_le[OF two_pow_pos]) (simp only: of_int_le_iff)
  then show "two_pow (expo x) \<le> round64 x" using assms by (simp only: u round64_def Let_def) simp
  have "x / ?u \<le> of_int (2 ^ 53)" using x(2) unfolding u pos_divide_le_eq[OF two_pow_pos] .
  from round_half_even_mono[OF this] have "round_half_even (x / ?u) \<le> 2 ^ 53"
    by (simp only: round_half_even_of_int)
  then have "of_int (round_half_even (x / ?u)) * ?u \<le> of_int (2 ^ 53) * ?u"
    by (intro mult_right_mono less_imp_le[OF two_pow_pos]) (simp only: of_int_le_iff)
  then show "round64 x \<le> two_pow (expo x + 1)" using assms by (simp only: u round64_def Let_def) simp
qed

lemma round64_mono:
  assumes "0 \<le> x" "x \<le> y"
  shows "round64 x \<le> round64 y"
proof (cases "x = 0")
  case True
  then show ?thesis using round64_nonneg[of y] assms by simp
next
  case False
  with assms have xy: "0 < x" "0 < y" by auto
  have "two_pow (expo x) < two_pow (expo y + 1)"
    using expo_bounds(1)[of x] expo_bounds(2)[of y] xy assms(2) by simp
  then have "expo x \<le> expo y" using two_pow_mono[of "expo y + 1" "expo x"] by linarith
  then consider "expo x = expo y" | "expo x + 1 \<le> expo y" by linarith
  then show ?thesis
  proof cases
    case 1
    have "x / two_pow (expo y - 52) \<le> y / two_pow (expo y - 52)"
      using assms(2) by (intro divide_right_mono less_imp_le[OF two_pow_pos])
    from round_half_even_mono[OF this] show ?thesis
      using xy by (simp add: round64_def Let_def 1 mult_right_mono less_imp_le)
  next
    case 2
    from round64_bounds(2)[OF xy(1)] two_pow_mono[OF 2] round64_bounds(1)[OF xy(2)]
    show ?thesis by (rule order.trans[OF order.trans])
  qed
qed

lemma round64_le_int: "0 \<le> x \<Longrightarrow> x \<le> of_int n \<Longrightarrow> \<bar>n\<bar> < 2 ^ 53 \<Longrightarrow> round64 x \<le> of_int n"
  using round64_mono[of x "of_int n"] round64_of_int[of n] by simp

text \<open>A float quotient of integers below \<open>2^53\<close> has the exact ceiling and floor.\<close>

lemma quotient_gap:
  fixes a b :: int
  assumes b: "0 < b" and a: "0 \<le> a" "a < 2 ^ 53"
  shows "of_int k < (of_int a / of_int b :: rat) \<Longrightarrow> of_int k < fdiv (of_int a) (of_int b)"
    and "(of_int a / of_int b :: rat) < of_int k \<Longrightarrow> fdiv (of_int a) (of_int b) < of_int k"
proof -
  let ?x = "of_int a / of_int b :: rat"
  have bp: "(0::rat) < of_int b" using b by simp
  have xb: "?x * of_int b = of_int a" using bp by simp
  let ?y = "round64 ?x"
  have "(of_int a :: rat) < of_int (2 ^ 53)" using a(2) by (simp only: of_int_less_iff)
  then have lt: "?x / 2 ^ 53 * of_int b < 1" using xb by simp
  have "0 \<le> ?x" using a(1) bp by simp
  then have "\<bar>?y - ?x\<bar> \<le> ?x / 2 ^ 53" using round64_error[of ?x] by simp
  then have "\<bar>?y - ?x\<bar> * of_int b \<le> ?x / 2 ^ 53 * of_int b"
    by (rule mult_right_mono[OF _ less_imp_le[OF bp]])
  with lt have "\<bar>?y - ?x\<bar> * of_int b < 1" by (rule le_less_trans[rotated])
  then have "\<bar>(?y - ?x) * of_int b\<bar> < 1" using bp by (simp add: abs_mult)
  then have err: "\<bar>?y * of_int b - of_int a\<bar> < 1" using xb by (simp only: left_diff_distrib)
  {
    assume "of_int k < ?x"
    then have "of_int (k * b) < (of_int a :: rat)" using bp by (simp add: pos_less_divide_eq)
    then have "k * b + 1 \<le> a" by (simp only: of_int_less_iff)
    then have "of_int (k * b + 1) \<le> (of_int a :: rat)" by (simp only: of_int_le_iff)
    then have "of_int k * of_int b + 1 \<le> (of_int a :: rat)" by simp
    moreover have "of_int a - 1 < ?y * of_int b" using err by (simp only: abs_less_iff) linarith
    ultimately have "of_int k * of_int b < ?y * of_int b" by linarith
    then show "of_int k < ?y" using bp by (simp only: mult_less_cancel_right_pos)
  next
    assume "?x < of_int k"
    then have "(of_int a :: rat) < of_int (k * b)" using bp by (simp add: pos_divide_less_eq)
    then have "a + 1 \<le> k * b" by (simp only: of_int_less_iff)
    then have "of_int (a + 1) \<le> (of_int (k * b) :: rat)" by (simp only: of_int_le_iff)
    then have "of_int a + 1 \<le> (of_int k * of_int b :: rat)" by simp
    moreover have "?y * of_int b < of_int a + 1" using err by (simp only: abs_less_iff) linarith
    ultimately have "?y * of_int b < of_int k * of_int b" by linarith
    then show "?y < of_int k" using bp by (simp only: mult_less_cancel_right_pos)
  }
qed

text \<open>Hence \<open>math.ceil(a / b)\<close> and \<open>math.floor(a / b)\<close> are the exact ones.\<close>

lemma fdiv_exact:
  fixes a b k :: int
  assumes "0 < b" "0 \<le> a" "a < 2 ^ 53" "a = k * b"
  shows "fdiv (of_int a) (of_int b) = of_int k"
proof -
  have "(of_int a / of_int b :: rat) = of_int k" using assms by simp
  moreover have "\<bar>k\<bar> < 2 ^ 53"
  proof -
    have "0 \<le> k" using assms(1,2,4) by (simp add: zero_le_mult_iff)
    moreover have "k * 1 \<le> k * b" using assms(1) \<open>0 \<le> k\<close> by (intro mult_left_mono) auto
    ultimately show ?thesis using assms(3,4) by simp
  qed
  ultimately show ?thesis by (simp add: round64_of_int)
qed

lemma ceiling_fdiv:
  fixes a b :: int
  assumes "0 < b" "0 \<le> a" "a < 2 ^ 53"
  shows "\<lceil>fdiv (of_int a) (of_int b)\<rceil> = (a + b - 1) div b"
proof -
  let ?x = "of_int a / of_int b :: rat" and ?k = "(a + b - 1) div b"
  have bp: "(0::rat) < of_int b" using assms by simp
  have "?k * b \<le> a + b - 1" using int_le_div_iff[OF assms(1)] by blast
  then have lo: "(?k - 1) * b < a" by (simp add: left_diff_distrib)
  have "a + b - 1 < (?k + 1) * b" using int_div_less_iff[OF assms(1)] by (metis less_add_one)
  then have hi: "a \<le> ?k * b" by (simp add: distrib_right)
  have "of_int ((?k - 1) * b) < (of_int a :: rat)" using lo by (simp only: of_int_less_iff)
  then have "of_int (?k - 1) < ?x" using bp by (simp add: pos_less_divide_eq)
  then have 1: "of_int (?k - 1) < fdiv (of_int a) (of_int b)" by (rule quotient_gap(1)[OF assms])
  have 2: "fdiv (of_int a) (of_int b) \<le> of_int ?k"
  proof (cases "a = ?k * b")
    case True
    show ?thesis using fdiv_exact[OF assms True] by (simp only: order.refl)
  next
    case False
    with hi have "of_int a < (of_int (?k * b) :: rat)" by (simp only: of_int_less_iff)
    then have "?x < of_int ?k" using bp by (simp add: pos_divide_less_eq)
    then show ?thesis using quotient_gap(2)[OF assms] by (simp add: less_imp_le)
  qed
  show ?thesis using 1 2 by (simp add: ceiling_eq_iff)
qed



section \<open>float(s) and the special values\<close>

text \<open>
  Where a float comes from the user's text it may be infinite or NaN; \<open>fl\<close> rounds with
  overflow and gradual underflow.
\<close>

datatype pyfloat = Fin rat | PosInf | NegInf | NaN

definition fl :: "rat \<Rightarrow> pyfloat" where
  "fl x =
     (let u = two_pow (max (expo x - 52) (- 1074));
          r = (if x = 0 then 0 else of_int (round_half_even (x / u)) * u)
      in if r \<noteq> 0 \<and> 1024 \<le> expo r then (if 0 < r then PosInf else NegInf) else Fin r)"

fun pf_neg :: "pyfloat \<Rightarrow> pyfloat" where
  "pf_neg (Fin x) = Fin (- x)"
| "pf_neg PosInf = NegInf"
| "pf_neg NegInf = PosInf"
| "pf_neg NaN = NaN"

text \<open>Comparisons with NaN are false.\<close>

fun pf_le0 :: "pyfloat \<Rightarrow> bool" where
  "pf_le0 (Fin x) = (x \<le> 0)"
| "pf_le0 PosInf = False"
| "pf_le0 NegInf = True"
| "pf_le0 NaN = False"

text \<open>Division of positive values (or NaN); a finite divisor is not zero.\<close>

fun pf_div :: "pyfloat \<Rightarrow> pyfloat \<Rightarrow> pyfloat" where
  "pf_div (Fin x) (Fin y) = fl (x / y)"
| "pf_div (Fin x) PosInf = Fin 0"
| "pf_div (Fin x) NegInf = Fin 0"
| "pf_div PosInf (Fin y) = (if y < 0 then NegInf else PosInf)"
| "pf_div NegInf (Fin y) = (if y < 0 then PosInf else NegInf)"
| "pf_div _ _ = NaN"

definition ten_pow :: "int \<Rightarrow> rat" where
  "ten_pow e = (if 0 \<le> e then 10 ^ nat e else 1 / 10 ^ nat (- e))"

definition digits_or_empty :: "string \<Rightarrow> (nat \<times> nat) option" where
  "digits_or_empty s =
     (if s = [] then Some (0, 0)
      else map_option (\<lambda>n. (n, length (filter is_digit s))) (digits_value s))"

text \<open>Digits, a point, digits: the value and the number of digits after the point.\<close>

definition mantissa :: "string \<Rightarrow> rat option" where
  "mantissa s =
     (case split_on (CHR ''.'') s of
        [ip] \<Rightarrow> map_option of_nat (digits_value ip)
      | [ip, fp] \<Rightarrow>
          if ip = [] \<and> fp = [] then None
          else (case (digits_or_empty ip, digits_or_empty fp) of
                  (Some (a, _), Some (b, k)) \<Rightarrow> Some (of_nat a + of_nat b / 10 ^ k)
                | _ \<Rightarrow> None)
      | _ \<Rightarrow> None)"

definition float_body :: "string \<Rightarrow> pyfloat option" where
  "float_body s =
     (if s \<in> {''inf'', ''infinity''} then Some PosInf
      else if s = ''nan'' then Some NaN
      else (case split_on (CHR ''e'') s of
              [m] \<Rightarrow> map_option fl (mantissa m)
            | [m, e] \<Rightarrow>
                (let (neg, ds) = split_sign e
                 in case (mantissa m, digits_value ds) of
                      (Some x, Some n) \<Rightarrow> Some (fl (x * ten_pow (if neg then - int n else int n)))
                    | _ \<Rightarrow> None)
            | _ \<Rightarrow> None))"

definition py_float :: "string \<Rightarrow> pyfloat result" where
  "py_float s =
     (let (neg, body) = split_sign (strip s)
      in case float_body (lower body) of
           None \<Rightarrow> Inl (ValueError ''float'')
         | Some x \<Rightarrow> Inr (if neg then pf_neg x else x))"

end
