(* ===== verification/Bench_Layout.thy ===== *)
theory Bench_Layout
  imports Fqdn_Router Float64 Interval_Partition "HOL-Library.Multiset"
begin

text \<open>
  \<open>fqdnrules/benchmark.py\<close>, the part that decides what is written and asked: the depth-tier
  syntax, the partition of the rules into keys, the place of a rule in its key, and the
  names of rules, hits and misses. The pseudo-random generator \<open>random.Random\<close> is a
  parameter, \<open>rng_api\<close>, used through its documented contract \<open>rng_ok\<close>.
\<close>

definition PORTS :: "int list" where "PORTS = [443, 8443, 80]"

definition NUM_DOMAINS :: int where "NUM_DOMAINS = 10000"

definition DEFAULT_DEPTH_TIERS :: string where
  "DEFAULT_DEPTH_TIERS = ''50:1-3,30:4-20,10:21-50,10:51-2000''"

definition LAYOUT_SEED :: int where "LAYOUT_SEED = 1337"

type_synonym query = "string \<times> int \<times> string"


section \<open>Depth tiers\<close>

record depth_tier =
  weight :: pyfloat
  min_size :: int
  max_size :: int

text \<open>\<open>s.partition(c)\<close>: the text before the first \<open>c\<close>, whether there is one, the rest.\<close>

fun partition_str :: "char \<Rightarrow> string \<Rightarrow> string \<times> bool \<times> string" where
  "partition_str c [] = ([], False, [])"
| "partition_str c (x # xs) =
     (if x = c then ([], True, xs)
      else (let (a, found, b) = partition_str c xs in (x # a, found, b)))"

definition parse_tier :: "string \<Rightarrow> depth_tier result" where
  "parse_tier part =
     (let (pct_str, sep, range_str) = partition_str (CHR '':'') part;
          (lo_str, sep2, hi_str) = partition_str (CHR ''-'') range_str
      in if \<not> sep \<or> \<not> sep2 then Inl (ValueError ''expected PCT:LO-HI'')
         else (case bindR (py_float pct_str) (\<lambda>pct.
                    bindR (py_int lo_str) (\<lambda>lo.
                    bindR (py_int hi_str) (\<lambda>hi. Inr (pct, lo, hi)))) of
                 Inl _ \<Rightarrow> Inl (ValueError ''expected PCT:LO-HI'')
               | Inr (pct, lo, hi) \<Rightarrow>
                   if pf_le0 pct then Inl (ValueError ''percentage must be > 0'')
                   else if lo < 1 \<or> hi < lo then Inl (ValueError ''1 <= lo <= hi'')
                   else Inr \<lparr>weight = pct, min_size = lo, max_size = hi\<rparr>))"

text \<open>
  \<open>fsum\<close> stands for \<open>sum\<close> on floats, whose algorithm depends on the interpreter version
  (compensated since 3.12).
\<close>

definition parse_depth_tiers ::
  "(pyfloat list \<Rightarrow> pyfloat) \<Rightarrow> string \<Rightarrow> depth_tier list result" where
  "parse_depth_tiers fsum spec =
     bindR (mapR parse_tier (split_on (CHR '','') spec)) (\<lambda>tiers.
       if tiers = [] then Inl (ValueError ''no depth tiers specified'')
       else (let total_pct = fsum (map weight tiers)
             in Inr (map (\<lambda>t. \<lparr>weight = pf_div (weight t) total_pct,
                               min_size = min_size t, max_size = max_size t\<rparr>) tiers)))"

definition tier_ok :: "depth_tier \<Rightarrow> bool" where
  "tier_ok t \<longleftrightarrow> 1 \<le> min_size t \<and> min_size t \<le> max_size t"


section \<open>The generator\<close>

record 's rng_api =
  rng_choice :: "'s \<Rightarrow> depth_tier list \<Rightarrow> (depth_tier \<times> 's) result"
  rng_randint :: "'s \<Rightarrow> int \<Rightarrow> int \<Rightarrow> int \<times> 's"
  rng_randrange :: "'s \<Rightarrow> int \<Rightarrow> int \<times> 's"
  rng_shuffle :: "'s \<Rightarrow> query list \<Rightarrow> query list \<times> 's"

definition positive_weights :: "depth_tier list \<Rightarrow> bool" where
  "positive_weights tiers \<longleftrightarrow>
     tiers \<noteq> [] \<and> (\<forall>t\<in>set tiers. \<exists>w. weight t = Fin w \<and> 0 < w)"

text \<open>
  The documented contract: \<open>choices\<close> picks an element when the weights are finite and
  positive, \<open>randint\<close> and \<open>randrange\<close> stay in their ranges, \<open>shuffle\<close> permutes.
\<close>

definition rng_ok :: "'s rng_api \<Rightarrow> bool" where
  "rng_ok rng \<longleftrightarrow>
     (\<forall>s tiers. positive_weights tiers \<longrightarrow>
        (\<exists>t s'. t \<in> set tiers \<and> rng_choice rng s tiers = Inr (t, s'))) \<and>
     (\<forall>s lo hi. lo \<le> hi \<longrightarrow> lo \<le> fst (rng_randint rng s lo hi) \<and> fst (rng_randint rng s lo hi) \<le> hi) \<and>
     (\<forall>s n. 0 < n \<longrightarrow> 0 \<le> fst (rng_randrange rng s n) \<and> fst (rng_randrange rng s n) < n) \<and>
     (\<forall>s qs. mset (fst (rng_shuffle rng s qs)) = mset qs)"

lemma rng_okD:
  assumes "rng_ok rng"
  shows "positive_weights tiers \<Longrightarrow> \<exists>t s'. t \<in> set tiers \<and> rng_choice rng s tiers = Inr (t, s')"
    and "lo \<le> hi \<Longrightarrow> lo \<le> fst (rng_randint rng s lo hi) \<and> fst (rng_randint rng s lo hi) \<le> hi"
    and "0 < n \<Longrightarrow> 0 \<le> fst (rng_randrange rng s n) \<and> fst (rng_randrange rng s n) < n"
    and "mset (fst (rng_shuffle rng s qs)) = mset qs"
  using assms unfolding rng_ok_def by blast+

text \<open>A generator that always returns the least value and picks the first tier.\<close>

definition least_rng :: "unit rng_api" where
  "least_rng =
     \<lparr>rng_choice = (\<lambda>s tiers. case tiers of [] \<Rightarrow> Inl IndexError | t # _ \<Rightarrow> Inr (t, s)),
      rng_randint = (\<lambda>s lo hi. (lo, s)),
      rng_randrange = (\<lambda>s n. (0, s)),
      rng_shuffle = (\<lambda>s qs. (qs, s))\<rparr>"

lemma least_rng_ok: "rng_ok least_rng"
  by (auto simp: rng_ok_def least_rng_def positive_weights_def split: list.splits)


section \<open>The partition into keys\<close>

text \<open>The loop of \<open>build_key_sizes\<close>: \<open>None\<close> is a run that does not end.\<close>

partial_function (option) key_sizes_loop ::
  "'s rng_api \<Rightarrow> int \<Rightarrow> depth_tier list \<Rightarrow> int list \<Rightarrow> int \<Rightarrow> 's \<Rightarrow> (int list \<times> 's) result option" where
  "key_sizes_loop rng num_rules tiers sizes tot s =
     (if tot < num_rules then
        (case rng_choice rng s tiers of
           Inl e \<Rightarrow> Some (Inl e)
         | Inr ts \<Rightarrow>
             (let rs = rng_randint rng (snd ts) (min_size (fst ts)) (max_size (fst ts));
                  size = min (fst rs) (num_rules - tot)
              in key_sizes_loop rng num_rules tiers (sizes @ [size]) (tot + size) (snd rs)))
      else Some (Inr (sizes, s)))"

definition build_key_sizes ::
  "'s rng_api \<Rightarrow> int \<Rightarrow> depth_tier list \<Rightarrow> 's \<Rightarrow> (int list \<times> 's) result option" where
  "build_key_sizes rng num_rules tiers s = key_sizes_loop rng num_rules tiers [] 0 s"

record rule_layout =
  key_sizes :: "int list"
  layout_prefix :: "int list"

text \<open>\<open>itertools.accumulate\<close>.\<close>

fun accumulate :: "int \<Rightarrow> int list \<Rightarrow> int list" where
  "accumulate a [] = []"
| "accumulate a (x # xs) = (a + x) # accumulate (a + x) xs"

definition rule_layout_init :: "int list \<Rightarrow> rule_layout" where
  "rule_layout_init sizes = \<lparr>key_sizes = sizes, layout_prefix = accumulate 0 sizes\<rparr>"

definition num_keys :: "rule_layout \<Rightarrow> int" where
  "num_keys layout = int (length (key_sizes layout))"

definition key_for_rule :: "rule_layout \<Rightarrow> int \<Rightarrow> int \<times> int" where
  "key_for_rule layout i =
     (let key_id = bisect_right (layout_prefix layout) i;
          offset = (if key_id > 0 then layout_prefix layout ! (key_id - 1) else 0)
      in (int key_id, i - offset))"


section \<open>Names\<close>

definition domain_for_key :: "int \<Rightarrow> string" where
  "domain_for_key key_id = ''dragonfly'' @ py_str (key_id mod NUM_DOMAINS) @ ''.com''"

definition key_fields :: "int \<Rightarrow> int \<times> string \<times> int" where
  "key_fields key_id =
     (key_id mod 1000, domain_for_key key_id, PORTS ! nat (key_id mod 3))"

definition rule_for_index :: "int \<Rightarrow> rule_layout \<Rightarrow> rule" where
  "rule_for_index i layout =
     (let (key_id, _) = key_for_rule layout i;
          (bucket, domain, port) = key_fields key_id
      in mk_rule (''*.host'' @ py_str key_id @ ''.corp'' @ py_str bucket @ ''.'' @ domain) port
           (''*.dest'' @ py_str i @ ''.example.com'') (''rule:'' @ py_str i) BOTH)"

definition matching_query_for_index :: "int \<Rightarrow> rule_layout \<Rightarrow> query" where
  "matching_query_for_index i layout =
     (let (key_id, _) = key_for_rule layout i;
          (bucket, domain, port) = key_fields key_id
      in (''probe.host'' @ py_str key_id @ ''.corp'' @ py_str bucket @ ''.'' @ domain, port,
          ''probe.dest'' @ py_str i @ ''.example.com''))"

definition miss_query :: "'s rng_api \<Rightarrow> 's \<Rightarrow> query \<times> 's" where
  "miss_query rng s =
     (let (n, s1) = rng_randint rng s 0 (2 ^ 31 - 1);
          (junk_apex, s2) = rng_randint rng s1 0 (2 ^ 31 - 1)
      in ((''nomatch'' @ py_str n @ ''.junk'' @ py_str junk_apex @ ''.invalid'', 443,
           ''nomatch'' @ py_str n @ ''.invalid''), s2))"


section \<open>Lemmas\<close>

lemma parse_tier_ok: "parse_tier part = Inr t \<Longrightarrow> tier_ok t \<and> \<not> pf_le0 (weight t)"
  by (auto simp: parse_tier_def tier_ok_def Let_def split: prod.splits if_splits sum.splits)

lemma mapR_all: "mapR f xs = Inr ys \<Longrightarrow> (\<And>x y. f x = Inr y \<Longrightarrow> P y) \<Longrightarrow> y \<in> set ys \<Longrightarrow> P y"
  by (metis in_set_conv_nth mapR_Inr_length mapR_Inr_nth)

lemma accumulate_length [simp]: "length (accumulate a xs) = length xs"
  by (induction a xs rule: accumulate.induct) auto

lemma accumulate_nth: "k < length xs \<Longrightarrow> accumulate a xs ! k = a + sum_list (take (Suc k) xs)"
proof (induction a xs arbitrary: k rule: accumulate.induct)
  case (1 a)
  then show ?case by simp
next
  case (2 a x xs)
  then show ?case by (cases k) auto
qed

text \<open>The boundaries between keys.\<close>

definition key_bound :: "int list \<Rightarrow> nat \<Rightarrow> int" where
  "key_bound sizes k = sum_list (take k (map (max 0) sizes))"

interpretation kp: interval_partition "key_bound sizes" "length sizes" for sizes
proof
  fix i j :: nat
  assume "i \<le> j" "j \<le> length sizes"
  have "take j (map (max 0) sizes) = take i (map (max 0) sizes) @ take (j - i) (drop i (map (max 0) sizes))"
    using \<open>i \<le> j\<close> by (metis le_add_diff_inverse take_add)
  then have "key_bound sizes j = key_bound sizes i
      + sum_list (take (j - i) (drop i (map (max 0) sizes)))"
    by (simp add: key_bound_def)
  moreover have "0 \<le> sum_list (take (j - i) (drop i (map (max 0) sizes)))"
    by (rule sum_list_nonneg) (auto dest!: in_set_takeD in_set_dropD)
  ultimately show "key_bound sizes i \<le> key_bound sizes j" by linarith
qed

lemma key_bound_prefix:
  assumes "list_all (\<lambda>x. 0 \<le> x) sizes"
  shows "accumulate 0 sizes = map (\<lambda>k. key_bound sizes (Suc k)) [0..<length sizes]"
    and "key_bound sizes k = sum_list (take k sizes)"
proof -
  have "map (max 0) sizes = map id sizes"
    by (rule map_cong) (use assms in \<open>auto simp: list_all_iff max_def\<close>)
  then have m: "map (max 0) sizes = sizes" by simp
  show "key_bound sizes k = sum_list (take k sizes)" by (simp add: key_bound_def m)
  show "accumulate 0 sizes = map (\<lambda>k. key_bound sizes (Suc k)) [0..<length sizes]"
    by (rule nth_equalityI) (auto simp: accumulate_nth key_bound_def m)
qed

lemma key_bound_Suc:
  assumes "list_all (\<lambda>x. 0 \<le> x) sizes" "k < length sizes"
  shows "key_bound sizes (Suc k) = key_bound sizes k + sizes ! k"
  using assms by (simp add: key_bound_prefix(2) take_Suc_conv_app_nth)

lemma key_for_rule_eqI:
  assumes "list_all (\<lambda>x. 0 \<le> x) sizes" "k < length sizes"
    "key_bound sizes k \<le> i" "i < key_bound sizes (Suc k)"
  shows "key_for_rule (rule_layout_init sizes) i = (int k, i - key_bound sizes k)"
proof -
  have b: "bisect_right (accumulate 0 sizes) i = k"
    unfolding key_bound_prefix(1)[OF assms(1)] by (rule kp.bisect_upper[OF assms(2-4)])
  have "accumulate 0 sizes ! (k - 1) = key_bound sizes k" if "0 < k"
    unfolding key_bound_prefix(1)[OF assms(1)] using that assms(2) by (cases k) simp_all
  moreover have "key_bound sizes 0 = 0" by (simp add: key_bound_def)
  ultimately show ?thesis
    by (auto simp: key_for_rule_def rule_layout_init_def b Let_def)
qed

lemma key_for_rule_spec:
  assumes "list_all (\<lambda>x. 0 \<le> x) sizes" "0 \<le> i" "i < sum_list sizes"
  obtains k where "k < length sizes" "key_bound sizes k \<le> i" "i < key_bound sizes (Suc k)"
    "key_for_rule (rule_layout_init sizes) i = (int k, i - key_bound sizes k)"
proof -
  have "key_bound sizes 0 \<le> i" "i < key_bound sizes (length sizes)"
    using assms(2,3) by (simp_all add: key_bound_prefix(2)[OF assms(1)])
  then obtain k where "k < length sizes" "key_bound sizes k \<le> i" "i < key_bound sizes (Suc k)"
    using kp.covers by blast
  with key_for_rule_eqI[OF assms(1) this] that show ?thesis by blast
qed

lemma key_sizes_loop_ok:
  assumes "rng_ok rng" "positive_weights tiers" "list_all tier_ok tiers"
    and "0 \<le> tot" "tot \<le> num_rules" "sum_list sizes = tot" "list_all (\<lambda>x. 1 \<le> x) sizes"
  shows "\<exists>out s'. key_sizes_loop rng num_rules tiers sizes tot s = Some (Inr (out, s'))
     \<and> sum_list out = num_rules \<and> list_all (\<lambda>x. 1 \<le> x) out"
  using assms(4-7)
proof (induction "nat (num_rules - tot)" arbitrary: sizes tot s rule: less_induct)
  case less
  show ?case
  proof (cases "tot < num_rules")
    case False
    with less.prems show ?thesis by (subst key_sizes_loop.simps) simp
  next
    case True
    obtain t s1 where t: "t \<in> set tiers" "rng_choice rng s tiers = Inr (t, s1)"
      using rng_okD(1)[OF assms(1,2)] by blast
    then have ok: "1 \<le> min_size t" "min_size t \<le> max_size t"
      using assms(3) by (auto simp: list_all_iff tier_ok_def)
    obtain r s2 where r: "rng_randint rng s1 (min_size t) (max_size t) = (r, s2)" by fastforce
    have "1 \<le> r" using rng_okD(2)[OF assms(1) ok(2), of s1] ok(1) r by simp
    let ?size = "min r (num_rules - tot)"
    have sz: "1 \<le> ?size" "tot + ?size \<le> num_rules" using \<open>1 \<le> r\<close> True by auto
    have step: "key_sizes_loop rng num_rules tiers sizes tot s
        = key_sizes_loop rng num_rules tiers (sizes @ [?size]) (tot + ?size) s2"
      by (subst key_sizes_loop.simps) (simp add: True t(2) r Let_def)
    show ?thesis
      unfolding step
      by (rule less.hyps) (use less.prems sz True in auto)
  qed
qed

end
