(* ===== verification/Bench_Run.thy ===== *)
theory Bench_Run
  imports Bench_Layout
begin

text \<open>
  \<open>fqdnrules/benchmark.py\<close>, the run: the write phase in batches, the query list and its file,
  the query phase under any schedule of its threads, the latency statistics, the checks of
  the arguments and the main flow. Printing is left out, the printed numbers are values.
  Clock readings, \<open>sum\<close> on floats and the URL library are parameters.
\<close>

section \<open>Reports\<close>

text \<open>\<open>f"{x:.2f}"\<close> of a float that is not negative: the exact value rounded to hundredths.\<close>

definition fixed2 :: "rat \<Rightarrow> string" where
  "fixed2 x =
     (let c = round_half_even (x * 100)
      in py_str (c div 100) @ ''.'' @ py_str (c mod 100 div 10) @ py_str (c mod 10))"

fun human_bytes_loop :: "rat \<Rightarrow> string list \<Rightarrow> string" where
  "human_bytes_loop v [] = fixed2 v @ '' TB''"
| "human_bytes_loop v (u # us) =
     (if v < 1024 then (if u = ''B'' then py_str \<lfloor>v\<rfloor> @ '' '' @ u else fixed2 v @ '' '' @ u)
      else human_bytes_loop (fdiv v 1024) us)"

definition human_bytes :: "int \<Rightarrow> string" where
  "human_bytes n = human_bytes_loop (round64 (of_int n)) [''B'', ''KB'', ''MB'', ''GB'']"

record latency_stats =
  ls_min :: rat
  ls_avg :: rat
  ls_p50 :: rat
  ls_p90 :: rat
  ls_p99 :: rat
  ls_p99_9 :: rat
  ls_max :: rat

definition nearest_rank :: "rat list \<Rightarrow> rat \<Rightarrow> rat" where
  "nearest_rank sorted_vals p =
     (let n = int (length sorted_vals);
          idx = min (n - 1) \<lfloor>fmul p (of_int n)\<rfloor>
      in sorted_vals ! nat idx)"

definition compute_latency_stats ::
  "(rat list \<Rightarrow> rat) \<Rightarrow> rat list \<Rightarrow> latency_stats result" where
  "compute_latency_stats fsum latencies_ms =
     (let sorted_vals = sort latencies_ms; n = int (length sorted_vals)
      in if n = 0 then Inl IndexError
         else Inr \<lparr>ls_min = sorted_vals ! 0, ls_avg = fdiv (fsum sorted_vals) (of_int n),
                   ls_p50 = nearest_rank sorted_vals (round64 (1/2)),
                   ls_p90 = nearest_rank sorted_vals (round64 (9/10)),
                   ls_p99 = nearest_rank sorted_vals (round64 (99/100)),
                   ls_p99_9 = nearest_rank sorted_vals (round64 (999/1000)),
                   ls_max = last sorted_vals\<rparr>)"

text \<open>\<open>n / elapsed if elapsed > 0 else inf\<close>.\<close>

definition rate_per_sec :: "int \<Rightarrow> rat \<Rightarrow> pyfloat" where
  "rate_per_sec n elapsed = (if elapsed > 0 then fl (of_int n / elapsed) else PosInf)"

text \<open>The numbers of the layout report; \<open>min\<close> of no keys raises.\<close>

definition layout_report ::
  "rule_layout \<Rightarrow> depth_tier list \<Rightarrow> int \<Rightarrow> (int \<times> rat \<times> int \<times> int \<times> (int \<times> int) list) result" where
  "layout_report layout tiers num_rules =
     (if key_sizes layout = [] then Inl ZeroDivisionError
      else Inr (num_keys layout, fdiv (of_int num_rules) (of_int (num_keys layout)),
        Min (set (key_sizes layout)), Max (set (key_sizes layout)),
        map (\<lambda>tier. let sizes_in_tier = filter (\<lambda>s. min_size tier \<le> s \<and> s \<le> max_size tier) (key_sizes layout)
                    in (int (length sizes_in_tier), sum_list sizes_in_tier)) tiers))"


section \<open>The write phase\<close>

definition rule_bytes :: "rule \<Rightarrow> int" where
  "rule_bytes r = int (length (encode (r_fqdn2 r))) + int (length (encode (r_rule_id r))) + 1"

record 'db write_state =
  ws_db :: 'db
  ws_rules :: int
  ws_bytes :: int
  ws_progress :: "(int \<times> int) list"

text \<open>One turn of the batch loop.\<close>

definition write_batch ::
  "'db redis_api \<Rightarrow> rule_store \<Rightarrow> int \<Rightarrow> int \<Rightarrow> rule_layout \<Rightarrow> int \<Rightarrow> int \<Rightarrow> 'db write_state
     \<Rightarrow> 'db write_state result" where
  "write_batch api st num_rules batch_size layout num_batches batch_idx ws =
     (let lo = batch_idx * batch_size;
          hi = min (lo + batch_size) num_rules;
          batch = map (\<lambda>i. rule_for_index i layout) [lo..hi - 1]
      in bindR (rs_put_many api st (ws_db ws) batch) (\<lambda>db.
           let total_rules = ws_rules ws + int (length batch);
               total_bytes = ws_bytes ws + sum_list (map rule_bytes batch);
               progress_interval = max (num_batches div 100) 20;
               is_last = (batch_idx + 1 = num_batches)
           in Inr \<lparr>ws_db = db, ws_rules = total_rules, ws_bytes = total_bytes,
                   ws_progress = (if is_last \<or> (batch_idx + 1) mod progress_interval = 0
                      then ws_progress ws @ [(total_rules, total_bytes)] else ws_progress ws)\<rparr>))"

fun write_batches ::
  "'db redis_api \<Rightarrow> rule_store \<Rightarrow> int \<Rightarrow> int \<Rightarrow> rule_layout \<Rightarrow> int \<Rightarrow> int list \<Rightarrow> 'db write_state
     \<Rightarrow> 'db write_state result" where
  "write_batches api st num_rules batch_size layout num_batches [] ws = Inr ws"
| "write_batches api st num_rules batch_size layout num_batches (b # bs) ws =
     bindR (write_batch api st num_rules batch_size layout num_batches b ws)
       (write_batches api st num_rules batch_size layout num_batches bs)"

definition run_write_phase ::
  "'db redis_api \<Rightarrow> rule_store \<Rightarrow> 'db \<Rightarrow> int \<Rightarrow> int \<Rightarrow> rule_layout \<Rightarrow> 'db write_state result" where
  "run_write_phase api st db num_rules batch_size layout =
     (if batch_size = 0 then Inl ZeroDivisionError
      else let num_batches = \<lceil>fdiv (of_int num_rules) (of_int batch_size)\<rceil>
           in write_batches api st num_rules batch_size layout num_batches [0..num_batches - 1]
                \<lparr>ws_db = db, ws_rules = 0, ws_bytes = 0, ws_progress = []\<rparr>)"


section \<open>Queries and their file\<close>

fun draw_hits :: "'s rng_api \<Rightarrow> int \<Rightarrow> rule_layout \<Rightarrow> nat \<Rightarrow> 's \<Rightarrow> query list \<times> 's" where
  "draw_hits rng num_rules layout 0 s = ([], s)"
| "draw_hits rng num_rules layout (Suc k) s =
     (let (i, s1) = rng_randrange rng s num_rules;
          (qs, s2) = draw_hits rng num_rules layout k s1
      in (matching_query_for_index i layout # qs, s2))"

fun draw_misses :: "'s rng_api \<Rightarrow> nat \<Rightarrow> 's \<Rightarrow> query list \<times> 's" where
  "draw_misses rng 0 s = ([], s)"
| "draw_misses rng (Suc k) s =
     (let (q, s1) = miss_query rng s; (qs, s2) = draw_misses rng k s1 in (q # qs, s2))"

definition build_queries ::
  "'s rng_api \<Rightarrow> int \<Rightarrow> int \<Rightarrow> rat \<Rightarrow> rule_layout \<Rightarrow> 's \<Rightarrow> query list \<times> 's" where
  "build_queries rng num_rules num_queries miss_rate layout s =
     (let num_hits = round_half_even (fmul (of_int num_queries) (fsub 1 miss_rate));
          num_misses = num_queries - num_hits;
          (hits, s1) = draw_hits rng num_rules layout (nat num_hits) s;
          (misses, s2) = draw_misses rng (nat num_misses) s1
      in rng_shuffle rng s2 (hits @ misses))"

definition query_line :: "query \<Rightarrow> string" where
  "query_line q =
     (case q of (fqdn1, port, fqdn2) \<Rightarrow>
        fqdn1 @ [CHR 0x09] @ py_str port @ [CHR 0x09] @ fqdn2 @ [CHR 0x0A])"

text \<open>The text of the file, batch after batch.\<close>

function write_queries :: "query list \<Rightarrow> nat \<Rightarrow> nat \<Rightarrow> string" where
  "write_queries queries batch_size start =
     (if batch_size = 0 \<or> length queries \<le> start then []
      else concat (map query_line (take batch_size (drop start queries)))
           @ write_queries queries batch_size (start + batch_size))"
  by pat_completeness auto
termination by (relation "measure (\<lambda>(qs, b, s). length qs - s)") auto

declare write_queries.simps [simp del]

definition write_queries_to_file :: "query list \<Rightarrow> int \<Rightarrow> string result" where
  "write_queries_to_file queries batch_size =
     (if batch_size = 0 then Inl (ValueError ''range'')
      else if batch_size < 0 then Inr []
      else Inr (write_queries queries (nat batch_size) 0))"

text \<open>Text mode turns \<open>\r\n\<close> and \<open>\r\<close> into \<open>\n\<close>; iteration yields the lines.\<close>

fun universal_newlines :: "string \<Rightarrow> string" where
  "universal_newlines [] = []"
| "universal_newlines (c # s) =
     (if c = CHR 0x0D
      then (case s of
              [] \<Rightarrow> [CHR 0x0A]
            | d # s' \<Rightarrow> if d = CHR 0x0A then CHR 0x0A # universal_newlines s'
                        else CHR 0x0A # universal_newlines s)
      else c # universal_newlines s)"

definition file_lines :: "string \<Rightarrow> string list" where
  "file_lines contents =
     (let ls = split_on (CHR 0x0A) (universal_newlines contents)
      in if last ls = [] then butlast ls else ls)"

definition parse_query_line :: "string \<Rightarrow> query result" where
  "parse_query_line line =
     (case split_on (CHR 0x09) line of
        [fqdn1, port_str, fqdn2] \<Rightarrow> bindR (py_int port_str) (\<lambda>port. Inr (fqdn1, port, fqdn2))
      | _ \<Rightarrow> Inl (ValueError ''unpack''))"

fun read_lines :: "int \<Rightarrow> query list \<Rightarrow> query list \<Rightarrow> string list \<Rightarrow> query list result" where
  "read_lines batch_size queries batch [] = Inr (queries @ batch)"
| "read_lines batch_size queries batch (line # rest) =
     bindR (parse_query_line line) (\<lambda>q.
       let batch' = batch @ [q]
       in if int (length batch') \<ge> batch_size
          then read_lines batch_size (queries @ batch') [] rest
          else read_lines batch_size queries batch' rest)"

definition read_queries_from_file :: "string \<Rightarrow> int \<Rightarrow> query list result" where
  "read_queries_from_file contents batch_size = read_lines batch_size [] [] (file_lines contents)"


section \<open>The query phase\<close>

record sample_result =
  sr_index :: nat
  sr_fqdn1 :: string
  sr_port :: int
  sr_fqdn2 :: string
  sr_result :: string
  sr_latency_ms :: rat

definition sample_indices :: "int \<Rightarrow> int list" where
  "sample_indices num_queries =
     remdups (map (\<lambda>i. round_half_even (fdiv (of_int (i * (num_queries - 1))) 9)) [0..9])"

record query_state =
  qs_latencies :: "rat list"
  qs_samples :: "sample_result list"

text \<open>
  One task: \<open>clock idx\<close> gives the two readings around its lookup. The list slot is the
  task's own; the samples list is appended under the lock.
\<close>

definition run_one ::
  "'db redis_api \<Rightarrow> rule_store \<Rightarrow> 'db \<Rightarrow> match_mode \<Rightarrow> query list \<Rightarrow> (nat \<Rightarrow> rat \<times> rat) \<Rightarrow> nat
     \<Rightarrow> query_state \<Rightarrow> query_state result" where
  "run_one api st db mode queries clock idx qst =
     (let (fqdn1, port, fqdn2) = queries ! idx
      in bindR (rs_lookup api st db fqdn1 port fqdn2 mode) (\<lambda>found.
           let latency_ms = fmul (fsub (snd (clock idx)) (fst (clock idx))) 1000;
               lats = (qs_latencies qst)[idx := latency_ms]
           in if int idx \<in> set (sample_indices (int (length queries)))
              then Inr \<lparr>qs_latencies = lats,
                        qs_samples = qs_samples qst @
                          [\<lparr>sr_index = idx, sr_fqdn1 = fqdn1, sr_port = port, sr_fqdn2 = fqdn2,
                            sr_result = (case found of Some m \<Rightarrow> m_rule_id m | None \<Rightarrow> ''MISS''),
                            sr_latency_ms = latency_ms\<rparr>]\<rparr>
              else Inr \<lparr>qs_latencies = lats, qs_samples = qs_samples qst\<rparr>))"

text \<open>The tasks in the order in which they take effect.\<close>

fun run_tasks ::
  "'db redis_api \<Rightarrow> rule_store \<Rightarrow> 'db \<Rightarrow> match_mode \<Rightarrow> query list \<Rightarrow> (nat \<Rightarrow> rat \<times> rat) \<Rightarrow> nat list
     \<Rightarrow> query_state \<Rightarrow> query_state result" where
  "run_tasks api st db mode queries clock [] qst = Inr qst"
| "run_tasks api st db mode queries clock (idx # rest) qst =
     bindR (run_one api st db mode queries clock idx qst)
       (run_tasks api st db mode queries clock rest)"

text \<open>
  In the pool every task runs; \<open>list(pool.map(...))\<close> then raises the error of the first index
  whose lookup raised, if any. Lookups do not change the server. The time the whole phase took, which
  \<open>run_query_phase\<close> returns beside the latencies and samples, is left out.
\<close>

definition pool_error ::
  "'db redis_api \<Rightarrow> rule_store \<Rightarrow> 'db \<Rightarrow> match_mode \<Rightarrow> query list \<Rightarrow> unit result" where
  "pool_error api st db mode queries =
     bindR (mapR (\<lambda>(fqdn1, port, fqdn2). rs_lookup api st db fqdn1 port fqdn2 mode) queries)
       (\<lambda>_. Inr ())"

definition run_query_phase ::
  "'db redis_api \<Rightarrow> rule_store \<Rightarrow> 'db \<Rightarrow> query list \<Rightarrow> match_mode \<Rightarrow> int \<Rightarrow> nat list
     \<Rightarrow> (nat \<Rightarrow> rat \<times> rat) \<Rightarrow> (rat list \<times> sample_result list) result" where
  "run_query_phase api st db queries mode concurrency schedule clock =
     (let start = \<lparr>qs_latencies = replicate (length queries) 0, qs_samples = []\<rparr>
      in bindR (if concurrency \<le> 1
                then run_tasks api st db mode queries clock [0..<length queries] start
                else bindR (pool_error api st db mode queries)
                       (\<lambda>_. run_tasks api st db mode queries clock schedule start)) (\<lambda>qst.
           Inr (qs_latencies qst, sort_key sr_index (qs_samples qst))))"


section \<open>Arguments and the target\<close>

record bench_args =
  a_num_rules :: int
  a_num_queries :: int
  a_miss_rate :: pyfloat
  a_query_concurrency :: int
  a_query_file_batch_size :: int
  a_query_pause_seconds :: pyfloat
  a_query_source :: string
  a_num_buckets :: int
  a_rule_depth_tiers :: string
  a_write_batch_size :: int
  a_no_flush :: bool
  a_mode :: string
  a_seed :: int

fun pf_between :: "rat \<Rightarrow> pyfloat \<Rightarrow> rat \<Rightarrow> bool" where
  "pf_between lo (Fin x) hi = (lo \<le> x \<and> x \<le> hi)"
| "pf_between lo _ hi = False"

fun pf_negative :: "pyfloat \<Rightarrow> bool" where
  "pf_negative (Fin x) = (x < 0)"
| "pf_negative NegInf = True"
| "pf_negative _ = False"

text \<open>The first check that fails ends the program; \<open>None\<close> is acceptance.\<close>

definition validate_args ::
  "(pyfloat list \<Rightarrow> pyfloat) \<Rightarrow> bool \<Rightarrow> bench_args \<Rightarrow> string option" where
  "validate_args fsum query_file_exists args =
     (if \<not> (1000 \<le> a_num_rules args \<and> a_num_rules args \<le> 500000000) then Some ''--num-rules''
      else if \<not> (100 \<le> a_num_queries args \<and> a_num_queries args \<le> 50000000)
        then Some ''--num-queries''
      else if \<not> pf_between 0 (a_miss_rate args) 1 then Some ''--miss-rate''
      else if \<not> (1 \<le> a_query_concurrency args \<and> a_query_concurrency args \<le> 256)
        then Some ''--query-concurrency''
      else if a_query_file_batch_size args < 1 then Some ''--query-file-batch-size''
      else if pf_negative (a_query_pause_seconds args) then Some ''--query-pause-seconds''
      else if a_query_source args = ''reuse'' \<and> \<not> query_file_exists
        then Some ''--query-source reuse''
      else if a_num_buckets args < 1 then Some ''--num-buckets''
      else (case parse_depth_tiers fsum (a_rule_depth_tiers args) of
              Inl (ValueError _) \<Rightarrow> Some ''--rule-depth-tiers''
            | _ \<Rightarrow> None))"

text \<open>\<open>s.rpartition(c)\<close>.\<close>

definition rpartition_str :: "char \<Rightarrow> string \<Rightarrow> string \<times> bool \<times> string" where
  "rpartition_str c s =
     (let (b, found, a) = partition_str c (rev s)
      in if found then (rev a, True, rev b) else ([], False, s))"

record url_parts =
  u_scheme :: string
  u_netloc :: string
  u_path :: string
  u_query :: string
  u_fragment :: string

text \<open>The property \<open>password\<close> of a split URL.\<close>

definition url_password :: "url_parts \<Rightarrow> string option" where
  "url_password parts =
     (let (userinfo, have_info, hostinfo) = rpartition_str (CHR ''@'') (u_netloc parts)
      in if have_info then
           (let (user, have_password, password) = partition_str (CHR '':'') userinfo
            in if have_password then Some password else None)
         else None)"

definition describe_target ::
  "(string \<Rightarrow> url_parts) \<Rightarrow> (url_parts \<Rightarrow> string) \<Rightarrow> string option \<Rightarrow> string \<Rightarrow> int \<Rightarrow> int \<Rightarrow> string" where
  "describe_target urlsplit urlunsplit uri host port db =
     (case uri of
        None \<Rightarrow> host @ '':'' @ py_str port @ '' db='' @ py_str db
      | Some u \<Rightarrow>
          if u = [] then host @ '':'' @ py_str port @ '' db='' @ py_str db
          else (let parts = urlsplit u
                in if url_password parts = None then u
                   else (let (userinfo, _, hostport) = rpartition_str (CHR ''@'') (u_netloc parts);
                             (user, _, _) = partition_str (CHR '':'') userinfo;
                             netloc = user @ '':***@'' @ hostport
                         in urlunsplit (parts\<lparr>u_netloc := netloc\<rparr>))))"

end
