(* ===== verification/Bench_Names.thy ===== *)
theory Bench_Names
  imports Bench_Run Router_Spec
begin

text \<open>
  The names the benchmark builds, as lists of labels: they are normal, and which of the
  written patterns cover which query.
\<close>

definition name_char :: "char \<Rightarrow> bool" where
  "name_char c \<longleftrightarrow> is_digit c \<or> (97 \<le> ord c \<and> ord c \<le> (122::nat))"

definition label_ok :: "string \<Rightarrow> bool" where
  "label_ok l \<longleftrightarrow> l \<noteq> [] \<and> list_all name_char l"

lemma name_char_facts:
  assumes "name_char c"
  shows "c \<noteq> CHR ''.''" "c \<noteq> CHR ''*''" "c \<noteq> CHR '':''" "\<not> is_space c" "lower_char c = c"
    "c \<noteq> CHR 0x09" "c \<noteq> CHR 0x0A" "c \<noteq> CHR 0x0D" "c \<noteq> CHR ''}''" "c \<noteq> CHR ''{''"
  using assms by (auto simp: name_char_def is_digit_def is_space_def lower_char_def Let_def)

lemma label_no_dot: "label_ok l \<Longrightarrow> CHR ''.'' \<notin> set l"
  using name_char_facts(1) by (auto simp: label_ok_def list_all_iff)

lemma label_ok_append [simp]: "list_all name_char a \<Longrightarrow> label_ok b \<Longrightarrow> label_ok (a @ b)"
  by (auto simp: label_ok_def)

lemma label_py_str: "0 \<le> z \<Longrightarrow> label_ok (py_str z)"
  using dec_digits by (auto simp: label_ok_def py_str_def list_all_iff name_char_def)

lemma split_labels: "ls \<noteq> [] \<Longrightarrow> list_all label_ok ls \<Longrightarrow> split_on (CHR ''.'') (join ''.'' ls) = ls"
  by (rule split_on_join) (auto simp: list_all_iff label_no_dot)

lemma join_labels_chars:
  assumes "list_all label_ok ls" "c \<in> set (join ''.'' ls)"
  shows "name_char c \<or> c = CHR ''.''"
  using set_join[of "''.''" ls] assms by (fastforce simp: list_all_iff label_ok_def)

lemma normalize_labels:
  assumes "ls \<noteq> []" "list_all label_ok ls" "length ls \<le> 20"
  shows "normalize_fqdn (join ''.'' ls) = Inr (join ''.'' ls)"
proof -
  let ?s = "join ''.'' ls"
  have ch: "\<not> is_space c" "lower_char c = c" "c \<noteq> CHR ''*''" if "c \<in> set ?s" for c
  proof -
    have d: "\<not> is_space (CHR ''.'')" "lower_char (CHR ''.'') = CHR ''.''" by code_simp+
    show "\<not> is_space c" "lower_char c = c" "c \<noteq> CHR ''*''"
      using join_labels_chars[OF assms(2) that] name_char_facts d by auto
  qed
  have sp: "split_on (CHR ''.'') ?s = ls" by (rule split_labels[OF assms(1,2)])
  have ne: "\<forall>l\<in>set ls. l \<noteq> []" using assms(2) by (auto simp: list_all_iff label_ok_def)
  have clean: "clean ?s"
    unfolding clean_def sp using ne ch(3) assms(3) by (auto simp: MAX_LABELS_def)
  have "last ?s \<noteq> CHR ''.''"
  proof
    assume "last ?s = CHR ''.''"
    then have "?s = butlast ?s @ [CHR ''.'']"
      using clean_nonempty[OF clean] by (metis append_butlast_last_id)
    then have "[] \<in> set (split_on (CHR ''.'') ?s)"
      using split_on_append_sep[of "CHR ''.''" "butlast ?s" "[]"]
      by (metis Un_iff list.set_intros(1) set_append split_on.simps(1))
    then show False using ne sp by auto
  qed
  then have "rstrip_dots ?s = ?s"
    using clean_nonempty[OF clean] by (simp add: rstrip_dots_def rstrip_by_id)
  moreover have "strip ?s = ?s" by (rule strip_id) (rule ch(1))
  moreover have "lower ?s = ?s" unfolding lower_def by (rule map_idI) (rule ch(2))
  ultimately show ?thesis using clean clean_nonempty[OF clean] by (simp add: normalize_fqdn_Inr)
qed

lemma labels_no_colon: "list_all label_ok ls \<Longrightarrow> CHR '':'' \<notin> set (join ''.'' ls)"
  using join_labels_chars[of ls "CHR '':''"] name_char_facts(3)[of "CHR '':''"] by auto


section \<open>The names as labels\<close>

definition key_labels :: "int \<Rightarrow> string list" where
  "key_labels k = [''host'' @ py_str k, ''corp'' @ py_str (k mod 1000),
     ''dragonfly'' @ py_str (k mod NUM_DOMAINS), ''com'']"

definition dest_labels :: "int \<Rightarrow> string list" where
  "dest_labels i = [''dest'' @ py_str i, ''example'', ''com'']"

definition key_port :: "int \<Rightarrow> int" where
  "key_port k = PORTS ! nat (k mod 3)"

lemma rule_for_index_labels:
  "rule_for_index i layout =
     (let k = fst (key_for_rule layout i)
      in mk_rule (''*.'' @ join ''.'' (key_labels k)) (key_port k) (''*.'' @ join ''.'' (dest_labels i))
           (''rule:'' @ py_str i) BOTH)"
  by (simp add: rule_for_index_def key_fields_def key_labels_def dest_labels_def key_port_def
      domain_for_key_def Let_def case_prod_unfold)

lemma matching_query_labels:
  "matching_query_for_index i layout =
     (let k = fst (key_for_rule layout i)
      in (join ''.'' (''probe'' # key_labels k), key_port k, join ''.'' (''probe'' # dest_labels i)))"
  by (simp add: matching_query_for_index_def key_fields_def key_labels_def dest_labels_def
      key_port_def domain_for_key_def Let_def case_prod_unfold)

lemma label_literals:
  "label_ok ''probe''" "label_ok ''com''" "label_ok ''example''" "label_ok ''invalid''"
  "list_all name_char ''host''" "list_all name_char ''corp''" "list_all name_char ''dragonfly''"
  "list_all name_char ''dest''" "list_all name_char ''nomatch''" "list_all name_char ''junk''"
  by code_simp+

lemma label_ok_Cons: "label_ok s \<Longrightarrow> label_ok (c # s) \<longleftrightarrow> name_char c"
  by (auto simp: label_ok_def)

lemma name_letters: "list_all name_char ''abcdefghijklmnopqrstuvwxyz''"
  by code_simp

lemmas name_letter_simps = name_letters[simplified]

lemma key_labels_ok: "0 \<le> k \<Longrightarrow> list_all label_ok (key_labels k)"
  by (simp add: key_labels_def NUM_DOMAINS_def label_ok_Cons label_py_str label_literals name_letter_simps)

lemma dest_labels_ok: "0 \<le> i \<Longrightarrow> list_all label_ok (dest_labels i)"
  by (simp add: dest_labels_def label_ok_Cons label_py_str label_literals name_letter_simps)

lemma key_port_valid: "0 < key_port k \<and> key_port k < 65536"
proof -
  have "0 \<le> k mod 3" "k mod 3 < 3" by auto
  then have "k mod 3 \<in> {0, 1, 2}" by auto
  then show ?thesis by (auto simp: key_port_def PORTS_def)
qed

lemma rule_for_index_ok:
  assumes "0 \<le> fst (key_for_rule layout i)"
  shows "rule_ok (rule_for_index i layout)"
  using labels_no_colon[OF key_labels_ok[OF assms]] key_port_valid
  by (simp add: rule_for_index_labels Let_def rule_ok_def mk_rule_def)

text \<open>A wildcard pattern covers a name exactly when its labels are a proper suffix.\<close>

lemma star_pattern_matches:
  assumes "list_all label_ok ps" "ps \<noteq> []" "list_all label_ok qs" "qs \<noteq> []"
    and "pattern_matches mode (''*.'' @ join ''.'' ps) (join ''.'' qs)"
  shows "\<exists>xs. xs \<noteq> [] \<and> qs = xs @ ps"
proof -
  have star: "CHR ''*'' \<notin> set (join ''.'' qs)"
    using join_labels_chars[OF assms(3), of "CHR ''*''"] name_char_facts(2)[of "CHR ''*''"] by auto
  have "CHR ''*'' \<in> set (''*.'' @ join ''.'' ps)" by simp
  then have "''*.'' @ join ''.'' ps \<noteq> join ''.'' qs" using star by metis
  then obtain x where x: "join ''.'' qs = x @ CHR ''.'' # join ''.'' ps"
    using assms(5) unfolding pattern_matches_iff by auto
  have "qs = split_on (CHR ''.'') (join ''.'' qs)" using split_labels[OF assms(4,3)] by (rule sym)
  also have "\<dots> = split_on (CHR ''.'') x @ ps"
    unfolding x split_on_append_sep split_labels[OF assms(2,1)] ..
  finally show ?thesis by (intro exI[of _ "split_on (CHR ''.'') x"]) simp
qed

lemma star_pattern_covers:
  assumes "list_all label_ok ps" "ps \<noteq> []" "label_ok l"
  shows "pattern_matches mode (''*.'' @ join ''.'' ps) (join ''.'' (l # ps))"
    and "rank_of (''*.'' @ join ''.'' ps) (join ''.'' (l # ps)) = 1"
proof -
  have j: "join ''.'' (l # ps) = l @ CHR ''.'' # join ''.'' ps" using assms(2) by (simp add: join_Cons)
  show "pattern_matches mode (''*.'' @ join ''.'' ps) (join ''.'' (l # ps))"
    unfolding pattern_matches_iff j using assms(3) label_no_dot by (auto simp: label_ok_def)
  have a: "list_all label_ok (l # ps)" using assms by simp
  have "CHR ''*'' \<notin> set (join ''.'' (l # ps))"
    using join_labels_chars[OF a, of "CHR ''*''"] name_char_facts(2)[of "CHR ''*''"] by auto
  moreover have "CHR ''*'' \<in> set (''*.'' @ join ''.'' ps)" by simp
  ultimately have "''*.'' @ join ''.'' ps \<noteq> join ''.'' (l # ps)" by metis
  moreover have "num_labels (join ''.'' (l # ps)) = Suc (length ps)"
    using split_labels[OF _ a] by simp
  moreover have "num_labels (join ''.'' ps) = length ps" using split_labels[OF assms(2,1)] by simp
  ultimately show "rank_of (''*.'' @ join ''.'' ps) (join ''.'' (l # ps)) = 1"
    by (simp add: rank_of_def)
qed

lemma dest_pattern_unique:
  assumes "0 \<le> i" "0 \<le> j" "label_ok l"
    and "pattern_matches mode (''*.'' @ join ''.'' (dest_labels i)) (join ''.'' (l # dest_labels j))"
  shows "i = j"
proof -
  obtain xs where "xs \<noteq> []" "l # dest_labels j = xs @ dest_labels i"
    using star_pattern_matches[OF dest_labels_ok[OF assms(1)] _ _ _ assms(4)] dest_labels_ok[OF assms(2)] assms(3)
    by (auto simp: dest_labels_def)
  then have "dest_labels j = dest_labels i"
    by (cases xs) (auto simp: dest_labels_def append_eq_Cons_conv)
  then show ?thesis by (simp add: dest_labels_def)
qed

lemma dest_pattern_long:
  assumes "0 \<le> i" "list_all label_ok qs" "qs \<noteq> []" "length qs \<le> 3"
  shows "\<not> pattern_matches mode (''*.'' @ join ''.'' (dest_labels i)) (join ''.'' qs)"
proof
  assume "pattern_matches mode (''*.'' @ join ''.'' (dest_labels i)) (join ''.'' qs)"
  from star_pattern_matches[OF dest_labels_ok[OF assms(1)] _ assms(2,3) this]
  obtain xs where "xs \<noteq> []" "qs = xs @ dest_labels i" by (auto simp: dest_labels_def)
  then have "length qs = length xs + 3" "0 < length xs" by (auto simp: dest_labels_def)
  with assms(4) show False by simp
qed


section \<open>The table after the write phase\<close>

definition bench_rules :: "rule_layout \<Rightarrow> int \<Rightarrow> rule list" where
  "bench_rules layout n = map (\<lambda>i. rule_for_index i layout) [0..n - 1]"

lemma bench_rules_key: "rule_key (rule_for_index i layout) = rule_key (rule_for_index j layout) \<longleftrightarrow> i = j"
  by (auto simp: rule_for_index_labels rule_key_def mk_rule_def Let_def dest_labels_def)

lemma bench_rules_distinct: "distinct (map rule_key (bench_rules layout n))"
  by (auto simp: bench_rules_def distinct_map inj_on_def bench_rules_key)

lemma bench_table:
  "foldl table_put no_rules (bench_rules layout n) x = Some v \<longleftrightarrow>
     (\<exists>i. 0 \<le> i \<and> i < n \<and> x = rule_key (rule_for_index i layout) \<and> v = (BOTH, ''rule:'' @ py_str i))"
proof -
  let ?e = "\<lambda>r. (rule_key r, (r_scope r, r_rule_id r))"
  have d: "distinct (map fst (map ?e (bench_rules layout n)))"
    using bench_rules_distinct by (simp add: comp_def)
  have "foldl table_put no_rules (bench_rules layout n) x = Some v
      \<longleftrightarrow> map_of (map ?e (bench_rules layout n)) x = Some v"
    unfolding foldl_table_put[OF bench_rules_distinct] by (simp add: no_rules_def split: option.split)
  also have "\<dots> \<longleftrightarrow> (x, v) \<in> set (map ?e (bench_rules layout n))"
    using map_of_eq_Some_iff[OF d] .
  also have "\<dots> \<longleftrightarrow> (\<exists>i. 0 \<le> i \<and> i < n \<and> x = rule_key (rule_for_index i layout)
      \<and> v = (BOTH, ''rule:'' @ py_str i))"
    by (auto simp: bench_rules_def rule_for_index_labels mk_rule_def Let_def)
  finally show ?thesis .
qed

end
