(* ===== verification/Bench_Spec.thy ===== *)
theory Bench_Spec
  imports Bench_Names
begin

text \<open>
  What the benchmark's parts guarantee, from the tier syntax to the answers of its queries.
\<close>

section \<open>Layout\<close>

lemma parse_depth_tiers_Inr:
  assumes "parse_depth_tiers fsum spec = Inr tiers"
  obtains raw where "mapR parse_tier (split_on (CHR '','') spec) = Inr raw" "raw \<noteq> []"
    "tiers = map (\<lambda>t. \<lparr>weight = pf_div (weight t) (fsum (map weight raw)),
                       min_size = min_size t, max_size = max_size t\<rparr>) raw"
  using assms by (auto simp: parse_depth_tiers_def result_simps Let_def split: if_splits)

text \<open>
  A depth-tier text that is accepted has one tier per comma-separated part, at least
  one, and every tier's sizes satisfy 1 <= lo <= hi, with lo and hi the integers of its part.
\<close>

theorem depth_tiers_wellformed:
  assumes "parse_depth_tiers fsum spec = Inr tiers"
  shows "tiers \<noteq> [] \<and> length tiers = length (split_on (CHR '','') spec) \<and> list_all tier_ok tiers
    \<and> (\<forall>i<length tiers. \<exists>t. parse_tier (split_on (CHR '','') spec ! i) = Inr t
         \<and> min_size (tiers ! i) = min_size t \<and> max_size (tiers ! i) = max_size t)"
proof -
  obtain raw where raw: "mapR parse_tier (split_on (CHR '','') spec) = Inr raw" "raw \<noteq> []"
    "tiers = map (\<lambda>t. \<lparr>weight = pf_div (weight t) (fsum (map weight raw)),
                       min_size = min_size t, max_size = max_size t\<rparr>) raw"
    using parse_depth_tiers_Inr[OF assms] by blast
  have "tier_ok t" if "t \<in> set raw" for t
    using mapR_all[OF raw(1) _ that, of tier_ok] parse_tier_ok by blast
  then have "list_all tier_ok tiers" by (auto simp: raw(3) list_all_iff tier_ok_def)
  with raw mapR_Inr_length[OF raw(1)] mapR_Inr_nth[OF raw(1)] show ?thesis by auto
qed

definition sum_fin :: "pyfloat list \<Rightarrow> pyfloat" where
  "sum_fin xs = fl (sum_list (map (\<lambda>x. case x of Fin r \<Rightarrow> r | _ \<Rightarrow> 0) xs))"

lemma default_tiers:
  "parse_depth_tiers sum_fin DEFAULT_DEPTH_TIERS = Inr
     [\<lparr>weight = Fin (1/2), min_size = 1, max_size = 3\<rparr>,
      \<lparr>weight = fl (3/10), min_size = 4, max_size = 20\<rparr>,
      \<lparr>weight = fl (1/10), min_size = 21, max_size = 50\<rparr>,
      \<lparr>weight = fl (1/10), min_size = 51, max_size = 2000\<rparr>]"
  by code_simp

theorem depth_tiers_wellformed_witness:
  "\<exists>tiers. parse_depth_tiers sum_fin DEFAULT_DEPTH_TIERS = Inr tiers \<and> list_all tier_ok tiers
     \<and> length tiers = 4"
  using depth_tiers_wellformed[OF default_tiers] default_tiers by auto

text \<open>
  The validation of a depth tier lets NaN and infinite percentages through: "nan:1-3"
  is accepted, although the weight drawn from it is not a number.
\<close>

theorem depth_tiers_accept_nan:
  "parse_depth_tiers fsum ''nan:1-3''
     = Inr [\<lparr>weight = NaN, min_size = 1, max_size = 3\<rparr>]"
proof -
  have "mapR parse_tier (split_on (CHR '','') ''nan:1-3'')
      = Inr [\<lparr>weight = NaN, min_size = 1, max_size = 3\<rparr>]" by code_simp
  moreover have "pf_div NaN y = NaN" for y by (cases y) auto
  ultimately show ?thesis by (simp add: parse_depth_tiers_def Let_def)
qed

lemma key_sizes_total:
  assumes "rng_ok rng" "positive_weights tiers" "list_all tier_ok tiers" "0 \<le> num_rules"
  shows "\<exists>sizes s'. build_key_sizes rng num_rules tiers s = Some (Inr (sizes, s'))
     \<and> sum_list sizes = num_rules \<and> list_all (\<lambda>x. 1 \<le> x) sizes"
  using key_sizes_loop_ok[OF assms(1-3) _ assms(4)] by (simp add: build_key_sizes_def)

text \<open>
  The partition of the rules into keys always ends, and its key sizes are all at least
  one and sum to exactly the number of rules, so the last key is trimmed, never overfull.
\<close>

theorem key_sizes_partition:
  assumes "rng_ok rng" "positive_weights tiers" "list_all tier_ok tiers" "0 \<le> num_rules"
  shows "\<exists>sizes s'. build_key_sizes rng num_rules tiers s = Some (Inr (sizes, s'))
     \<and> sum_list sizes = num_rules \<and> list_all (\<lambda>x. 1 \<le> x) sizes"
  using assms by (rule key_sizes_total)

theorem key_sizes_partition_witness:
  "\<exists>sizes. build_key_sizes least_rng 1000 [\<lparr>weight = Fin 1, min_size = 3, max_size = 7\<rparr>] ()
       = Some (Inr (sizes, ())) \<and> sum_list sizes = 1000 \<and> list_all (\<lambda>x. 1 \<le> x) sizes"
  using key_sizes_partition[OF least_rng_ok, of "[\<lparr>weight = Fin 1, min_size = 3, max_size = 7\<rparr>]" 1000]
  by (simp add: positive_weights_def tier_ok_def)

lemma positive_sizes: "list_all (\<lambda>x. 1 \<le> x) sizes \<Longrightarrow> list_all (\<lambda>x. 0 \<le> x) (sizes :: int list)"
  by (auto simp: list_all_iff)

text \<open>
  The layout places every rule: a rule index below the number of rules belongs to one
  key, at a position below that key's size, and the index is the number of rules in the
  earlier keys plus that position. Different indices get different places.
\<close>

theorem layout_places_rules:
  assumes "list_all (\<lambda>x. 1 \<le> x) sizes" "0 \<le> i" "i < sum_list sizes" "0 \<le> j" "j < sum_list sizes"
  shows "case key_for_rule (rule_layout_init sizes) i of (k, pos) \<Rightarrow>
      0 \<le> k \<and> k < num_keys (rule_layout_init sizes) \<and> 0 \<le> pos \<and> pos < sizes ! nat k
      \<and> i = sum_list (take (nat k) sizes) + pos
      \<and> (key_for_rule (rule_layout_init sizes) j = (k, pos)) = (j = i)"
proof -
  note s = positive_sizes[OF assms(1)]
  obtain k where k: "k < length sizes" "key_bound sizes k \<le> i" "i < key_bound sizes (Suc k)"
    "key_for_rule (rule_layout_init sizes) i = (int k, i - key_bound sizes k)"
    using key_for_rule_spec[OF s assms(2,3)] by blast
  obtain l where l: "l < length sizes" "key_bound sizes l \<le> j" "j < key_bound sizes (Suc l)"
    "key_for_rule (rule_layout_init sizes) j = (int l, j - key_bound sizes l)"
    using key_for_rule_spec[OF s assms(4,5)] by blast
  have "key_for_rule (rule_layout_init sizes) j = (int k, i - key_bound sizes k) \<longleftrightarrow> j = i"
    using k(4) l(4) by auto
  with k key_bound_Suc[OF s k(1)] show ?thesis
    by (simp add: key_bound_prefix(2)[OF s] num_keys_def rule_layout_init_def)
qed

theorem layout_places_rules_witness:
  "key_for_rule (rule_layout_init [3, 1, 4]) 5 = (2, 1)
   \<and> (key_for_rule (rule_layout_init [3, 1, 4]) 6 = (2, 1)) = (6 = (5 :: int))"
proof -
  have "key_for_rule (rule_layout_init [3, 1, 4]) 5 = (2, 1)" by code_simp
  then show ?thesis using layout_places_rules[of "[3, 1, 4]" 5 6] by simp
qed


section \<open>Writing\<close>

lemma batch_concat:
  assumes "0 < b" "0 \<le> n" "0 \<le> m" "m \<le> (n + b - 1) div b"
  shows "concat (map (\<lambda>k. [k * b..min (k * b + b) n - 1]) [0..m - 1]) = [0..min (m * b) n - 1]"
  using assms(3,4)
proof (induction "nat m" arbitrary: m)
  case 0
  then have "m = 0" by simp
  then show ?case using assms(2) by simp
next
  case (Suc d)
  let ?p = "m - 1"
  have p: "0 \<le> ?p" "?p \<le> (n + b - 1) div b" "d = nat ?p" using Suc.hyps(2) Suc.prems by auto
  have "?p * b < n"
  proof -
    have "m * b \<le> n + b - 1" using Suc.prems int_le_div_iff[OF assms(1), of m "n + b - 1"] by blast
    then show ?thesis by (simp add: left_diff_distrib)
  qed
  then have m: "min (?p * b) n = ?p * b" by simp
  have u: "[0..m - 1] = [0..?p - 1] @ [?p]" using upto_rec2[of 0 "m - 1"] p(1) by simp
  have "[0..min (m * b) n - 1] = [0..?p * b - 1] @ [?p * b..min (m * b) n - 1]"
    using upto_split1[of 0 "?p * b" "min (m * b) n - 1"] \<open>?p * b < n\<close> p(1) assms(1)
    by (simp add: left_diff_distrib)
  with Suc.hyps(1)[OF p(3,1,2)] show ?case
    unfolding u m by (simp add: left_diff_distrib)
qed

lemma write_batches_represents:
  assumes "redis_laws api" "store_ok st"
    and ok: "\<And>i. rule_ok (rule_for_index i layout)"
    and "represents api st (ws_db ws) A"
  shows "\<exists>ws'. write_batches api st num_rules batch_size layout nb bs ws = Inr ws'
    \<and> (let is = concat (map (\<lambda>k. [k * batch_size..min (k * batch_size + batch_size) num_rules - 1]) bs);
           rs = map (\<lambda>i. rule_for_index i layout) is
       in represents api st (ws_db ws') (foldl table_put A rs)
        \<and> ws_rules ws' = ws_rules ws + int (length rs)
        \<and> ws_bytes ws' = ws_bytes ws + sum_list (map rule_bytes rs))"
  using assms(4)
proof (induction bs arbitrary: ws A)
  case Nil
  then show ?case by simp
next
  case (Cons k bs)
  let ?batch = "map (\<lambda>i. rule_for_index i layout) [k * batch_size..min (k * batch_size + batch_size) num_rules - 1]"
  have "list_all rule_ok ?batch" using ok by (simp add: list_all_iff)
  then obtain db where db: "rs_put_many api st (ws_db ws) ?batch = Inr db"
    "represents api st db (foldl table_put A ?batch)"
    using put_many_represents[OF assms(1,2) Cons.prems] by blast
  then obtain ws1 where ws1: "write_batch api st num_rules batch_size layout nb k ws = Inr ws1"
    "ws_db ws1 = db" "ws_rules ws1 = ws_rules ws + int (length ?batch)"
    "ws_bytes ws1 = ws_bytes ws + sum_list (map rule_bytes ?batch)"
    by (simp add: write_batch_def Let_def)
  have "represents api st (ws_db ws1) (foldl table_put A ?batch)" using db(2) ws1(2) by simp
  from Cons.IH[OF this] ws1(1,3,4) show ?case by (auto simp: Let_def)
qed

lemma key_for_rule_nonneg: "0 \<le> fst (key_for_rule layout i)"
  by (simp add: key_for_rule_def Let_def)

lemma write_phase_represents:
  assumes "redis_laws api" "store_ok st" "represents api st db A"
    and "0 < batch_size" "0 \<le> num_rules" "num_rules < 2 ^ 53"
  shows "\<exists>ws. run_write_phase api st db num_rules batch_size layout = Inr ws
    \<and> represents api st (ws_db ws) (foldl table_put A (bench_rules layout num_rules))
    \<and> ws_rules ws = num_rules
    \<and> ws_bytes ws = sum_list (map rule_bytes (bench_rules layout num_rules))"
proof -
  have nb: "\<lceil>fdiv (of_int num_rules) (of_int batch_size)\<rceil> = (num_rules + batch_size - 1) div batch_size"
    by (rule ceiling_fdiv[OF assms(4-6)])
  let ?m = "(num_rules + batch_size - 1) div batch_size"
  have m0: "0 \<le> ?m" using assms(4,5) by (simp add: pos_imp_zdiv_nonneg_iff)
  have "num_rules + batch_size - 1 < (?m + 1) * batch_size"
    using int_div_less_iff[OF assms(4)] by (metis less_add_one)
  then have full: "min (?m * batch_size) num_rules = num_rules" by (simp add: distrib_right)
  have c: "concat (map (\<lambda>k. [k * batch_size..min (k * batch_size + batch_size) num_rules - 1]) [0..?m - 1])
      = [0..num_rules - 1]"
    using batch_concat[OF assms(4,5) m0 order.refl] unfolding full .
  let ?ws = "\<lparr>ws_db = db, ws_rules = 0, ws_bytes = 0, ws_progress = []\<rparr>"
  have "represents api st (ws_db ?ws) A" using assms(3) by simp
  from write_batches_represents[OF assms(1,2) rule_for_index_ok[OF key_for_rule_nonneg] this,
      of num_rules batch_size layout ?m "[0..?m - 1]"]
  show ?thesis
    using assms(4,5) unfolding run_write_phase_def nb Let_def c
    by (auto simp: bench_rules_def)
qed

text \<open>
  C18: The write phase writes every rule once, in order, whatever the batch size: it succeeds,
  reports exactly the number of rules and of value bytes, and leaves a store whose table is
  the old one updated with rule 0, rule 1 and so on.
\<close>

theorem write_phase_writes_all:
  assumes "redis_laws api" "store_ok st" "represents api st db A"
    and "0 < batch_size" "0 \<le> num_rules" "num_rules < 2 ^ 53"
  shows "\<exists>ws. run_write_phase api st db num_rules batch_size layout = Inr ws
    \<and> represents api st (ws_db ws)
        (foldl table_put A (map (\<lambda>i. rule_for_index i layout) [0..num_rules - 1]))
    \<and> ws_rules ws = num_rules
    \<and> ws_bytes ws = sum_list (map (\<lambda>i. rule_bytes (rule_for_index i layout)) [0..num_rules - 1])"
  using write_phase_represents[OF assms] by (simp add: bench_rules_def comp_def)

theorem write_phase_writes_all_witness:
  "\<exists>ws. run_write_phase mem_api store4 mem_empty 1000 300 (rule_layout_init [400, 600]) = Inr ws
    \<and> ws_rules ws = 1000"
  using write_phase_writes_all[OF mem_laws store4_ok mem_represents, of 300 1000] by auto

text \<open>
  The write batch size is not checked before the run, unlike the other sizes: with zero
  the write phase fails with ZeroDivisionError, and with a negative size it succeeds without writing a single rule.
\<close>

theorem write_batch_size_unchecked:
  "run_write_phase api st db num_rules 0 layout = Inl ZeroDivisionError
   \<and> run_write_phase api st db 1000 (- 5) layout
       = Inr \<lparr>ws_db = db, ws_rules = 0, ws_bytes = 0, ws_progress = []\<rparr>"
proof -
  have "\<lceil>fdiv (of_int 1000) (of_int (- 5))\<rceil> = - 200" by code_simp
  then show ?thesis by (simp add: run_write_phase_def Let_def)
qed



section \<open>Asking\<close>

lemma bench_hit_applies:
  assumes "0 \<le> i" "i < n"
  shows "applies (foldl table_put no_rules (bench_rules layout n)) mode
      (join ''.'' (''probe'' # key_labels (fst (key_for_rule layout i))))
      (key_port (fst (key_for_rule layout i))) (join ''.'' (''probe'' # dest_labels i)) p1 p2 rid
    \<longleftrightarrow> p1 = ''*.'' @ join ''.'' (key_labels (fst (key_for_rule layout i)))
      \<and> p2 = ''*.'' @ join ''.'' (dest_labels i) \<and> rid = ''rule:'' @ py_str i"
    (is "applies ?A mode ?q1 ?port ?q2 p1 p2 rid \<longleftrightarrow> ?R")
proof
  let ?k = "fst (key_for_rule layout i)"
  have ko: "list_all label_ok (key_labels ?k)" "key_labels ?k \<noteq> []"
    using key_labels_ok[OF key_for_rule_nonneg] by (auto simp: key_labels_def)
  have do: "list_all label_ok (dest_labels i)" "dest_labels i \<noteq> []"
    using dest_labels_ok[OF assms(1)] by (auto simp: dest_labels_def)
  have key: "rule_key (rule_for_index j layout)
      = (''*.'' @ join ''.'' (key_labels (fst (key_for_rule layout j))),
         key_port (fst (key_for_rule layout j)), ''*.'' @ join ''.'' (dest_labels j))" for j
    by (simp add: rule_for_index_labels Let_def rule_key_def mk_rule_def)
  {
    assume a: "applies ?A mode ?q1 ?port ?q2 p1 p2 rid"
    then obtain scope where s: "?A (p1, ?port, p2) = Some (scope, rid)"
      "pattern_matches mode p2 ?q2" by (auto simp: applies_def)
    then obtain j where j: "0 \<le> j" "(p1, ?port, p2) = rule_key (rule_for_index j layout)"
      "rid = ''rule:'' @ py_str j" unfolding bench_table by auto
    then have "p2 = ''*.'' @ join ''.'' (dest_labels j)" by (simp add: key)
    then have "j = i"
      using dest_pattern_unique[OF j(1) assms(1) label_literals(1)] s(2) by blast
    with j show ?R by (simp add: key)
  next
    assume r: ?R
    have t: "?A (p1, ?port, p2) = Some (BOTH, rid)"
      unfolding bench_table using assms r by (intro exI[of _ i]) (simp add: key)
    show "applies ?A mode ?q1 ?port ?q2 p1 p2 rid"
      unfolding applies_def
      using t r star_pattern_covers(1)[OF ko label_literals(1)]
        star_pattern_covers(1)[OF do label_literals(1)] by (auto simp: visible_def)
  }
qed

lemma hit_query_answered:
  assumes "redis_laws api" "store_ok st" "represents api st db no_rules"
    and "0 < batch_size" "num_rules < 2 ^ 53" "0 \<le> i" "i < num_rules"
    and "matching_query_for_index i layout = (f1, port, f2)"
  shows "\<exists>ws. run_write_phase api st db num_rules batch_size layout = Inr ws
    \<and> rs_lookup api st (ws_db ws) f1 port f2 mode
      = Inr (Some \<lparr>m_rule_id = ''rule:'' @ py_str i, m_fqdn1_pattern = r_fqdn1 (rule_for_index i layout),
                   m_port = port, m_fqdn2_pattern = r_fqdn2 (rule_for_index i layout),
                   m_specificity = (1, 1)\<rparr>)"
proof -
  let ?k = "fst (key_for_rule layout i)"
  let ?A = "foldl table_put no_rules (bench_rules layout num_rules)"
  have n0: "0 \<le> num_rules" using assms(6,7) by simp
  obtain ws where ws: "run_write_phase api st db num_rules batch_size layout = Inr ws"
    "represents api st (ws_db ws) ?A"
    using write_phase_represents[OF assms(1-4) n0 assms(5)] by blast
  have q: "f1 = join ''.'' (''probe'' # key_labels ?k)" "port = key_port ?k"
    "f2 = join ''.'' (''probe'' # dest_labels i)"
    using assms(8) by (simp_all add: matching_query_labels Let_def)
  have ko: "list_all label_ok (''probe'' # key_labels ?k)"
    using key_labels_ok[OF key_for_rule_nonneg] label_literals(1) by simp
  have do: "list_all label_ok (''probe'' # dest_labels i)"
    using dest_labels_ok[OF assms(6)] label_literals(1) by simp
  have n1: "normalize_fqdn f1 = Inr f1" unfolding q
    by (rule normalize_labels[OF _ ko]) (simp_all add: key_labels_def)
  have n2: "normalize_fqdn f2 = Inr f2" unfolding q
    by (rule normalize_labels[OF _ do]) (simp_all add: dest_labels_def)
  have colon: "CHR '':'' \<notin> set f1" unfolding q by (rule labels_no_colon[OF ko])
  have port: "0 < port" "port < 65536" using key_port_valid by (simp_all add: q)
  obtain res where res: "rs_lookup api st (ws_db ws) f1 port f2 mode = Inr res"
    "best_match ?A mode f1 port f2 res"
    using lookup_least[OF assms(1,2) ws(2) n1 colon n2 port] by blast
  let ?p1 = "''*.'' @ join ''.'' (key_labels ?k)" and ?p2 = "''*.'' @ join ''.'' (dest_labels i)"
  have ap: "applies ?A mode f1 port f2 p1 p2 rid
      \<longleftrightarrow> p1 = ?p1 \<and> p2 = ?p2 \<and> rid = ''rule:'' @ py_str i" for p1 p2 rid
    unfolding q by (rule bench_hit_applies[OF assms(6,7)])
  then obtain m where m: "res = Some m" using res(2) by (cases res) (auto simp: best_match_def)
  note b = best_matchD[OF res(2)[unfolded m]]
  have r1: "rank_of ?p1 f1 = 1" unfolding q
    by (rule star_pattern_covers(2)[OF _ _ label_literals(1)]) (use ko in \<open>simp_all add: key_labels_def\<close>)
  have r2: "rank_of ?p2 f2 = 1" unfolding q
    by (rule star_pattern_covers(2)[OF _ _ label_literals(1)]) (use do in \<open>simp_all add: dest_labels_def\<close>)
  have "m_fqdn1_pattern m = ?p1" "m_fqdn2_pattern m = ?p2" "m_rule_id m = ''rule:'' @ py_str i"
    using b(1) ap by blast+
  with b(2,3) r1 r2 have "m = \<lparr>m_rule_id = ''rule:'' @ py_str i, m_fqdn1_pattern = ?p1, m_port = port,
      m_fqdn2_pattern = ?p2, m_specificity = (1, 1)\<rparr>" by simp
  moreover have "r_fqdn1 (rule_for_index i layout) = ?p1" "r_fqdn2 (rule_for_index i layout) = ?p2"
    by (simp_all add: rule_for_index_labels Let_def mk_rule_def)
  ultimately show ?thesis using ws(1) res(1) m by auto
qed

text \<open>
  C3: Every hit query of the benchmark hits its rule. After the write phase on an empty
  namespace, the query built for rule i is answered, in both modes, by rule i, through its
  own two patterns, each one label above the query.
\<close>

theorem hit_queries_hit:
  assumes "redis_laws api" "store_ok st" "represents api st db no_rules"
    and "0 < batch_size" "num_rules < 2 ^ 53" "0 \<le> i" "i < num_rules"
    and "matching_query_for_index i layout = (f1, port, f2)"
  shows "\<exists>ws. run_write_phase api st db num_rules batch_size layout = Inr ws
    \<and> rs_lookup api st (ws_db ws) f1 port f2 mode
      = Inr (Some \<lparr>m_rule_id = ''rule:'' @ py_str i, m_fqdn1_pattern = r_fqdn1 (rule_for_index i layout),
                   m_port = port, m_fqdn2_pattern = r_fqdn2 (rule_for_index i layout),
                   m_specificity = (1, 1)\<rparr>)"
  using assms by (rule hit_query_answered)

theorem hit_queries_hit_witness:
  "\<exists>ws m. run_write_phase mem_api store4 mem_empty 1000 300 (rule_layout_init [400, 600]) = Inr ws
    \<and> rs_lookup mem_api store4 (ws_db ws) ''probe.host1.corp1.dragonfly1.com'' 8443
        ''probe.dest500.example.com'' MULTI_LEVEL = Inr (Some m)
    \<and> m_rule_id m = ''rule:'' @ py_str 500"
proof -
  have q: "matching_query_for_index 500 (rule_layout_init [400, 600])
      = (''probe.host1.corp1.dragonfly1.com'', 8443, ''probe.dest500.example.com'')" by code_simp
  have n: "0 < (300 :: int)" "1000 < (2 ^ 53 :: int)" "0 \<le> (500 :: int)" "500 < (1000 :: int)" by simp_all
  show ?thesis
    using hit_queries_hit[OF mem_laws store4_ok mem_represents n q, of MULTI_LEVEL]
    by (metis (lifting) rule_match.select_convs(1))
qed

lemma miss_query_labels:
  "fst (miss_query rng s) =
     (let n = fst (rng_randint rng s 0 (2 ^ 31 - 1));
          j = fst (rng_randint rng (snd (rng_randint rng s 0 (2 ^ 31 - 1))) 0 (2 ^ 31 - 1))
      in (join ''.'' [''nomatch'' @ py_str n, ''junk'' @ py_str j, ''invalid''], 443,
          join ''.'' [''nomatch'' @ py_str n, ''invalid'']))"
  by (simp add: miss_query_def Let_def case_prod_unfold)

lemma miss_query_unanswered:
  assumes "redis_laws api" "store_ok st" "represents api st db no_rules" "rng_ok rng"
    and "0 < batch_size" "0 \<le> num_rules" "num_rules < 2 ^ 53"
    and "miss_query rng s = ((f1, port, f2), s')"
  shows "\<exists>ws. run_write_phase api st db num_rules batch_size layout = Inr ws
    \<and> rs_lookup api st (ws_db ws) f1 port f2 mode = Inr None"
proof -
  let ?A = "foldl table_put no_rules (bench_rules layout num_rules)"
  obtain ws where ws: "run_write_phase api st db num_rules batch_size layout = Inr ws"
    "represents api st (ws_db ws) ?A"
    using write_phase_represents[OF assms(1-3,5-7)] by blast
  define n where "n = fst (rng_randint rng s 0 (2 ^ 31 - 1))"
  define j where "j = fst (rng_randint rng (snd (rng_randint rng s 0 (2 ^ 31 - 1))) 0 (2 ^ 31 - 1))"
  let ?l1 = "[''nomatch'' @ py_str n, ''junk'' @ py_str j, ''invalid'']"
  let ?l2 = "[''nomatch'' @ py_str n, ''invalid'']"
  have q: "f1 = join ''.'' ?l1" "port = 443" "f2 = join ''.'' ?l2"
    using miss_query_labels[of rng s] assms(8) unfolding n_def[symmetric] j_def[symmetric] Let_def
    by (metis Pair_inject fst_conv)+
  have nn: "0 \<le> n" "0 \<le> j"
    unfolding n_def j_def by (rule conjunct1[OF rng_okD(2)[OF assms(4)]], simp)+
  have l1: "list_all label_ok ?l1" and l2: "list_all label_ok ?l2"
    using nn by (simp_all add: label_ok_Cons label_py_str label_literals name_letter_simps)
  have n1: "normalize_fqdn f1 = Inr f1" unfolding q by (rule normalize_labels[OF _ l1]) simp_all
  have n2: "normalize_fqdn f2 = Inr f2" unfolding q by (rule normalize_labels[OF _ l2]) simp_all
  have colon: "CHR '':'' \<notin> set f1" unfolding q by (rule labels_no_colon[OF l1])
  have port: "0 < port" "port < 65536" by (simp_all add: q)
  obtain res where res: "rs_lookup api st (ws_db ws) f1 port f2 mode = Inr res"
    "best_match ?A mode f1 port f2 res"
    using lookup_least[OF assms(1,2) ws(2) n1 colon n2 port] by blast
  have "\<not> applies ?A mode f1 port f2 p1 p2 rid" for p1 p2 rid
  proof
    assume "applies ?A mode f1 port f2 p1 p2 rid"
    then obtain scope where s: "?A (p1, port, p2) = Some (scope, rid)" "pattern_matches mode p2 f2"
      by (auto simp: applies_def)
    then obtain i where i: "0 \<le> i" "(p1, port, p2) = rule_key (rule_for_index i layout)"
      unfolding bench_table by auto
    then have "p2 = ''*.'' @ join ''.'' (dest_labels i)"
      by (simp add: rule_for_index_labels Let_def rule_key_def mk_rule_def)
    with s(2) have "pattern_matches mode (''*.'' @ join ''.'' (dest_labels i)) (join ''.'' ?l2)"
      by (simp only: q)
    with dest_pattern_long[OF i(1) l2] show False by simp
  qed
  then have "res = None" using res(2) by (cases res) (auto simp: best_match_def)
  with ws(1) res(1) show ?thesis by blast
qed

text \<open>
  Every miss query of the benchmark misses. After the write phase on an empty namespace,
  whatever numbers the generator draws, the lookup returns no match, in both modes.
\<close>

theorem miss_queries_miss:
  assumes "redis_laws api" "store_ok st" "represents api st db no_rules" "rng_ok rng"
    and "0 < batch_size" "0 \<le> num_rules" "num_rules < 2 ^ 53"
    and "miss_query rng s = ((f1, port, f2), s')"
  shows "\<exists>ws. run_write_phase api st db num_rules batch_size layout = Inr ws
    \<and> rs_lookup api st (ws_db ws) f1 port f2 mode = Inr None"
  using assms by (rule miss_query_unanswered)

theorem miss_queries_miss_witness:
  "\<exists>ws. run_write_phase mem_api store4 mem_empty 1000 300 (rule_layout_init [400, 600]) = Inr ws
    \<and> rs_lookup mem_api store4 (ws_db ws) ''nomatch0.junk0.invalid'' 443 ''nomatch0.invalid'' SINGLE_LEVEL
      = Inr None"
proof -
  have "miss_query least_rng () = ((''nomatch0.junk0.invalid'', 443, ''nomatch0.invalid''), ())"
    by code_simp
  from miss_queries_miss[OF mem_laws store4_ok mem_represents least_rng_ok _ _ _ this, of 300 1000]
  show ?thesis by fastforce
qed



section \<open>The query list and its file\<close>

lemma draw_hits_spec:
  "length (fst (draw_hits rng n layout k s)) = k
   \<and> (rng_ok rng \<and> 0 < n \<longrightarrow>
        (\<forall>q\<in>set (fst (draw_hits rng n layout k s)). \<exists>i. 0 \<le> i \<and> i < n \<and> q = matching_query_for_index i layout))"
proof (induction k arbitrary: s)
  case 0
  show ?case by simp
next
  case (Suc k)
  obtain i s1 where i: "rng_randrange rng s n = (i, s1)" by fastforce
  have "0 \<le> i \<and> i < n" if "rng_ok rng" "0 < n" using rng_okD(3)[OF that, of s] i by simp
  with Suc[of s1] i show ?case by (auto simp: case_prod_unfold Let_def)
qed

lemma draw_misses_spec:
  "length (fst (draw_misses rng k s)) = k
   \<and> (\<forall>q\<in>set (fst (draw_misses rng k s)). \<exists>s'. q = fst (miss_query rng s'))"
proof (induction k arbitrary: s)
  case 0
  show ?case by simp
next
  case (Suc k)
  show ?case using Suc[of "snd (miss_query rng s)"] by (auto simp: case_prod_unfold Let_def)
qed

lemma num_hits_range:
  assumes "0 \<le> r" "r \<le> 1" "0 \<le> n" "n < 2 ^ 53"
  shows "0 \<le> round_half_even (fmul (of_int n) (fsub 1 r)) \<and> round_half_even (fmul (of_int n) (fsub 1 r)) \<le> n"
proof -
  let ?h = "round_half_even (fmul (of_int n) (fsub 1 r))"
  have d: "0 \<le> fsub 1 r" using assms(2) by (intro round64_nonneg) simp
  have "0 \<le> (of_int n :: rat)" using assms(3) by simp
  then have p: "0 \<le> of_int n * fsub 1 r" using d by (rule mult_nonneg_nonneg)
  then have lo: "0 \<le> ?h" by (intro round_half_even_nonneg round64_nonneg)
  have "fsub 1 r \<le> of_int 1" by (rule round64_le_int) (use assms(1,2) in auto)
  then have "of_int n * fsub 1 r \<le> of_int n * of_int 1"
    using assms(3) by (intro mult_left_mono) auto
  then have "fmul (of_int n) (fsub 1 r) \<le> of_int n"
    by (intro round64_le_int[OF p]) (use assms(3,4) in auto)
  from round_half_even_mono[OF this] show ?thesis using lo by simp
qed

end
