(* ===== verification/Bench_Queries.thy ===== *)
theory Bench_Queries
  imports Bench_Spec
begin

text \<open>
  The query list of \<open>fqdnrules/benchmark.py\<close>, what it contains, and the file it is staged in: the
  lines written in batches are read back as the same queries.
\<close>

section \<open>Building\<close>

definition query_clean :: "query \<Rightarrow> bool" where
  "query_clean q \<longleftrightarrow> (\<forall>c\<in>set (fst q) \<union> set (snd (snd q)).
     c \<noteq> CHR 0x09 \<and> c \<noteq> CHR 0x0A \<and> c \<noteq> CHR 0x0D)"

lemma labels_query_clean:
  assumes "list_all label_ok l1" "list_all label_ok l2"
  shows "query_clean (join ''.'' l1, port, join ''.'' l2)"
proof -
  have "c \<noteq> CHR 0x09 \<and> c \<noteq> CHR 0x0A \<and> c \<noteq> CHR 0x0D" if "name_char c \<or> c = CHR ''.''" for c
    using that name_char_facts(6-8) by auto
  then have "\<forall>c\<in>set (join ''.'' ls). c \<noteq> CHR 0x09 \<and> c \<noteq> CHR 0x0A \<and> c \<noteq> CHR 0x0D"
    if "list_all label_ok ls" for ls
    using join_labels_chars[OF that] by (intro ballI) simp
  from this[OF assms(1)] this[OF assms(2)] show ?thesis
    unfolding query_clean_def fst_conv snd_conv by (intro ballI) (elim UnE; simp)
qed

lemma matching_query_clean: "0 \<le> i \<Longrightarrow> query_clean (matching_query_for_index i layout)"
  using key_labels_ok[OF key_for_rule_nonneg[of layout i]] dest_labels_ok[of i] label_literals(1)
  by (simp add: matching_query_labels Let_def labels_query_clean)

lemma miss_query_clean: "rng_ok rng \<Longrightarrow> query_clean (fst (miss_query rng s))"
  unfolding miss_query_labels Let_def
  by (rule labels_query_clean)
    (simp_all add: label_ok_Cons label_py_str label_literals name_letter_simps rng_okD(2))

lemma build_queries_content:
  assumes "rng_ok rng" "0 < num_rules" "0 \<le> num_queries" "num_queries < 2 ^ 53"
    and "0 \<le> miss_rate" "miss_rate \<le> 1"
    and "build_queries rng num_rules num_queries miss_rate layout s = (queries, s')"
  shows "\<exists>hits misses. mset queries = mset (hits @ misses)
    \<and> int (length hits) = round_half_even (fmul (of_int num_queries) (fsub 1 miss_rate))
    \<and> int (length hits) + int (length misses) = num_queries
    \<and> (\<forall>q\<in>set hits. \<exists>i. 0 \<le> i \<and> i < num_rules \<and> q = matching_query_for_index i layout)
    \<and> (\<forall>q\<in>set misses. \<exists>t. q = fst (miss_query rng t))
    \<and> (\<forall>q\<in>set queries. query_clean q)"
proof -
  let ?h = "round_half_even (fmul (of_int num_queries) (fsub 1 miss_rate))"
  have h: "0 \<le> ?h" "?h \<le> num_queries"
    using num_hits_range[OF assms(5,6,3,4)] by blast+
  define hs where "hs = draw_hits rng num_rules layout (nat ?h) s"
  define ms where "ms = draw_misses rng (nat (num_queries - ?h)) (snd hs)"
  have q: "queries = fst (rng_shuffle rng (snd ms) (fst hs @ fst ms))"
    using assms(7) by (simp add: build_queries_def Let_def case_prod_unfold hs_def ms_def)
  have m: "mset queries = mset (fst hs @ fst ms)" unfolding q by (rule rng_okD(4)[OF assms(1)])
  have hs: "length (fst hs) = nat ?h"
    "\<forall>q\<in>set (fst hs). \<exists>i. 0 \<le> i \<and> i < num_rules \<and> q = matching_query_for_index i layout"
    using draw_hits_spec[of rng num_rules layout "nat ?h" s] assms(1,2) by (auto simp: hs_def)
  have ms: "length (fst ms) = nat (num_queries - ?h)" "\<forall>q\<in>set (fst ms). \<exists>t. q = fst (miss_query rng t)"
    using draw_misses_spec[of rng "nat (num_queries - ?h)" "snd hs"] by (auto simp: ms_def)
  have "set queries = set (fst hs) \<union> set (fst ms)" using mset_eq_setD[OF m] by simp
  then have "query_clean q" if "q \<in> set queries" for q
    using that hs(2) ms(2) matching_query_clean miss_query_clean[OF assms(1)] by fastforce
  with m hs ms h show ?thesis
    by (intro exI[of _ "fst hs"] exI[of _ "fst ms"]) auto
qed

text \<open>
  The query list has exactly the requested length; each query is the hit query of some
  rule that was written or a miss query, and the hits number round(num_queries * (1 - rate)),
  which lies between none and all. No query holds a tab or a line break.
\<close>

theorem build_queries_shape:
  assumes "rng_ok rng" "0 < num_rules" "0 \<le> num_queries" "num_queries < 2 ^ 53"
    and "0 \<le> miss_rate" "miss_rate \<le> 1"
    and "build_queries rng num_rules num_queries miss_rate layout s = (queries, s')"
  shows "\<exists>hits misses. mset queries = mset (hits @ misses)
    \<and> int (length hits) = round_half_even (fmul (of_int num_queries) (fsub 1 miss_rate))
    \<and> int (length hits) + int (length misses) = num_queries
    \<and> (\<forall>q\<in>set hits. \<exists>i. 0 \<le> i \<and> i < num_rules \<and> q = matching_query_for_index i layout)
    \<and> (\<forall>q\<in>set misses. \<exists>t. q = fst (miss_query rng t))
    \<and> (\<forall>q\<in>set queries. query_clean q)"
  using assms by (rule build_queries_content)

theorem build_queries_shape_witness:
  "\<exists>queries. fst (build_queries least_rng 1000 100 (1/10) (rule_layout_init [400, 600]) ()) = queries
     \<and> length queries = 100"
proof -
  obtain queries s' where q: "build_queries least_rng 1000 100 (1/10) (rule_layout_init [400, 600]) ()
      = (queries, s')" by (meson surj_pair)
  have "\<exists>hits misses. mset queries = mset (hits @ misses)
      \<and> int (length hits) + int (length misses) = 100"
    using build_queries_shape[OF least_rng_ok _ _ _ _ _ q] by fastforce
  then have "length queries = 100" by (metis length_append mset_eq_length of_nat_add of_nat_eq_numeral_iff)
  with q show ?thesis by simp
qed


section \<open>The file\<close>

lemma universal_newlines_id: "CHR 0x0D \<notin> set s \<Longrightarrow> universal_newlines s = s"
  by (induction s rule: universal_newlines.induct) auto

lemma split_on_lines:
  "(\<And>l. l \<in> set ls \<Longrightarrow> c \<notin> set l) \<Longrightarrow> split_on c (concat (map (\<lambda>l. l @ [c]) ls)) = ls @ [[]]"
  by (induction ls) (simp_all add: split_on_append)

lemma write_queries_all:
  "0 < b \<Longrightarrow> write_queries queries b start = concat (map query_line (drop start queries))"
proof (induction queries b start rule: write_queries.induct)
  case (1 queries b start)
  show ?case
  proof (cases "length queries \<le> start")
    case True
    then show ?thesis by (subst write_queries.simps) simp
  next
    case False
    then have "write_queries queries b (start + b) = concat (map query_line (drop (start + b) queries))"
      using "1.IH" "1.prems" by simp
    moreover have "drop start queries = take b (drop start queries) @ drop (start + b) queries"
      by (metis add.commute append_take_drop_id drop_drop)
    ultimately show ?thesis
      using False "1.prems" by (subst write_queries.simps) (metis concat_append map_append not_gr_zero)
  qed
qed

definition query_text :: "query \<Rightarrow> string" where
  "query_text q = fst q @ CHR 0x09 # py_str (fst (snd q)) @ CHR 0x09 # snd (snd q)"

lemma query_line_text: "query_line q = query_text q @ [CHR 0x0A]"
  by (simp add: query_line_def query_text_def case_prod_unfold)

lemma py_str_no_control: "CHR 0x0A \<notin> set (py_str z)" "CHR 0x09 \<notin> set (py_str z)" "CHR 0x0D \<notin> set (py_str z)"
  by (rule py_str_no; simp add: is_digit_def)+

lemma parse_query_text:
  assumes "query_clean q"
  shows "parse_query_line (query_text q) = Inr q"
proof -
  have n: "CHR 0x09 \<notin> set (fst q)" "CHR 0x09 \<notin> set (snd (snd q))"
    using assms by (auto simp: query_clean_def)
  have "split_on (CHR 0x09) (query_text q) = [fst q, py_str (fst (snd q)), snd (snd q)]"
    unfolding query_text_def
    by (simp add: split_on_append n py_str_no_control split_on_no_sep)
  then show ?thesis by (simp add: parse_query_line_def)
qed

lemma read_lines_all:
  assumes "mapR parse_query_line ls = Inr qs"
  shows "read_lines b done batch ls = Inr (done @ batch @ qs)"
  using assms
proof (induction ls arbitrary: "done" batch qs)
  case Nil
  then show ?case by simp
next
  case (Cons l ls)
  then obtain q qs' where q: "parse_query_line l = Inr q" "mapR parse_query_line ls = Inr qs'" "qs = q # qs'"
    by (auto simp: result_simps)
  show ?case using q Cons.IH[OF q(2)] by (simp add: Let_def)
qed

lemma query_file_reads_back:
  assumes "0 < wsize" "\<forall>q\<in>set queries. query_clean q"
  shows "\<exists>contents. write_queries_to_file queries wsize = Inr contents
    \<and> read_queries_from_file contents rsize = Inr queries"
proof -
  let ?ls = "map query_text queries"
  let ?c = "concat (map (\<lambda>l. l @ [CHR 0x0A]) ?ls)"
  have m: "map query_line queries = map (\<lambda>l. l @ [CHR 0x0A]) ?ls"
    by (simp add: query_line_text)
  have w: "write_queries_to_file queries wsize = Inr ?c"
    using assms(1) write_queries_all[of "nat wsize" queries 0]
    unfolding m[symmetric] by (simp add: write_queries_to_file_def)
  have ch: "CHR 0x0A \<notin> set (query_text q)" "CHR 0x0D \<notin> set (query_text q)" if "q \<in> set queries" for q
  proof -
    have c: "query_clean q" using assms(2) that by blast
    have "CHR 0x0A \<notin> set (fst q)" "CHR 0x0A \<notin> set (snd (snd q))"
      "CHR 0x0D \<notin> set (fst q)" "CHR 0x0D \<notin> set (snd (snd q))"
      using c unfolding query_clean_def by blast+
    then show "CHR 0x0A \<notin> set (query_text q)" "CHR 0x0D \<notin> set (query_text q)"
      by (simp_all add: query_text_def py_str_no_control)
  qed
  have "CHR 0x0D \<notin> set ?c" using ch(2) by simp
  then have u: "universal_newlines ?c = ?c" by (rule universal_newlines_id)
  have s: "split_on (CHR 0x0A) ?c = ?ls @ [[]]" by (rule split_on_lines) (use ch(1) in auto)
  have l: "file_lines ?c = ?ls" unfolding file_lines_def u s by simp
  have "mapR parse_query_line ?ls = Inr queries"
    using mapR_Inr[of queries "\<lambda>q. parse_query_line (query_text q)" id] parse_query_text assms(2)
    by (simp add: mapR_map)
  then have "read_queries_from_file ?c rsize = Inr queries"
    unfolding read_queries_from_file_def l by (simp add: read_lines_all)
  with w show ?thesis by blast
qed

text \<open>
  C27: The query file loses nothing: queries without tabs and line breaks, written in batches
  of any positive size and read back in batches of any size, are the same queries in the
  same order.
\<close>

theorem query_file_roundtrip:
  assumes "0 < wsize" "\<forall>q\<in>set queries. query_clean q"
  shows "\<exists>contents. write_queries_to_file queries wsize = Inr contents
    \<and> read_queries_from_file contents rsize = Inr queries"
  using assms by (rule query_file_reads_back)

theorem query_file_roundtrip_witness:
  "\<exists>contents. write_queries_to_file [(''a.b'', 443, ''c.d''), (''e'', 80, ''f'')] 1 = Inr contents
    \<and> read_queries_from_file contents 5 = Inr [(''a.b'', 443, ''c.d''), (''e'', 80, ''f'')]"
  by (rule query_file_roundtrip) (auto simp: query_clean_def)

end
