(* ===== verification/Bench_Phase.thy ===== *)
theory Bench_Phase
  imports Bench_Queries
begin

text \<open>
  The query phase of \<open>fqdnrules/benchmark.py\<close> under every schedule of its threads: what one task
  leaves behind, what a run over all tasks leaves, and that the reported lists depend on the
  queries and their readings of the clock only.
\<close>

section \<open>The query phase\<close>

text \<open>What task \<open>idx\<close> contributes, whenever it runs.\<close>

definition task_latency :: "(nat \<Rightarrow> rat \<times> rat) \<Rightarrow> nat \<Rightarrow> rat" where
  "task_latency clock idx = fmul (fsub (snd (clock idx)) (fst (clock idx))) 1000"

definition lookup_of ::
  "'db redis_api \<Rightarrow> rule_store \<Rightarrow> 'db \<Rightarrow> match_mode \<Rightarrow> query \<Rightarrow> rule_match option result" where
  "lookup_of api st db mode q = (case q of (f1, p, f2) \<Rightarrow> rs_lookup api st db f1 p f2 mode)"

definition task_sample ::
  "query list \<Rightarrow> (nat \<Rightarrow> rule_match option) \<Rightarrow> (nat \<Rightarrow> rat \<times> rat) \<Rightarrow> nat \<Rightarrow> sample_result" where
  "task_sample queries found clock idx =
     \<lparr>sr_index = idx, sr_fqdn1 = fst (queries ! idx), sr_port = fst (snd (queries ! idx)),
      sr_fqdn2 = snd (snd (queries ! idx)),
      sr_result = (case found idx of Some m \<Rightarrow> m_rule_id m | None \<Rightarrow> ''MISS''),
      sr_latency_ms = task_latency clock idx\<rparr>"

definition sampled :: "query list \<Rightarrow> nat \<Rightarrow> bool" where
  "sampled queries idx \<longleftrightarrow> int idx \<in> set (sample_indices (int (length queries)))"

lemma run_one_Inr:
  assumes "lookup_of api st db mode (queries ! idx) = Inr (found idx)"
  shows "run_one api st db mode queries clock idx qst =
    Inr \<lparr>qs_latencies = (qs_latencies qst)[idx := task_latency clock idx],
         qs_samples = qs_samples qst
           @ (if sampled queries idx then [task_sample queries found clock idx] else [])\<rparr>"
proof -
  obtain f1 p f2 where q: "queries ! idx = (f1, p, f2)" by (cases "queries ! idx")
  then have "rs_lookup api st db f1 p f2 mode = Inr (found idx)"
    using assms by (simp add: lookup_of_def)
  then show ?thesis
    by (simp add: run_one_def q Let_def sampled_def task_latency_def task_sample_def)
qed

lemma run_tasks_Inr:
  assumes "\<And>idx. idx \<in> set order \<Longrightarrow> lookup_of api st db mode (queries ! idx) = Inr (found idx)"
  shows "run_tasks api st db mode queries clock order qst =
    Inr \<lparr>qs_latencies = foldl (\<lambda>l idx. l[idx := task_latency clock idx]) (qs_latencies qst) order,
         qs_samples = qs_samples qst
           @ map (task_sample queries found clock) (filter (sampled queries) order)\<rparr>"
  using assms
proof (induction order arbitrary: qst)
  case Nil
  show ?case by simp
next
  case (Cons idx order)
  then show ?case by (simp add: run_one_Inr[where found = found])
qed

lemma foldl_update_length: "length (foldl (\<lambda>l i. l[i := f i]) xs is) = length xs"
  by (induction "is" arbitrary: xs) auto

lemma foldl_update_nth:
  "j < length xs \<Longrightarrow> foldl (\<lambda>l i. l[i := f i]) xs is ! j = (if j \<in> set is then f j else xs ! j)"
proof (induction "is" arbitrary: xs)
  case Nil
  then show ?case by simp
next
  case (Cons i "is")
  then show ?case by (cases "i = j") auto
qed

lemma foldl_update_all:
  assumes "set is = {0..<n}" "length xs = n"
  shows "foldl (\<lambda>l i. l[i := f i]) xs is = map f [0..<n]"
  by (rule nth_equalityI) (use assms in \<open>auto simp: foldl_update_length foldl_update_nth\<close>)

definition query_result ::
  "query list \<Rightarrow> (nat \<Rightarrow> rule_match option) \<Rightarrow> (nat \<Rightarrow> rat \<times> rat) \<Rightarrow> rat list \<times> sample_result list" where
  "query_result queries found clock =
     (map (task_latency clock) [0..<length queries],
      map (task_sample queries found clock) (filter (sampled queries) [0..<length queries]))"

lemma run_tasks_result:
  assumes "mset order = mset [0..<length queries]"
    and "\<And>idx. idx < length queries \<Longrightarrow> lookup_of api st db mode (queries ! idx) = Inr (found idx)"
    and "run_tasks api st db mode queries clock order
           \<lparr>qs_latencies = replicate (length queries) 0, qs_samples = []\<rparr> = Inr qst"
  shows "(qs_latencies qst, sort_key sr_index (qs_samples qst)) = query_result queries found clock"
proof -
  let ?n = "length queries" and ?s = "task_sample queries found clock"
  have so: "set order = {0..<?n}" using mset_eq_setD[OF assms(1)] by simp
  have qst: "qst = \<lparr>qs_latencies = foldl (\<lambda>l idx. l[idx := task_latency clock idx]) (replicate ?n 0) order,
      qs_samples = map ?s (filter (sampled queries) order)\<rparr>"
    using run_tasks_Inr[where order = order and found = found, OF assms(2)] so assms(3) by auto
  have key: "sr_index (?s i) = i" for i by (simp add: task_sample_def)
  have "sort_key sr_index (map ?s (filter (sampled queries) order))
      = map ?s (filter (sampled queries) [0..<?n])"
  proof (rule sort_key_inj_key_eq)
    have "mset (filter (sampled queries) [0..<?n]) = mset (filter (sampled queries) order)"
      using assms(1) by simp
    then show "mset (map ?s (filter (sampled queries) order))
        = mset (map ?s (filter (sampled queries) [0..<?n]))"
      unfolding mset_map by (rule arg_cong[OF sym])
    show "inj_on sr_index (set (map ?s (filter (sampled queries) order)))"
      by (auto simp: inj_on_def key)
    show "sorted (map sr_index (map ?s (filter (sampled queries) [0..<?n])))"
      by (simp add: comp_def key sorted_wrt_filter)
  qed
  then show ?thesis
    unfolding qst query_result_def
    by (simp add: foldl_update_all[OF so])
qed

lemma mapR_first_error:
  assumes "f (xs ! k) = Inl a" "k < length xs" "\<And>j. j < k \<Longrightarrow> \<exists>r. f (xs ! j) = Inr r"
  shows "mapR f xs = Inl a"
  using assms
proof (induction xs arbitrary: k)
  case Nil
  then show ?case by simp
next
  case (Cons x xs)
  show ?case
  proof (cases k)
    case 0
    with Cons.prems show ?thesis by simp
  next
    case (Suc d)
    obtain r where r: "f x = Inr r" using Cons.prems(3)[of 0] Suc by auto
    have "\<exists>r. f (xs ! j) = Inr r" if "j < d" for j
      using Cons.prems(3)[of "Suc j"] Suc that by simp
    moreover have "f (xs ! d) = Inl a" "d < length xs" using Cons.prems(1,2) Suc by simp_all
    ultimately have "mapR f xs = Inl a" using Cons.IH by blast
    with r show ?thesis by simp
  qed
qed

lemma run_tasks_error:
  assumes "mapR (lookup_of api st db mode) queries = Inl e" "is = drop k [0..<length queries]"
    and "\<And>i. i < k \<Longrightarrow> i < length queries \<Longrightarrow> \<exists>r. lookup_of api st db mode (queries ! i) = Inr r"
  shows "run_tasks api st db mode queries clock is qst = Inl e"
  using assms(2,3)
proof (induction "is" arbitrary: k qst)
  case Nil
  have "drop k [0..<length queries] = []" using Nil.prems(1) by (rule sym)
  then have "length queries \<le> k" by (simp only: drop_eq_Nil length_upt diff_zero)
  with Nil.prems(2) have "\<exists>r. lookup_of api st db mode q = Inr r" if "q \<in> set queries" for q
    using that by (metis in_set_conv_nth le_trans not_less)
  then obtain g where "\<And>q. q \<in> set queries \<Longrightarrow> lookup_of api st db mode q = Inr (g q)" by metis
  then have "mapR (lookup_of api st db mode) queries = Inr (map g queries)" by (rule mapR_Inr)
  with assms(1) show ?case by simp
next
  case (Cons i "is")
  have k: "k < length queries" using Cons.prems(1) by (cases "k < length queries") auto
  then have "drop k [0..<length queries] = k # drop (Suc k) [0..<length queries]"
    by (simp add: upt_conv_Cons)
  with Cons.prems(1) have i: "i = k" "is = drop (Suc k) [0..<length queries]" by auto
  show ?case
  proof (cases "lookup_of api st db mode (queries ! k)")
    case (Inr r)
    then have "lookup_of api st db mode (queries ! k) = Inr ((\<lambda>_. r) k)" by simp
    from run_one_Inr[OF this] obtain qst' where
      "run_one api st db mode queries clock k qst = Inr qst'" by blast
    moreover have "\<exists>r. lookup_of api st db mode (queries ! j) = Inr r" if "j < Suc k" "j < length queries" for j
      using Cons.prems(2) that Inr by (cases "j = k") auto
    ultimately show ?thesis using Cons.IH[OF i(2)] i(1) by simp
  next
    case (Inl a)
    have "mapR (lookup_of api st db mode) queries = Inl a"
      by (rule mapR_first_error[where k = k]) (use Inl Cons.prems(2) k in auto)
    with assms(1) have "a = e" by simp
    moreover have "run_one api st db mode queries clock k qst = Inl a"
      using Inl by (simp add: run_one_def lookup_of_def split: prod.splits)
    ultimately show ?thesis using i(1) by simp
  qed
qed

lemma schedule_irrelevant:
  assumes "mset schedule = mset [0..<length queries]"
  shows "run_query_phase api st db queries mode concurrency schedule clock
    = run_query_phase api st db queries mode 1 [] clock"
proof -
  have pe: "pool_error api st db mode queries
      = bindR (mapR (lookup_of api st db mode) queries) (\<lambda>_. Inr ())"
    unfolding pool_error_def lookup_of_def ..
  let ?start = "\<lparr>qs_latencies = replicate (length queries) 0, qs_samples = []\<rparr>"
  show ?thesis
  proof (cases "mapR (lookup_of api st db mode) queries")
    case (Inl e)
    have "run_tasks api st db mode queries clock [0..<length queries] ?start = Inl e"
      by (rule run_tasks_error[OF Inl, where k = 0]) simp_all
    then show ?thesis by (simp add: run_query_phase_def pe Inl Let_def)
  next
    case (Inr rs)
    let ?found = "\<lambda>i. rs ! i"
    have L: "lookup_of api st db mode (queries ! i) = Inr (?found i)" if "i < length queries" for i
      by (rule mapR_Inr_nth[OF Inr that])
    have res: "bindR (run_tasks api st db mode queries clock order ?start)
        (\<lambda>qst. Inr (qs_latencies qst, sort_key sr_index (qs_samples qst)))
        = Inr (query_result queries ?found clock)"
      if o: "mset order = mset [0..<length queries]" for order
    proof -
      have "\<And>i. i \<in> set order \<Longrightarrow> lookup_of api st db mode (queries ! i) = Inr (?found i)"
        using L mset_eq_setD[OF o] by simp
      from run_tasks_Inr[OF this] obtain qst where
        q: "run_tasks api st db mode queries clock order ?start = Inr qst" by blast
      from run_tasks_result[OF o L q] show ?thesis by (simp only: q bindR.simps)
    qed
    show ?thesis
      using res[OF assms] res[OF refl] by (simp add: run_query_phase_def pe Inr Let_def)
  qed
qed

text \<open>
  C9: Concurrency does not change what the query phase reports. Whatever order the threads'
  tasks take effect in, the latencies in submission order, the samples in index order and,
  where a lookup raises, the error are those of the sequential run.
\<close>

theorem schedule_independent:
  assumes "mset schedule = mset [0..<length queries]"
  shows "run_query_phase api st db queries mode concurrency schedule clock
    = run_query_phase api st db queries mode 1 [] clock"
  using assms by (rule schedule_irrelevant)

theorem schedule_independent_witness:
  "run_query_phase mem_api store4 mem_empty [(''x.b.com'', 443, ''a.com''), (''y'', 80, ''z'')]
     SINGLE_LEVEL 2 [1, 0] (\<lambda>_. (0, 1))
   = run_query_phase mem_api store4 mem_empty [(''x.b.com'', 443, ''a.com''), (''y'', 80, ''z'')]
     SINGLE_LEVEL 1 [] (\<lambda>_. (0, 1))"
  by (rule schedule_independent) (simp add: upt_rec)

end
