(* ===== verification/Bench_Stats.thy ===== *)
theory Bench_Stats
  imports Bench_Queries
begin

text \<open>
  The numbers the benchmark reports: percentiles of the latencies, the positions of the ten
  sampled queries, the masked description of the target over a model of \<open>urllib.parse\<close>, and the checks of the
  arguments down to the text of the depth tiers.
\<close>

section \<open>Percentiles\<close>

lemma nearest_rank_index:
  assumes "vs \<noteq> []" "0 \<le> p"
  shows "nearest_rank vs p = vs ! nat (min (int (length vs) - 1) \<lfloor>fmul p (of_int (int (length vs)))\<rfloor>)"
    and "nat (min (int (length vs) - 1) \<lfloor>fmul p (of_int (int (length vs)))\<rfloor>) < length vs"
  using assms by (auto simp: nearest_rank_def Let_def length_greater_0_conv[symmetric]
      simp del: length_greater_0_conv)

lemma nearest_rank_mem: "vs \<noteq> [] \<Longrightarrow> 0 \<le> p \<Longrightarrow> nearest_rank vs p \<in> set vs"
  using nearest_rank_index[of vs p] by simp

lemma nearest_rank_mono:
  assumes "sorted vs" "vs \<noteq> []" "0 \<le> p" "p \<le> q"
  shows "nearest_rank vs p \<le> nearest_rank vs q"
proof -
  let ?n = "of_int (int (length vs)) :: rat"
  have "round64 (p * ?n) \<le> round64 (q * ?n)"
    by (rule round64_mono) (use assms(3,4) in \<open>auto intro: mult_right_mono\<close>)
  then have "nat (min (int (length vs) - 1) \<lfloor>fmul p ?n\<rfloor>) \<le> nat (min (int (length vs) - 1) \<lfloor>fmul q ?n\<rfloor>)"
    by (intro nat_mono min.mono floor_mono order.refl)
  moreover have "0 \<le> q" using assms(3,4) by simp
  ultimately show ?thesis
    using nearest_rank_index[OF assms(2,3)] nearest_rank_index[OF assms(2) \<open>0 \<le> q\<close>] assms(1)
    by (simp add: sorted_nth_mono)
qed

lemma sorted_first_least: "sorted vs \<Longrightarrow> x \<in> set vs \<Longrightarrow> vs ! 0 \<le> (x::'a::linorder)"
  by (cases vs) auto

lemma sorted_last_greatest: "sorted vs \<Longrightarrow> x \<in> set vs \<Longrightarrow> x \<le> (last vs::'a::linorder)"
  by (induction vs) auto

text \<open>
  The latency statistics of a run with at least one query exist, each percentile is one of
  the measured latencies, and they are ordered: minimum, median, 90th, 99th and 99.9th
  percentile, maximum, where the minimum and the maximum bound every latency.
\<close>

theorem latency_stats_ordered:
  assumes "latencies \<noteq> []"
  shows "\<exists>s. compute_latency_stats fsum latencies = Inr s
    \<and> {ls_min s, ls_p50 s, ls_p90 s, ls_p99 s, ls_p99_9 s, ls_max s} \<subseteq> set latencies
    \<and> ls_min s \<le> ls_p50 s \<and> ls_p50 s \<le> ls_p90 s \<and> ls_p90 s \<le> ls_p99 s \<and> ls_p99 s \<le> ls_p99_9 s
    \<and> ls_p99_9 s \<le> ls_max s \<and> (\<forall>x\<in>set latencies. ls_min s \<le> x \<and> x \<le> ls_max s)"
proof -
  let ?v = "sort latencies"
  have v: "sorted ?v" "?v \<noteq> []" "set ?v = set latencies"
    using assms by (simp, metis length_0_conv length_sort, simp)
  note lo = sorted_first_least[OF v(1)] and hi = sorted_last_greatest[OF v(1)]
  have p: "0 \<le> round64 (1/2)" "round64 (1/2) \<le> round64 (9/10)" "0 \<le> round64 (9/10)"
    "round64 (9/10) \<le> round64 (99/100)" "0 \<le> round64 (99/100)"
    "round64 (99/100) \<le> round64 (999/1000)" "0 \<le> round64 (999/1000)"
    by (simp_all add: round64_nonneg round64_mono)
  note mem = nearest_rank_mem[OF v(2)] and mono = nearest_rank_mono[OF v(1,2)]
  have "?v ! 0 \<in> set ?v" "last ?v \<in> set ?v" using v(2) by (simp_all only: last_in_set nth_mem length_greater_0_conv not_False_eq_True)
  then have "{?v ! 0, nearest_rank ?v (round64 (1/2)), nearest_rank ?v (round64 (9/10)),
      nearest_rank ?v (round64 (99/100)), nearest_rank ?v (round64 (999/1000)), last ?v} \<subseteq> set ?v"
    using mem[OF p(1)] mem[OF p(3)] mem[OF p(5)] mem[OF p(7)] by blast
  note parts = this[unfolded v(3)] mono[OF p(1,2)] mono[OF p(3,4)] mono[OF p(5,6)]
    lo[OF mem[OF p(1)]] hi[OF mem[OF p(7)]]
  let ?s = "\<lparr>ls_min = ?v ! 0, ls_avg = fdiv (fsum ?v) (of_int (int (length ?v))),
    ls_p50 = nearest_rank ?v (round64 (1/2)), ls_p90 = nearest_rank ?v (round64 (9/10)),
    ls_p99 = nearest_rank ?v (round64 (99/100)), ls_p99_9 = nearest_rank ?v (round64 (999/1000)),
    ls_max = last ?v\<rparr>"
  have "int (length ?v) \<noteq> 0" using v(2) by (simp only: of_nat_eq_0_iff length_0_conv not_False_eq_True)
  then have "compute_latency_stats fsum latencies = Inr ?s"
    unfolding compute_latency_stats_def Let_def by (simp only: if_False)
  moreover have "\<forall>x\<in>set latencies. ?v ! 0 \<le> x \<and> x \<le> last ?v"
    using lo hi unfolding v(3) by blast
  ultimately show ?thesis
    by (intro exI[of _ ?s] conjI) (use parts in \<open>simp_all only: latency_stats.select_convs\<close>)
qed

theorem latency_stats_ordered_witness:
  "\<exists>s. compute_latency_stats sum_list [3, 1, 2] = Inr s \<and> ls_min s \<le> ls_p50 s"
  using latency_stats_ordered[of "[3, 1, 2]" sum_list] by blast


section \<open>Sampled positions\<close>

lemma sample_round:
  assumes "0 \<le> a" "a < 2 ^ 50"
  shows "round_half_even (fdiv (of_int a) 9) = (2 * a + 9) div 18"
proof -
  let ?k = "(2 * a + 9) div 18" and ?x = "of_int a / 9 :: rat"
  have "2 * a + 9 = 18 * ?k + (2 * a + 9) mod 18" by simp
  moreover have "(2 * a + 9) mod 18 \<le> 17" "1 \<le> (2 * a + 9) mod 18"
    by presburger+
  ultimately have "2 * a \<le> 18 * ?k + 8" "18 * ?k \<le> 2 * a + 8" by linarith+
  then have "of_int (2 * a) \<le> (of_int (18 * ?k + 8) :: rat)" "of_int (18 * ?k) \<le> (of_int (2 * a + 8) :: rat)"
    by (simp_all only: of_int_le_iff)
  then have "9 * ?x \<le> 9 * of_int ?k + 4" "9 * of_int ?k \<le> 9 * ?x + 4" by simp_all
  then have "\<bar>?x - of_int ?k\<bar> \<le> 4/9" unfolding abs_le_iff by linarith
  moreover have "\<bar>fdiv (of_int a) 9 - ?x\<bar> < 1/18"
  proof -
    have "(of_int a :: rat) < of_int (2 ^ 50)" using assms(2) by (simp only: of_int_less_iff)
    then have "?x / 2 ^ 53 < 1/72" by simp
    moreover have "0 \<le> ?x" using assms(1) by simp
    ultimately show ?thesis using round64_error[of ?x] by simp
  qed
  ultimately have "\<bar>fdiv (of_int a) 9 - of_int ?k\<bar> < 1/2" by linarith
  then show ?thesis by (rule round_half_even_eqI)
qed

lemma sample_indices_exact:
  assumes "1 \<le> n" "n \<le> 50000000"
  shows "sample_indices n = remdups (map (\<lambda>i. (2 * (i * (n - 1)) + 9) div 18) [0..9])"
proof -
  have "map (\<lambda>i. round_half_even (fdiv (of_int (i * (n - 1))) 9)) [0..9]
      = map (\<lambda>i. (2 * (i * (n - 1)) + 9) div 18) [0..9]"
  proof (rule map_cong[OF refl])
    fix i :: int
    assume "i \<in> set [0..9]"
    then have i: "0 \<le> i" "i \<le> 9" by simp_all
    then have "0 \<le> i * (n - 1)" "i * (n - 1) \<le> 9 * 50000000"
      using assms by (simp, intro mult_mono) simp_all
    then show "round_half_even (fdiv (of_int (i * (n - 1))) 9) = (2 * (i * (n - 1)) + 9) div 18"
      by (intro sample_round) simp_all
  qed
  then show ?thesis by (simp only: sample_indices_def)
qed

lemma sample_positions_all:
  assumes "1 \<le> n" "n \<le> 50000000"
  shows "sample_indices n = remdups (map (\<lambda>i. (2 * (i * (n - 1)) + 9) div 18) [0..9])
    \<and> 0 \<in> set (sample_indices n) \<and> n - 1 \<in> set (sample_indices n)
    \<and> set (sample_indices n) \<subseteq> {0..n - 1}
    \<and> (10 \<le> n \<longrightarrow> length (sample_indices n) = 10 \<and> sorted_wrt (<) (sample_indices n))"
proof -
  let ?f = "\<lambda>i. (2 * (i * (n - 1)) + 9) div 18"
  note e = sample_indices_exact[OF assms]
  have s: "set (sample_indices n) = ?f ` {0..9}" by (simp only: e set_remdups set_map set_upto)
  have "?f 0 = 0" "?f 9 = n - 1" by simp_all
  then have ends: "0 \<in> ?f ` {0..9}" "n - 1 \<in> ?f ` {0..9}"
    using imageI[of 0 "{0..9}" ?f] imageI[of 9 "{0..9}" ?f] by simp_all
  have range: "?f ` {0..9} \<subseteq> {0..n - 1}"
  proof
    fix y
    assume "y \<in> ?f ` {0..9}"
    then obtain i where i: "0 \<le> i" "i \<le> 9" "y = ?f i" by auto
    have "0 \<le> i * (n - 1)" "i * (n - 1) \<le> 9 * (n - 1)"
      using i(1,2) assms(1) by (simp, intro mult_right_mono) simp_all
    moreover have "0 * 18 \<le> 2 * x + 9 \<and> 2 * x + 9 < n * 18" if "0 \<le> x" "x \<le> 9 * (n - 1)" for x
      using that assms(1) by simp
    ultimately have "0 * 18 \<le> 2 * (i * (n - 1)) + 9" "2 * (i * (n - 1)) + 9 < n * 18" by blast+
    then have "0 \<le> ?f i" "?f i < n" by (simp_all only: int_le_div_iff int_div_less_iff zero_less_numeral)
    then show "y \<in> {0..n - 1}" unfolding i(3) by simp
  qed
  have step: "?f i < ?f (i + 1)" if "10 \<le> n" for i
  proof -
    have "2 * ((i + 1) * (n - 1)) + 9 = 2 * (i * (n - 1)) + 9 + 2 * (n - 1)" by (simp add: algebra_simps)
    then have "(2 * (i * (n - 1)) + 9) + 18 \<le> 2 * ((i + 1) * (n - 1)) + 9" using that by simp
    then have "((2 * (i * (n - 1)) + 9) + 18) div 18 \<le> ?f (i + 1)" by (rule zdiv_mono1) simp
    then show ?thesis by simp
  qed
  have inc: "sorted_wrt (<) (map ?f [0..9])" if "10 \<le> n"
  proof -
    have u: "[0..9] = [0, 0+1, 0+1+1, 0+1+1+1, 0+1+1+1+1, 0+1+1+1+1+1, 0+1+1+1+1+1+1,
      0+1+1+1+1+1+1+1, 0+1+1+1+1+1+1+1+1, 0+1+1+1+1+1+1+1+1+1 :: int]"
      by (simp add: upto.simps)
    note st = step[OF that]
    show ?thesis
      unfolding u list.map
      using st[of 0] st[of "0+1"] st[of "0+1+1"] st[of "0+1+1+1"] st[of "0+1+1+1+1"]
        st[of "0+1+1+1+1+1"] st[of "0+1+1+1+1+1+1"] st[of "0+1+1+1+1+1+1+1"]
        st[of "0+1+1+1+1+1+1+1+1"]
      by (simp only: sorted_wrt2[OF transp_on_less] sorted_wrt1 simp_thms)
  qed
  have "10 \<le> n \<Longrightarrow> length (sample_indices n) = 10 \<and> sorted_wrt (<) (sample_indices n)"
  proof -
    assume n: "10 \<le> n"
    have "distinct (map ?f [0..9])" using inc[OF n] strict_sorted_iff by blast
    then have "sample_indices n = map ?f [0..9]" by (simp only: e distinct_remdups_id)
    then show ?thesis using inc[OF n] by (simp only: length_map) simp
  qed
  with e s ends range show ?thesis by simp
qed

text \<open>
  For every number of queries the program accepts, the sampled positions are the exact
  ninths of the range, rounded to nearest: they contain the first and the last query, stay in
  range and, from ten queries on, are ten different positions.
\<close>

theorem sample_positions:
  assumes "1 \<le> n" "n \<le> 50000000"
  shows "sample_indices n = remdups (map (\<lambda>i. (2 * (i * (n - 1)) + 9) div 18) [0..9])
    \<and> 0 \<in> set (sample_indices n) \<and> n - 1 \<in> set (sample_indices n)
    \<and> set (sample_indices n) \<subseteq> {0..n - 1}
    \<and> (10 \<le> n \<longrightarrow> length (sample_indices n) = 10 \<and> sorted_wrt (<) (sample_indices n))"
  using assms by (rule sample_positions_all)

theorem sample_positions_witness:
  "0 \<in> set (sample_indices 25) \<and> 24 \<in> set (sample_indices 25) \<and> length (sample_indices 25) = 10"
proof -
  have n: "(1::int) \<le> 25" "(25::int) \<le> 50000000" "(10::int) \<le> 25" "(25::int) - 1 = 24" by simp_all
  show ?thesis using sample_positions[OF n(1,2)] n(3) unfolding n(4) by blast
qed


section \<open>The target\<close>


lemma partition_str_first: "c \<notin> set a \<Longrightarrow> partition_str c (a @ c # b) = (a, True, b)"
  by (induction a) auto


























section \<open>Arguments\<close>

lemma parse_tier_error: "parse_tier part = Inl e \<Longrightarrow> \<exists>s. e = ValueError s"
  by (auto simp: parse_tier_def Let_def split: prod.splits if_splits sum.splits)

lemma mapR_error: "mapR f xs = Inl e \<Longrightarrow> \<exists>x\<in>set xs. f x = Inl e"
  by (induction xs) (auto simp: result_simps)

lemma parse_depth_tiers_error: "parse_depth_tiers fsum spec = Inl e \<Longrightarrow> \<exists>s. e = ValueError s"
  by (auto simp: parse_depth_tiers_def result_simps Let_def dest!: mapR_error parse_tier_error
      split: if_splits)

lemma validate_args_None:
  assumes "validate_args fsum query_file_exists args = None"
  shows "a_num_rules args \<in> {1000..500000000} \<and> a_num_queries args \<in> {100..50000000}
    \<and> a_query_concurrency args \<in> {1..256} \<and> 1 \<le> a_num_buckets args
    \<and> 1 \<le> a_query_file_batch_size args
    \<and> (\<exists>x. a_miss_rate args = Fin x \<and> 0 \<le> x \<and> x \<le> 1)
    \<and> (a_query_source args = ''reuse'' \<longrightarrow> query_file_exists)
    \<and> (\<exists>tiers. parse_depth_tiers fsum (a_rule_depth_tiers args) = Inr tiers \<and> tiers \<noteq> []
         \<and> list_all tier_ok tiers)"
proof -
  have tiers: "\<exists>tiers. parse_depth_tiers fsum (a_rule_depth_tiers args) = Inr tiers"
  proof (cases "parse_depth_tiers fsum (a_rule_depth_tiers args)")
    case (Inl e)
    then obtain s where "e = ValueError s" using parse_depth_tiers_error by blast
    with Inl assms show ?thesis by (simp add: validate_args_def split: if_splits)
  qed blast
  then obtain ts where ts: "parse_depth_tiers fsum (a_rule_depth_tiers args) = Inr ts" by blast
  obtain raw where raw: "mapR parse_tier (split_on (CHR '','') (a_rule_depth_tiers args)) = Inr raw"
    "raw \<noteq> []" "ts = map (\<lambda>t. \<lparr>weight = pf_div (weight t) (fsum (map weight raw)),
                       min_size = min_size t, max_size = max_size t\<rparr>) raw"
    using parse_depth_tiers_Inr[OF ts] by blast
  have "tier_ok t" if "t \<in> set raw" for t
    using mapR_all[OF raw(1) _ that, of tier_ok] parse_tier_ok by blast
  then have "ts \<noteq> [] \<and> list_all tier_ok ts" using raw(2,3) by (auto simp: list_all_iff tier_ok_def)
  moreover have "\<exists>x. m = Fin x \<and> 0 \<le> x \<and> x \<le> 1" if "pf_between 0 m 1" for m
    using that by (cases m) auto
  ultimately show ?thesis
    using assms ts unfolding validate_args_def by (simp split: if_splits)
qed

text \<open>The text of a tier from the text of its percentage and its bounds, and when it is good.\<close>

definition tier_word :: "string \<times> int \<times> int \<Rightarrow> string" where
  "tier_word t = (case t of (pct, lo, hi) \<Rightarrow> pct @ '':'' @ py_str lo @ ''-'' @ py_str hi)"

definition tier_good :: "string \<times> int \<times> int \<Rightarrow> bool" where
  "tier_good t = (case t of (pct, lo, hi) \<Rightarrow>
     (case py_float pct of Inl _ \<Rightarrow> False | Inr p \<Rightarrow> \<not> pf_le0 p) \<and> 1 \<le> lo \<and> lo \<le> hi)"

definition tier_value :: "string \<times> int \<times> int \<Rightarrow> depth_tier" where
  "tier_value t = (case t of (pct, lo, hi) \<Rightarrow> \<lparr>weight = projr (py_float pct), min_size = lo, max_size = hi\<rparr>)"

lemma parse_tier_word:
  assumes "CHR '':'' \<notin> set (fst t)"
  shows "if tier_good t then parse_tier (tier_word t) = Inr (tier_value t)
    else \<exists>msg. parse_tier (tier_word t) = Inl (ValueError msg)"
proof -
  obtain pct lo hi where t: "t = (pct, lo, hi)" by (cases t)
  have p: "partition_str (CHR '':'') (tier_word (pct, lo, hi)) = (pct, True, py_str lo @ CHR ''-'' # py_str hi)"
    using partition_str_first[of "CHR '':''" pct] assms by (simp add: t tier_word_def)
  show ?thesis
  proof (cases "lo < 0")
    case True
    then obtain m where "py_str lo = CHR ''-'' # m" by (auto simp: py_str_def)
    then have q: "partition_str (CHR ''-'') (py_str lo @ CHR ''-'' # py_str hi) = ([], True, m @ CHR ''-'' # py_str hi)" by simp
    have "case py_int [] of Inl _ \<Rightarrow> True | Inr _ \<Rightarrow> False" by code_simp
    then obtain e where e: "py_int [] = Inl e" by (cases "py_int []") auto
    show ?thesis using True e by (cases "py_float pct") (auto simp: parse_tier_def p q t tier_good_def)
  next
    case False
    then have "CHR ''-'' \<notin> set (py_str lo)" using dec_digits[of "CHR ''-''" "nat lo"] by (auto simp: py_str_def is_digit_def)
    then have q: "partition_str (CHR ''-'') (py_str lo @ CHR ''-'' # py_str hi) = (py_str lo, True, py_str hi)"
      by (rule partition_str_first)
    show ?thesis
      by (cases "py_float pct") (auto simp: parse_tier_def p q t tier_good_def tier_value_def py_int_py_str)
  qed
qed

lemma parse_tier_words:
  assumes "ts \<noteq> []" "list_all (\<lambda>t. CHR '':'' \<notin> set (fst t) \<and> CHR '','' \<notin> set (fst t)) ts"
  shows "if list_all tier_good ts
    then parse_depth_tiers fsum (join '','' (map tier_word ts))
      = Inr (map (\<lambda>t. \<lparr>weight = pf_div (weight t) (fsum (map (weight \<circ> tier_value) ts)), min_size = min_size t,
          max_size = max_size t\<rparr>) (map tier_value ts))
    else \<exists>msg. parse_depth_tiers fsum (join '','' (map tier_word ts)) = Inl (ValueError msg)"
proof -
  have "CHR '','' \<notin> set (py_str n)" for n by (rule py_str_no) (simp_all add: is_digit_def)
  then have "CHR '','' \<notin> set (tier_word t)" if "t \<in> set ts" for t
    using assms(2) that by (auto simp: tier_word_def list_all_iff split: prod.split)
  then have s: "split_on (CHR '','') (join '','' (map tier_word ts)) = map tier_word ts"
    using assms(1) by (intro split_on_join) auto
  have w: "if tier_good t then parse_tier (tier_word t) = Inr (tier_value t)
      else \<exists>msg. parse_tier (tier_word t) = Inl (ValueError msg)" if "t \<in> set ts" for t
    by (rule parse_tier_word) (use assms(2) that in \<open>simp add: list_all_iff\<close>)
  show ?thesis
  proof (cases "list_all tier_good ts")
    case True
    then have "mapR parse_tier (map tier_word ts) = Inr (map tier_value ts)"
      using w unfolding mapR_map by (intro mapR_Inr) (auto simp: list_all_iff split: if_splits)
    with True assms(1) show ?thesis by (simp add: parse_depth_tiers_def s Let_def)
  next
    case False
    have "\<exists>e. mapR parse_tier (map tier_word ts) = Inl e"
    proof (rule ccontr)
      assume "\<not> ?thesis"
      then obtain ys where "mapR parse_tier (map tier_word ts) = Inr ys" by (cases "mapR parse_tier (map tier_word ts)") auto
      from mapR_Inr_nth[OF this] have "\<exists>y. parse_tier (tier_word t) = Inr y" if "t \<in> set ts" for t
        using that by (metis in_set_conv_nth length_map nth_map)
      then show False using w False by (fastforce simp: list_all_iff split: if_splits)
    qed
    then obtain e where "mapR parse_tier (map tier_word ts) = Inl e" by blast
    moreover from mapR_error[OF this] parse_tier_error obtain msg where "e = ValueError msg" by blast
    ultimately show ?thesis using False by (simp add: parse_depth_tiers_def s)
  qed
qed

text \<open>
  C39: The checks of the arguments are exact, down to the text of the depth tiers. For a text of tiers with any
  percentages and any integers as bounds, negative ones included, the arguments are accepted exactly when every
  number is in its interval, the pause is not negative, the file to reuse exists, and every tier has a
  percentage that reads as a float and is not zero or below, and 1 <= lo <= hi. When the tiers are the only fault
  the error is theirs; good tiers are read as they were written, with their weights divided by the sum.
\<close>

theorem validate_args_exact:
  assumes "ts \<noteq> []" "list_all (\<lambda>t. CHR '':'' \<notin> set (fst t) \<and> CHR '','' \<notin> set (fst t)) ts"
    and "a_rule_depth_tiers args = join '','' (map tier_word ts)"
    and "in_range \<longleftrightarrow> a_num_rules args \<in> {1000..500000000} \<and> a_num_queries args \<in> {100..50000000}
      \<and> (\<exists>x. a_miss_rate args = Fin x \<and> 0 \<le> x \<and> x \<le> 1) \<and> a_query_concurrency args \<in> {1..256}
      \<and> 1 \<le> a_query_file_batch_size args \<and> a_query_pause_seconds args \<noteq> NegInf
      \<and> (\<forall>x. a_query_pause_seconds args = Fin x \<longrightarrow> 0 \<le> x)
      \<and> (a_query_source args = ''reuse'' \<longrightarrow> query_file_exists) \<and> 1 \<le> a_num_buckets args"
  shows "(validate_args fsum query_file_exists args = None \<longleftrightarrow> in_range \<and> list_all tier_good ts)
    \<and> (in_range \<and> \<not> list_all tier_good ts \<longrightarrow> validate_args fsum query_file_exists args = Some ''--rule-depth-tiers'')
    \<and> (list_all tier_good ts \<longrightarrow> parse_depth_tiers fsum (a_rule_depth_tiers args)
        = Inr (map (\<lambda>t. \<lparr>weight = pf_div (weight t) (fsum (map (weight \<circ> tier_value) ts)), min_size = min_size t,
            max_size = max_size t\<rparr>) (map tier_value ts)))"
proof -
  have miss: "pf_between 0 m 1 \<longleftrightarrow> (\<exists>x. m = Fin x \<and> 0 \<le> x \<and> x \<le> 1)" for m by (cases m) auto
  have pause: "pf_negative m \<longleftrightarrow> \<not> (m \<noteq> NegInf \<and> (\<forall>x. m = Fin x \<longrightarrow> 0 \<le> x))" for m by (cases m) auto
  let ?tiers = "case parse_depth_tiers fsum (a_rule_depth_tiers args) of
      Inl (ValueError _) \<Rightarrow> Some ''--rule-depth-tiers'' | _ \<Rightarrow> None"
  have v: "if in_range then validate_args fsum query_file_exists args = ?tiers
      else validate_args fsum query_file_exists args \<noteq> None"
    unfolding assms(4) validate_args_def miss pause by auto
  note t = parse_tier_words[OF assms(1,2), of fsum, folded assms(3)]
  show ?thesis
  proof (cases "list_all tier_good ts")
    case True
    with t v show ?thesis by (cases in_range) simp_all
  next
    case False
    with t obtain msg where "parse_depth_tiers fsum (a_rule_depth_tiers args) = Inl (ValueError msg)" by auto
    with v False show ?thesis by (cases in_range) simp_all
  qed
qed

definition default_args :: bench_args where
  "default_args = \<lparr>a_num_rules = 10000, a_num_queries = 1000, a_miss_rate = Fin (1/8),
     a_query_concurrency = 1, a_query_file_batch_size = 1000, a_query_pause_seconds = Fin 2,
     a_query_source = ''memory'', a_num_buckets = 1, a_rule_depth_tiers = DEFAULT_DEPTH_TIERS,
     a_write_batch_size = 1000, a_no_flush = False, a_mode = ''single'', a_seed = 42\<rparr>"

lemma default_args_accepted: "validate_args sum_fin False default_args = None"
  using default_tiers by (simp add: validate_args_def default_args_def)

theorem validate_args_exact_witness:
  "validate_args sum_fin False default_args = None
   \<and> validate_args sum_fin False (default_args\<lparr>a_rule_depth_tiers := ''50:1-3,.5:4--20''\<rparr>) = Some ''--rule-depth-tiers''"
proof -
  let ?ts = "[(''50'', 1, 3), (''30'', 4, 20), (''10'', 21, 50), (''10'', 51, 2000)] :: (string \<times> int \<times> int) list"
  let ?us = "[(''50'', 1, 3), (''.5'', 4, - 20)] :: (string \<times> int \<times> int) list"
  have ts: "?ts \<noteq> []" "list_all (\<lambda>t. CHR '':'' \<notin> set (fst t) \<and> CHR '','' \<notin> set (fst t)) ?ts"
    "a_rule_depth_tiers default_args = join '','' (map tier_word ?ts)" by code_simp+
  have us: "?us \<noteq> []" "list_all (\<lambda>t. CHR '':'' \<notin> set (fst t) \<and> CHR '','' \<notin> set (fst t)) ?us"
    "a_rule_depth_tiers (default_args\<lparr>a_rule_depth_tiers := ''50:1-3,.5:4--20''\<rparr>) = join '','' (map tier_word ?us)" by code_simp+
  have "list_all tier_good ?ts" "\<not> list_all tier_good ?us" by code_simp+
  moreover have "a_num_rules default_args \<in> {1000..500000000}" "a_num_queries default_args \<in> {100..50000000}"
    "a_query_concurrency default_args \<in> {1..256}" "1 \<le> a_query_file_batch_size default_args"
    "a_query_pause_seconds default_args = Fin 2" "a_query_source default_args \<noteq> ''reuse''" "1 \<le> a_num_buckets default_args"
    by (simp_all add: default_args_def)
  moreover have "\<exists>x. a_miss_rate default_args = Fin x \<and> 0 \<le> x \<and> x \<le> 1"
    by (rule exI[of _ "1/8"]) (simp add: default_args_def)
  ultimately show ?thesis
    using validate_args_exact[OF ts refl, of sum_fin False] validate_args_exact[OF us refl, of sum_fin False]
    by simp
qed

end
