(* ===== verification/Bench_Main.thy ===== *)
theory Bench_Main
  imports Bench_Phase Bench_Stats
begin

text \<open>
  \<open>fqdnrules/benchmark.py\<close>, the warm-up and the main flow: from the checked arguments to the numbers
  of the final report. The server, the generator, the float sum, the query file left by an
  earlier run, the clock and the order of the threads are one parameter, \<open>bench_env\<close>.
\<close>

section \<open>The main flow\<close>

record ('db, 's) bench_env =
  be_api :: "'db redis_api"
  be_reachable :: "'db \<Rightarrow> bool"
  be_flushdb :: "'db \<Rightarrow> 'db"
  be_rng :: "'s rng_api"
  be_seed :: "int \<Rightarrow> 's"
  be_sum_weights :: "pyfloat list \<Rightarrow> pyfloat"
  be_sum :: "rat list \<Rightarrow> rat"
  be_query_file :: "string option"
  be_schedule :: "nat \<Rightarrow> nat list"
  be_clock :: "nat \<Rightarrow> rat \<times> rat"

text \<open>
  The barrier makes every warm-up task run; the first lookup that raised, in the order of the
  queries, raises from \<open>list(pool.map(...))\<close>.
\<close>

definition warm_up_connections ::
  "'db redis_api \<Rightarrow> 's rng_api \<Rightarrow> rule_store \<Rightarrow> 'db \<Rightarrow> match_mode \<Rightarrow> int \<Rightarrow> 's \<Rightarrow> 's result" where
  "warm_up_connections api rng st db mode concurrency s =
     (if concurrency \<le> 1 then Inr s
      else (let (warm_queries, s1) = draw_misses rng (nat concurrency) s
            in bindR (pool_error api st db mode warm_queries) (\<lambda>_. Inr s1)))"

text \<open>\<open>None\<close> outside is a partition loop that does not end, \<open>None\<close> inside a run without a layout.\<close>

definition layout_stage :: "('db, 's) bench_env \<Rightarrow> bench_args \<Rightarrow> rule_layout option result option" where
  "layout_stage env args =
     (if a_no_flush args \<and> a_query_source args = ''reuse'' then Some (Inr None)
      else (case parse_depth_tiers (be_sum_weights env) (a_rule_depth_tiers args) of
              Inl e \<Rightarrow> Some (Inl e)
            | Inr tiers \<Rightarrow>
                (case build_key_sizes (be_rng env) (a_num_rules args) tiers (be_seed env LAYOUT_SEED) of
                   None \<Rightarrow> None
                 | Some (Inl e) \<Rightarrow> Some (Inl e)
                 | Some (Inr (sizes, _)) \<Rightarrow>
                     (let layout = rule_layout_init sizes
                      in Some (bindR (layout_report layout tiers (a_num_rules args))
                           (\<lambda>_. Inr (Some layout)))))))"

definition write_stage ::
  "('db, 's) bench_env \<Rightarrow> bench_args \<Rightarrow> rule_store \<Rightarrow> rule_layout option \<Rightarrow> 'db \<Rightarrow> 'db result" where
  "write_stage env args st layout db =
     (if a_no_flush args then Inr db
      else bindR (run_write_phase (be_api env) st (be_flushdb env db) (a_num_rules args)
                    (a_write_batch_size args) (the layout)) (\<lambda>ws. Inr (ws_db ws)))"

definition query_stage ::
  "('db, 's) bench_env \<Rightarrow> bench_args \<Rightarrow> rat \<Rightarrow> rule_layout option \<Rightarrow> 's \<Rightarrow> (query list \<times> 's) result" where
  "query_stage env args miss_rate layout s =
     (if a_query_source args = ''reuse''
      then bindR (read_queries_from_file (the (be_query_file env)) (a_query_file_batch_size args)) (\<lambda>queries.
             if int (length queries) < a_num_queries args then Inl (SystemExit ''--query-file'')
             else Inr (take (nat (a_num_queries args)) queries, s))
      else (let (queries, s1) = build_queries (be_rng env) (a_num_rules args) (a_num_queries args)
                  miss_rate (the layout) s
            in if a_query_source args = ''disk''
               then bindR (write_queries_to_file queries (a_query_file_batch_size args)) (\<lambda>contents.
                    bindR (read_queries_from_file contents (a_query_file_batch_size args)) (\<lambda>queries'.
                    Inr (queries', s1)))
               else Inr (queries, s1)))"

record bench_result =
  res_num_queries :: int
  res_latencies :: "rat list"
  res_stats :: latency_stats
  res_samples :: "sample_result list"

definition run_stage ::
  "('db, 's) bench_env \<Rightarrow> bench_args \<Rightarrow> rule_store \<Rightarrow> match_mode \<Rightarrow> query list \<Rightarrow> 'db \<Rightarrow> 's
     \<Rightarrow> bench_result result" where
  "run_stage env args st mode queries db s =
     bindR (warm_up_connections (be_api env) (be_rng env) st db mode (a_query_concurrency args) s) (\<lambda>_.
     bindR (run_query_phase (be_api env) st db queries mode (a_query_concurrency args)
              (be_schedule env (length queries)) (be_clock env)) (\<lambda>(latencies_ms, samples).
     bindR (compute_latency_stats (be_sum env) latencies_ms) (\<lambda>stats.
     Inr \<lparr>res_num_queries = int (length queries), res_latencies = latencies_ms, res_stats = stats,
          res_samples = samples\<rparr>)))"

definition bench_mode :: "bench_args \<Rightarrow> match_mode" where
  "bench_mode args = (if a_mode args = ''single'' then SINGLE_LEVEL else MULTI_LEVEL)"

text \<open>The store is opened before the flush; a refusal of its replica count ends the program.\<close>

definition open_store :: "('db, 's) bench_env \<Rightarrow> bench_args \<Rightarrow> 'db \<Rightarrow> rule_store result" where
  "open_store env args db =
     (case rule_store_init (be_api env) db ''bench'' (a_num_buckets args) of
        Inl (ValueError msg) \<Rightarrow> Inl (SystemExit msg)
      | r \<Rightarrow> r)"

definition bench_main ::
  "('db, 's) bench_env \<Rightarrow> bench_args \<Rightarrow> 'db \<Rightarrow> bench_result result option" where
  "bench_main env args db =
     (case (validate_args (be_sum_weights env) (be_query_file env \<noteq> None) args, a_miss_rate args) of
        (None, Fin miss_rate) \<Rightarrow>
          if \<not> be_reachable env db then Some (Inl (SystemExit ''cannot reach redis''))
          else (case open_store env args db of
                  Inl e \<Rightarrow> Some (Inl e)
                | Inr st \<Rightarrow>
                    map_option (\<lambda>r. bindR r (\<lambda>layout.
                        bindR (write_stage env args st layout db) (\<lambda>db'.
                        bindR (query_stage env args miss_rate layout (be_seed env (a_seed args))) (\<lambda>(queries, s).
                        run_stage env args st (bench_mode args) queries db' s))))
                      (layout_stage env args))
      | (Some msg, _) \<Rightarrow> Some (Inl (SystemExit msg))
      | (None, _) \<Rightarrow> Some (Inl (SystemExit ''--miss-rate'')))"


section \<open>A run from the arguments to the report\<close>

lemma query_phase_ok:
  assumes "mset schedule = mset [0..<length queries]"
    and "\<And>i. i < length queries \<Longrightarrow> lookup_of api st db mode (queries ! i) = Inr (found i)"
  shows "run_query_phase api st db queries mode concurrency schedule clock
    = Inr (query_result queries found clock)"
proof -
  let ?start = "\<lparr>qs_latencies = replicate (length queries) 0, qs_samples = []\<rparr>"
  have run: "bindR (run_tasks api st db mode queries clock order ?start)
      (\<lambda>qst. Inr (qs_latencies qst, sort_key sr_index (qs_samples qst))) = Inr (query_result queries found clock)"
    if o: "mset order = mset [0..<length queries]" for order
  proof -
    have "\<And>i. i \<in> set order \<Longrightarrow> lookup_of api st db mode (queries ! i) = Inr (found i)"
      using assms(2) mset_eq_setD[OF o] by simp
    from run_tasks_Inr[OF this] obtain qst where
      q: "run_tasks api st db mode queries clock order ?start = Inr qst" by blast
    from run_tasks_result[OF o assms(2) q] show ?thesis by (simp only: q bindR.simps)
  qed
  have "\<exists>r. lookup_of api st db mode q = Inr r" if "q \<in> set queries" for q
    using that assms(2) by (metis in_set_conv_nth)
  then obtain g where "\<And>q. q \<in> set queries \<Longrightarrow> lookup_of api st db mode q = Inr (g q)" by metis
  from mapR_Inr[of queries, OF this] have "pool_error api st db mode queries = Inr ()"
    by (simp add: pool_error_def lookup_of_def[abs_def])
  with run[OF assms(1)] run[OF refl] show ?thesis by (simp add: run_query_phase_def Let_def)
qed

lemma sample_count:
  assumes "10 \<le> n" "n \<le> 50000000" "int (length queries) = n"
  shows "length (filter (sampled queries) [0..<length queries]) = 10"
proof -
  let ?S = "sample_indices n"
  have S: "set ?S \<subseteq> {0..n - 1}" "length ?S = 10" "sorted_wrt (<) ?S"
    using sample_positions_all[of n] assms(1,2) by auto
  have "distinct ?S" using S(3) strict_sorted_iff by blast
  then have c: "card (set ?S) = 10" using S(2) distinct_card by fastforce
  have "length (filter (sampled queries) [0..<length queries])
      = card {i. i < length queries \<and> int i \<in> set ?S}"
    by (simp add: length_filter_conv_card sampled_def assms(3) cong: conj_cong)
  also have "\<dots> = card (int ` {i. i < length queries \<and> int i \<in> set ?S})"
    by (rule card_image[symmetric]) (simp add: inj_on_def)
  also have "int ` {i. i < length queries \<and> int i \<in> set ?S} = set ?S"
  proof
    show "set ?S \<subseteq> int ` {i. i < length queries \<and> int i \<in> set ?S}"
    proof
      fix x
      assume x: "x \<in> set ?S"
      with S(1) have "0 \<le> x" "x < n" by auto
      then have "x = int (nat x)" "nat x < length queries" using assms(3) by auto
      with x show "x \<in> int ` {i. i < length queries \<and> int i \<in> set ?S}"
        by (intro image_eqI[of _ _ "nat x"]) auto
    qed
  qed auto
  finally show ?thesis using c by simp
qed

text \<open>What a sample of a fresh run shows: the rule of a hit query, or the miss of a miss query.\<close>

definition sample_correct :: "'s rng_api \<Rightarrow> int \<Rightarrow> rule_layout \<Rightarrow> sample_result \<Rightarrow> bool" where
  "sample_correct rng num_rules layout s \<longleftrightarrow>
     (\<exists>i. 0 \<le> i \<and> i < num_rules \<and> (sr_fqdn1 s, sr_port s, sr_fqdn2 s) = matching_query_for_index i layout
        \<and> sr_result s = ''rule:'' @ py_str i)
     \<or> (\<exists>t. (sr_fqdn1 s, sr_port s, sr_fqdn2 s) = fst (miss_query rng t) \<and> sr_result s = ''MISS'')"

text \<open>The hypotheses of a fresh run: valid arguments, a flushed namespace, finite positive weights.\<close>

definition fresh_run :: "('db, 's) bench_env \<Rightarrow> bench_args \<Rightarrow> 'db \<Rightarrow> rule_store \<Rightarrow> bool" where
  "fresh_run env args db st \<longleftrightarrow> redis_laws (be_api env) \<and> rng_ok (be_rng env)
     \<and> validate_args (be_sum_weights env) (be_query_file env \<noteq> None) args = None
     \<and> a_query_source args \<noteq> ''reuse'' \<and> \<not> a_no_flush args \<and> 0 < a_write_batch_size args
     \<and> be_reachable env db \<and> open_store env args db = Inr st \<and> store_ok st
     \<and> represents (be_api env) st (be_flushdb env db) no_rules
     \<and> (\<forall>tiers. parse_depth_tiers (be_sum_weights env) (a_rule_depth_tiers args) = Inr tiers
          \<longrightarrow> positive_weights tiers)
     \<and> (\<forall>n. mset (be_schedule env n) = mset [0..<n])"

lemma fresh_layout:
  assumes "fresh_run env args db st"
  obtains sizes where "layout_stage env args = Some (Inr (Some (rule_layout_init sizes)))"
    "list_all (\<lambda>x. 1 \<le> x) sizes" "sum_list sizes = a_num_rules args"
proof -
  have v: "validate_args (be_sum_weights env) (be_query_file env \<noteq> None) args = None"
    and rng: "rng_ok (be_rng env)" and src: "a_query_source args \<noteq> ''reuse''"
    using assms by (simp_all add: fresh_run_def)
  note acc = validate_args_None[OF v]
  obtain tiers where t: "parse_depth_tiers (be_sum_weights env) (a_rule_depth_tiers args) = Inr tiers"
    "list_all tier_ok tiers" using acc by blast
  have w: "positive_weights tiers" using assms t(1) by (simp add: fresh_run_def)
  have n: "0 \<le> a_num_rules args" "1000 \<le> a_num_rules args" using acc by simp_all
  obtain sizes s' where z: "build_key_sizes (be_rng env) (a_num_rules args) tiers (be_seed env LAYOUT_SEED)
      = Some (Inr (sizes, s'))" "sum_list sizes = a_num_rules args" "list_all (\<lambda>x. 1 \<le> x) sizes"
    using key_sizes_total[OF rng w t(2) n(1)] by blast
  have "sizes \<noteq> []" using z(2) n(2) by auto
  then have "layout_stage env args = Some (Inr (Some (rule_layout_init sizes)))"
    using src t(1) z(1) by (simp add: layout_stage_def layout_report_def Let_def rule_layout_init_def)
  with z(2,3) that show ?thesis by blast
qed

lemma fresh_write:
  assumes "fresh_run env args db st" "layout = rule_layout_init sizes"
  obtains db' where "write_stage env args st (Some layout) db = Inr db'"
    "\<And>q mode. (\<exists>i. 0 \<le> i \<and> i < a_num_rules args \<and> q = matching_query_for_index i layout) \<Longrightarrow>
       \<exists>m i. 0 \<le> i \<and> i < a_num_rules args \<and> q = matching_query_for_index i layout
         \<and> lookup_of (be_api env) st db' mode q = Inr (Some m) \<and> m_rule_id m = ''rule:'' @ py_str i"
    "\<And>t mode. lookup_of (be_api env) st db' mode (fst (miss_query (be_rng env) t)) = Inr None"
proof -
  have api: "redis_laws (be_api env)" and rng: "rng_ok (be_rng env)" and so: "store_ok st"
    and empty: "represents (be_api env) st (be_flushdb env db) no_rules"
    and nf: "\<not> a_no_flush args" and b: "0 < a_write_batch_size args"
    and v: "validate_args (be_sum_weights env) (be_query_file env \<noteq> None) args = None"
    using assms(1) by (simp_all add: fresh_run_def)
  have "1000 \<le> a_num_rules args" "a_num_rules args \<le> 500000000" using validate_args_None[OF v] by simp_all
  then have n: "0 \<le> a_num_rules args" "a_num_rules args < 2 ^ 53" by simp_all
  obtain ws where ws: "run_write_phase (be_api env) st (be_flushdb env db) (a_num_rules args)
      (a_write_batch_size args) layout = Inr ws"
    using write_phase_represents[OF api so empty b n] by blast
  have st: "write_stage env args st (Some layout) db = Inr (ws_db ws)"
    using nf ws by (simp add: write_stage_def)
  have hit: "\<exists>m. lookup_of (be_api env) st (ws_db ws) mode q = Inr (Some m) \<and> m_rule_id m = ''rule:'' @ py_str i"
    if "0 \<le> i" "i < a_num_rules args" "q = matching_query_for_index i layout" for q mode i
  proof -
    obtain f1 p f2 where q: "matching_query_for_index i layout = (f1, p, f2)"
      by (cases "matching_query_for_index i layout")
    from hit_query_answered[OF api so empty b n(2) that(1,2) q, of mode] ws
    show ?thesis by (auto simp: lookup_of_def that(3) q)
  qed
  have miss: "lookup_of (be_api env) st (ws_db ws) mode (fst (miss_query (be_rng env) t)) = Inr None" for t mode
  proof -
    obtain f1 p f2 t' where q: "miss_query (be_rng env) t = ((f1, p, f2), t')"
      by (metis prod.exhaust)
    from miss_query_unanswered[OF api so empty rng b n q, of layout mode] ws
    show ?thesis by (simp add: lookup_of_def q)
  qed
  have hits: "\<exists>m i. 0 \<le> i \<and> i < a_num_rules args \<and> q = matching_query_for_index i layout
         \<and> lookup_of (be_api env) st (ws_db ws) mode q = Inr (Some m) \<and> m_rule_id m = ''rule:'' @ py_str i"
    if "\<exists>i. 0 \<le> i \<and> i < a_num_rules args \<and> q = matching_query_for_index i layout" for q mode
    using that hit[of _ q mode] by blast
  show ?thesis by (rule that[OF st hits miss])
qed

lemma fresh_queries:
  assumes "fresh_run env args db st" "a_miss_rate args = Fin r"
  obtains queries s where "query_stage env args r (Some layout) t = Inr (queries, s)"
    "int (length queries) = a_num_queries args"
    "\<And>q. q \<in> set queries \<Longrightarrow>
       (\<exists>i. 0 \<le> i \<and> i < a_num_rules args \<and> q = matching_query_for_index i layout)
       \<or> (\<exists>t. q = fst (miss_query (be_rng env) t))"
    "queries = fst (build_queries (be_rng env) (a_num_rules args) (a_num_queries args) r layout t)"
proof -
  have rng: "rng_ok (be_rng env)" and src: "a_query_source args \<noteq> ''reuse''"
    and v: "validate_args (be_sum_weights env) (be_query_file env \<noteq> None) args = None"
    using assms(1) by (simp_all add: fresh_run_def)
  note acc = validate_args_None[OF v]
  have c: "0 < a_num_rules args" "0 \<le> a_num_queries args" "a_num_queries args < 2 ^ 53" "0 \<le> r" "r \<le> 1"
    "0 < a_query_file_batch_size args"
    using acc assms(2) by auto
  obtain queries s where q: "build_queries (be_rng env) (a_num_rules args) (a_num_queries args) r layout t
      = (queries, s)" by (cases "build_queries (be_rng env) (a_num_rules args) (a_num_queries args) r layout t")
  obtain hits misses where h: "mset queries = mset (hits @ misses)"
    "int (length hits) + int (length misses) = a_num_queries args"
    "\<forall>q\<in>set hits. \<exists>i. 0 \<le> i \<and> i < a_num_rules args \<and> q = matching_query_for_index i layout"
    "\<forall>q\<in>set misses. \<exists>t. q = fst (miss_query (be_rng env) t)" "\<forall>q\<in>set queries. query_clean q"
    using build_queries_content[OF rng c(1,2,3,4,5) q] by blast
  have len: "int (length queries) = a_num_queries args"
    using h(2) arg_cong[OF h(1), of size] by simp
  have kinds: "(\<exists>i. 0 \<le> i \<and> i < a_num_rules args \<and> q = matching_query_for_index i layout)
       \<or> (\<exists>t. q = fst (miss_query (be_rng env) t))" if "q \<in> set queries" for q
    using that h(3,4) mset_eq_setD[OF h(1)] by auto
  have "query_stage env args r (Some layout) t = Inr (queries, s)"
  proof (cases "a_query_source args = ''disk''")
    case True
    obtain contents where "write_queries_to_file queries (a_query_file_batch_size args) = Inr contents"
      "read_queries_from_file contents (a_query_file_batch_size args) = Inr queries"
      using query_file_reads_back[OF c(6) h(5)] by blast
    with True q show ?thesis by (simp add: query_stage_def)
  next
    case False
    with src q show ?thesis by (simp add: query_stage_def)
  qed
  moreover have "queries = fst (build_queries (be_rng env) (a_num_rules args) (a_num_queries args) r layout t)" by (simp add: q)
  ultimately show ?thesis using len kinds that by blast
qed

lemma latency_stats_exist:
  assumes "latencies \<noteq> []"
  shows "\<exists>s. compute_latency_stats fsum latencies = Inr s"
proof -
  have "int (length (sort latencies)) \<noteq> 0" using assms by simp
  then show ?thesis unfolding compute_latency_stats_def Let_def by (simp only: if_False) blast
qed

lemma warm_up_ok:
  assumes "\<And>t. lookup_of api st db mode (fst (miss_query rng t)) = Inr None"
  shows "\<exists>s'. warm_up_connections api rng st db mode concurrency s = Inr s'"
proof -
  let ?qs = "fst (draw_misses rng (nat concurrency) s)"
  have "lookup_of api st db mode q = Inr None" if q: "q \<in> set ?qs" for q
  proof -
    obtain t where "q = fst (miss_query rng t)"
      using draw_misses_spec[of rng "nat concurrency" s] q by blast
    then show ?thesis using assms[of t] by simp
  qed
  from mapR_Inr[of ?qs, OF this] have "pool_error api st db mode ?qs = Inr ()"
    by (simp add: pool_error_def lookup_of_def[abs_def])
  then show ?thesis by (simp add: warm_up_connections_def Let_def case_prod_unfold)
qed

text \<open>
  The query phase after a complete write: with an answer for every query that is right, the reported
  numbers are those of the queries and every sample is right.
\<close>

definition answered :: "('db, 's) bench_env \<Rightarrow> bench_args \<Rightarrow> rule_layout \<Rightarrow> rule_store \<Rightarrow> 'db \<Rightarrow> query list \<Rightarrow> bool" where
  "answered env args layout st db queries \<longleftrightarrow>
     (\<forall>i<length queries. \<exists>m. lookup_of (be_api env) st db (bench_mode args) (queries ! i) = Inr m
        \<and> sample_correct (be_rng env) (a_num_rules args) layout (task_sample queries (\<lambda>_. m) (be_clock env) i))"

lemma answers_right:
  assumes "\<And>q. (\<exists>i. 0 \<le> i \<and> i < a_num_rules args \<and> q = matching_query_for_index i layout) \<Longrightarrow>
       \<exists>m i. 0 \<le> i \<and> i < a_num_rules args \<and> q = matching_query_for_index i layout
         \<and> lookup_of (be_api env) st db (bench_mode args) q = Inr (Some m) \<and> m_rule_id m = ''rule:'' @ py_str i"
    and "\<And>t. lookup_of (be_api env) st db (bench_mode args) (fst (miss_query (be_rng env) t)) = Inr None"
    and "\<And>q. q \<in> set queries \<Longrightarrow>
       (\<exists>i. 0 \<le> i \<and> i < a_num_rules args \<and> q = matching_query_for_index i layout)
       \<or> (\<exists>t. q = fst (miss_query (be_rng env) t))"
  shows "answered env args layout st db queries"
  unfolding answered_def
proof (intro allI impI)
  fix i assume "i < length queries"
  then have "queries ! i \<in> set queries" by simp
  from assms(3)[OF this]
  show "\<exists>m. lookup_of (be_api env) st db (bench_mode args) (queries ! i) = Inr m
      \<and> sample_correct (be_rng env) (a_num_rules args) layout (task_sample queries (\<lambda>_. m) (be_clock env) i)"
  proof
    assume "\<exists>j. 0 \<le> j \<and> j < a_num_rules args \<and> queries ! i = matching_query_for_index j layout"
    from assms(1)[OF this] show ?thesis by (auto simp: sample_correct_def task_sample_def)
  next
    assume "\<exists>t. queries ! i = fst (miss_query (be_rng env) t)"
    then obtain t where t: "queries ! i = fst (miss_query (be_rng env) t)" by blast
    show ?thesis using assms(2)[of t] by (auto simp: sample_correct_def task_sample_def t)
  qed
qed

text \<open>A sample shows the query of its index.\<close>

definition sample_of :: "query list \<Rightarrow> sample_result \<Rightarrow> bool" where
  "sample_of queries s \<longleftrightarrow> sr_index s < length queries \<and> (sr_fqdn1 s, sr_port s, sr_fqdn2 s) = queries ! sr_index s"

lemma run_stage_reports:
  assumes "answered env args layout st db queries" "mset (be_schedule env (length queries)) = mset [0..<length queries]"
    and "warm_up_connections (be_api env) (be_rng env) st db (bench_mode args) (a_query_concurrency args) s = Inr s'"
    and "int (length queries) = a_num_queries args" "100 \<le> a_num_queries args" "a_num_queries args \<le> 50000000"
  shows "\<exists>res. run_stage env args st (bench_mode args) queries db s = Inr res
    \<and> res_num_queries res = a_num_queries args \<and> int (length (res_latencies res)) = a_num_queries args
    \<and> length (res_samples res) = 10
    \<and> (\<forall>s\<in>set (res_samples res). sample_correct (be_rng env) (a_num_rules args) layout s)
    \<and> (\<forall>s\<in>set (res_samples res). sample_of queries s)"
proof -
  let ?ans = "\<lambda>i. projr (lookup_of (be_api env) st db (bench_mode args) (queries ! i))"
  have found: "lookup_of (be_api env) st db (bench_mode args) (queries ! i) = Inr (?ans i)"
    and correct: "sample_correct (be_rng env) (a_num_rules args) layout (task_sample queries ?ans (be_clock env) i)"
    if "i < length queries" for i
    using assms(1) that by (auto simp: answered_def task_sample_def)
  note run = query_phase_ok[OF assms(2) found]
  let ?lat = "map (task_latency (be_clock env)) [0..<length queries]"
  have "?lat \<noteq> []" using assms(4,5) by auto
  from latency_stats_exist[OF this] obtain stats where
    stats: "compute_latency_stats (be_sum env) ?lat = Inr stats" by blast
  let ?samples = "map (task_sample queries ?ans (be_clock env)) (filter (sampled queries) [0..<length queries])"
  have "run_stage env args st (bench_mode args) queries db s = Inr \<lparr>res_num_queries = int (length queries),
      res_latencies = ?lat, res_stats = stats, res_samples = ?samples\<rparr>"
    using assms(3) run stats by (simp add: run_stage_def query_result_def)
  moreover have "length ?samples = 10" using sample_count[OF _ assms(6,4)] assms(5) by simp
  moreover have "\<forall>s\<in>set ?samples. sample_of queries s" by (auto simp: sample_of_def task_sample_def)
  ultimately show ?thesis using correct assms(4) by auto
qed

lemma fresh_run_result:
  assumes "fresh_run env args db st"
  shows "\<exists>layout res r. layout_stage env args = Some (Inr (Some layout)) \<and> a_miss_rate args = Fin r
    \<and> bench_main env args db = Some (Inr res)
    \<and> res_num_queries res = a_num_queries args \<and> int (length (res_latencies res)) = a_num_queries args
    \<and> length (res_samples res) = 10
    \<and> (\<forall>s\<in>set (res_samples res). sample_correct (be_rng env) (a_num_rules args) layout s)
    \<and> (\<forall>s\<in>set (res_samples res). sample_of (fst (build_queries (be_rng env) (a_num_rules args) (a_num_queries args) r layout
          (be_seed env (a_seed args)))) s)"
proof -
  have v: "validate_args (be_sum_weights env) (be_query_file env \<noteq> None) args = None"
    and reach: "be_reachable env db" and op: "open_store env args db = Inr st"
    and sched: "\<And>n. mset (be_schedule env n) = mset [0..<n]"
    using assms by (simp_all add: fresh_run_def)
  note acc = validate_args_None[OF v]
  obtain r where r: "a_miss_rate args = Fin r" using acc by blast
  have nq: "100 \<le> a_num_queries args" "a_num_queries args \<le> 50000000" using acc by simp_all
  obtain sizes where L: "layout_stage env args = Some (Inr (Some (rule_layout_init sizes)))"
    using fresh_layout[OF assms] by blast
  let ?layout = "rule_layout_init sizes" and ?mode = "bench_mode args"
  obtain db' where ws: "write_stage env args st (Some ?layout) db = Inr db'"
    "\<And>q mode. (\<exists>i. 0 \<le> i \<and> i < a_num_rules args \<and> q = matching_query_for_index i ?layout) \<Longrightarrow>
       \<exists>m i. 0 \<le> i \<and> i < a_num_rules args \<and> q = matching_query_for_index i ?layout
         \<and> lookup_of (be_api env) st db' mode q = Inr (Some m) \<and> m_rule_id m = ''rule:'' @ py_str i"
    "\<And>t mode. lookup_of (be_api env) st db' mode (fst (miss_query (be_rng env) t)) = Inr None"
    using fresh_write[OF assms refl] by blast
  obtain queries s where q: "query_stage env args r (Some ?layout) (be_seed env (a_seed args)) = Inr (queries, s)"
    "int (length queries) = a_num_queries args"
    "\<And>q. q \<in> set queries \<Longrightarrow>
       (\<exists>i. 0 \<le> i \<and> i < a_num_rules args \<and> q = matching_query_for_index i ?layout)
       \<or> (\<exists>t. q = fst (miss_query (be_rng env) t))"
    "queries = fst (build_queries (be_rng env) (a_num_rules args) (a_num_queries args) r ?layout (be_seed env (a_seed args)))"
    using fresh_queries[OF assms r] by blast
  have ans: "answered env args ?layout st db' queries" by (rule answers_right[OF ws(2,3) q(3)])
  obtain s' where wu: "warm_up_connections (be_api env) (be_rng env) st db' ?mode
      (a_query_concurrency args) s = Inr s'"
    using warm_up_ok[OF ws(3)] by blast
  obtain res where res: "run_stage env args st ?mode queries db' s = Inr res"
    "res_num_queries res = a_num_queries args" "int (length (res_latencies res)) = a_num_queries args"
    "length (res_samples res) = 10"
    "\<forall>s\<in>set (res_samples res). sample_correct (be_rng env) (a_num_rules args) ?layout s"
    "\<forall>s\<in>set (res_samples res). sample_of queries s"
    using run_stage_reports[OF ans sched wu q(2) nq] by blast
  have "bench_main env args db = Some (Inr res)"
    using v r reach op L ws(1) q(1) res(1) by (simp add: bench_main_def)
  with L r res(2-6) show ?thesis unfolding q(4) by blast
qed

text \<open>
  C2: A whole run on a flushed namespace ends normally with the right answers. With accepted
  arguments and a positive write batch, queries from memory or through the file, and any order of
  the threads, the program neither loops nor raises, measures one latency per query, and each of
  its ten samples shows the rule that was written for a hit query and MISS for a miss query.
\<close>

theorem fresh_run_reports:
  assumes "fresh_run env args db st"
  shows "\<exists>layout res. layout_stage env args = Some (Inr (Some layout))
    \<and> bench_main env args db = Some (Inr res)
    \<and> res_num_queries res = a_num_queries args \<and> int (length (res_latencies res)) = a_num_queries args
    \<and> length (res_samples res) = 10
    \<and> (\<forall>s\<in>set (res_samples res). sample_correct (be_rng env) (a_num_rules args) layout s)"
  using fresh_run_result[OF assms] by blast

definition sample_env :: "(string \<Rightarrow> string \<Rightarrow> string option, unit) bench_env" where
  "sample_env =
     \<lparr>be_api = mem_api, be_reachable = (\<lambda>db. True), be_flushdb = (\<lambda>db. mem_empty), be_rng = least_rng,
      be_seed = (\<lambda>n. ()), be_sum_weights = sum_fin, be_sum = sum_list, be_query_file = None,
      be_schedule = (\<lambda>n. rev [0..<n]), be_clock = (\<lambda>i. (0, 1))\<rparr>"

lemma sample_weights: "positive_weights
     [\<lparr>weight = Fin (1/2), min_size = 1, max_size = 3\<rparr>,
      \<lparr>weight = fl (3/10), min_size = 4, max_size = 20\<rparr>,
      \<lparr>weight = fl (1/10), min_size = 21, max_size = 50\<rparr>,
      \<lparr>weight = fl (1/10), min_size = 51, max_size = 2000\<rparr>]"
proof -
  have "case fl (3/10) of Fin w \<Rightarrow> 0 < w | _ \<Rightarrow> False" "case fl (1/10) of Fin w \<Rightarrow> 0 < w | _ \<Rightarrow> False"
    by code_simp+
  then have "\<exists>w. fl (3/10) = Fin w \<and> 0 < w" "\<exists>w. fl (1/10) = Fin w \<and> 0 < w"
    by (auto split: pyfloat.splits)
  moreover have "\<exists>w. Fin (1/2) = Fin w \<and> 0 < w" by (intro exI[of _ "1/2"]) simp
  ultimately show ?thesis
    unfolding positive_weights_def by (simp only: list.set ball_simps depth_tier.select_convs) simp
qed

lemma sample_run: "fresh_run sample_env default_args mem_empty \<lparr>rs_namespace = ''bench'', rs_num_buckets = 1\<rparr>"
  unfolding fresh_run_def
proof (intro conjI allI impI)
  show "redis_laws (be_api sample_env)" by (simp add: sample_env_def mem_laws)
  show "rng_ok (be_rng sample_env)" by (simp add: sample_env_def least_rng_ok)
  show "validate_args (be_sum_weights sample_env) (be_query_file sample_env \<noteq> None) default_args = None"
    using default_args_accepted by (simp add: sample_env_def)
  show "a_query_source default_args \<noteq> ''reuse''" "\<not> a_no_flush default_args"
    "0 < a_write_batch_size default_args" by (simp_all add: default_args_def)
  show "be_reachable sample_env mem_empty" by (simp add: sample_env_def)
  show "open_store sample_env default_args mem_empty = Inr \<lparr>rs_namespace = ''bench'', rs_num_buckets = 1\<rparr>"
    by (simp add: open_store_def sample_env_def rule_store_init_def mem_api_def mem_empty_def default_args_def)
  show "store_ok \<lparr>rs_namespace = ''bench'', rs_num_buckets = 1\<rparr>" by (simp add: store_ok_def)
  show "represents (be_api sample_env) \<lparr>rs_namespace = ''bench'', rs_num_buckets = 1\<rparr>
      (be_flushdb sample_env mem_empty) no_rules" by (simp add: sample_env_def mem_represents)
  fix tiers
  assume "parse_depth_tiers (be_sum_weights sample_env) (a_rule_depth_tiers default_args) = Inr tiers"
  then show "positive_weights tiers"
    using default_tiers sample_weights by (simp add: sample_env_def default_args_def)
next
  fix n :: nat
  show "mset (be_schedule sample_env n) = mset [0..<n]" by (simp add: sample_env_def)
qed

theorem fresh_run_reports_witness:
  "\<exists>res. bench_main sample_env default_args mem_empty = Some (Inr res) \<and> length (res_samples res) = 10"
  using fresh_run_reports[OF sample_run] by blast

end
