(* ===== verification/Mem_Config.thy ===== *)
theory Mem_Config
  imports Float64 "HOL-Library.AList"
begin

text \<open>
  \<open>memoryBenchmarkScript/memory_benchmark.py\<close>, the configuration: \<open>TypeConfig\<close>,
  \<open>DEFAULT_CONFIGS\<close> and \<open>build_configs\<close>, pass by pass. A Python dict whose order matters is
  an association list; \<open>AList.update\<close> is the assignment \<open>d[k] = v\<close>, which keeps the place of
  a key that is already there.
\<close>

section \<open>Dicts\<close>

definition lookupR :: "('k \<times> 'v) list \<Rightarrow> 'k \<Rightarrow> 'v result" where
  "lookupR m k = (case map_of m k of None \<Rightarrow> Inl KeyError | Some v \<Rightarrow> Inr v)"

text \<open>A loop that updates a state and may raise.\<close>

fun foldR :: "('a \<Rightarrow> 's \<Rightarrow> 's result) \<Rightarrow> 'a list \<Rightarrow> 's \<Rightarrow> 's result" where
  "foldR f [] s = Inr s"
| "foldR f (x # xs) s = bindR (f x s) (foldR f xs)"

text \<open>\<open>for v in d.values(): v.attr = ...\<close>.\<close>

definition map_values :: "('v \<Rightarrow> 'v) \<Rightarrow> ('k \<times> 'v) list \<Rightarrow> ('k \<times> 'v) list" where
  "map_values f m = map (\<lambda>(k, v). (k, f v)) m"

text \<open>\<open>d[k].attr = ...\<close>.\<close>

definition modifyR :: "'k \<Rightarrow> ('v \<Rightarrow> 'v) \<Rightarrow> ('k \<times> 'v) list \<Rightarrow> ('k \<times> 'v) list result" where
  "modifyR k f m = bindR (lookupR m k) (\<lambda>v. Inr (AList.update k (f v) m))"


section \<open>Floats given on the command line\<close>

fun pf_mul :: "pyfloat \<Rightarrow> pyfloat \<Rightarrow> pyfloat" where
  "pf_mul (Fin x) (Fin y) = fl (x * y)"
| "pf_mul NaN y = NaN"
| "pf_mul x NaN = NaN"
| "pf_mul (Fin x) y = (if x = 0 then NaN else if 0 < x then y else pf_neg y)"
| "pf_mul x (Fin y) = (if y = 0 then NaN else if 0 < y then x else pf_neg x)"
| "pf_mul PosInf y = y"
| "pf_mul NegInf y = pf_neg y"

text \<open>\<open>int(x)\<close> truncates towards zero.\<close>

fun pf_int :: "pyfloat \<Rightarrow> int result" where
  "pf_int (Fin x) = Inr (if 0 \<le> x then \<lfloor>x\<rfloor> else \<lceil>x\<rceil>)"
| "pf_int NaN = Inl (ValueError ''cannot convert float NaN to integer'')"
| "pf_int _ = Inl OverflowError"


section \<open>The configuration of a type\<close>

record type_config =
  cfg_enabled :: bool
  cfg_num_keys :: int
  cfg_value_size :: int
  cfg_num_fields :: int
  cfg_pipeline_batch :: int
  cfg_json_depth :: string

definition type_config_defaults :: type_config where
  "type_config_defaults =
     \<lparr>cfg_enabled = True, cfg_num_keys = 1000000, cfg_value_size = 64, cfg_num_fields = 10,
      cfg_pipeline_batch = 5000, cfg_json_depth = ''flat''\<rparr>"

type_synonym configs = "(string \<times> type_config) list"

definition json_default :: "string \<Rightarrow> type_config" where
  "json_default depth = type_config_defaults\<lparr>cfg_enabled := False, cfg_num_keys := 500000,
     cfg_num_fields := 8, cfg_value_size := 32, cfg_json_depth := depth\<rparr>"

definition DEFAULT_CONFIGS :: configs where
  "DEFAULT_CONFIGS =
     [(''strings'', type_config_defaults\<lparr>cfg_num_keys := 10000000, cfg_value_size := 64\<rparr>),
      (''hashes'', type_config_defaults\<lparr>cfg_num_keys := 500000, cfg_num_fields := 10, cfg_value_size := 32\<rparr>),
      (''lists'', type_config_defaults\<lparr>cfg_num_keys := 500000, cfg_num_fields := 10, cfg_value_size := 32\<rparr>),
      (''sets'', type_config_defaults\<lparr>cfg_num_keys := 500000, cfg_num_fields := 15, cfg_value_size := 24\<rparr>),
      (''sorted_sets'', type_config_defaults\<lparr>cfg_num_keys := 500000, cfg_num_fields := 15, cfg_value_size := 24\<rparr>),
      (''streams'', type_config_defaults\<lparr>cfg_num_keys := 500000, cfg_num_fields := 5, cfg_value_size := 32\<rparr>),
      (''hyperloglog'', type_config_defaults\<lparr>cfg_num_keys := 200000, cfg_num_fields := 100\<rparr>),
      (''json'', json_default ''flat''),
      (''json_flat'', json_default ''flat''),
      (''json_medium'', json_default ''medium''),
      (''json_deep'', json_default ''deep'')]"


section \<open>The arguments\<close>

text \<open>What the program reads of \<open>parse_args()\<close>, apart from the connection parameters.\<close>

record mem_args =
  ma_scale :: pyfloat
  ma_container_children_count :: "int option"
  ma_enable_json :: bool
  ma_json_depth :: string
  ma_string_keys :: "int option"
  ma_hash_keys :: "int option"
  ma_list_keys :: "int option"
  ma_set_keys :: "int option"
  ma_zset_keys :: "int option"
  ma_stream_keys :: "int option"
  ma_hll_keys :: "int option"
  ma_json_keys :: "int option"
  ma_value_size :: "int option"
  ma_hash_fields :: "int option"
  ma_list_elements :: "int option"
  ma_set_members :: "int option"
  ma_zset_members :: "int option"
  ma_pipeline_batch :: "int option"
  ma_types :: "string list option"
  ma_repeat :: "int list option"
  ma_ttl :: int
  ma_dragonfly_only :: bool
  ma_redis_only :: bool
  ma_redis_label :: string


section \<open>build_configs\<close>

definition scaled_keys :: "pyfloat \<Rightarrow> int \<Rightarrow> int result" where
  "scaled_keys scale n =
     bindR (pf_int (pf_mul (Fin (of_int n)) scale)) (\<lambda>k. Inr (max 1000 k))"

fun scale_all :: "pyfloat \<Rightarrow> configs \<Rightarrow> configs result" where
  "scale_all scale [] = Inr []"
| "scale_all scale ((name, cfg) # rest) =
     bindR (scaled_keys scale (cfg_num_keys cfg)) (\<lambda>k.
     bindR (scale_all scale rest) (\<lambda>rest'. Inr ((name, cfg\<lparr>cfg_num_keys := k\<rparr>) # rest')))"

definition apply_scale :: "mem_args \<Rightarrow> configs \<Rightarrow> configs result" where
  "apply_scale args configs =
     (if ma_scale args \<noteq> Fin 1 then scale_all (ma_scale args) configs else Inr configs)"

text \<open>\<open>if args.x is not None: configs[name].attr = args.x\<close>.\<close>

definition override ::
  "string \<Rightarrow> ('a \<Rightarrow> type_config \<Rightarrow> type_config) \<Rightarrow> 'a option \<Rightarrow> configs \<Rightarrow> configs result" where
  "override name set_attr x configs =
     (case x of None \<Rightarrow> Inr configs | Some v \<Rightarrow> modifyR name (set_attr v) configs)"

abbreviation set_num_keys :: "int \<Rightarrow> type_config \<Rightarrow> type_config" where
  "set_num_keys k cfg \<equiv> cfg\<lparr>cfg_num_keys := k\<rparr>"

abbreviation set_num_fields :: "int \<Rightarrow> type_config \<Rightarrow> type_config" where
  "set_num_fields k cfg \<equiv> cfg\<lparr>cfg_num_fields := k\<rparr>"

abbreviation set_enabled :: "bool \<Rightarrow> type_config \<Rightarrow> type_config" where
  "set_enabled b cfg \<equiv> cfg\<lparr>cfg_enabled := b\<rparr>"

definition CONTAINER_TYPES :: "string list" where
  "CONTAINER_TYPES = [''streams'', ''hashes'', ''lists'', ''sets'', ''sorted_sets'']"

definition apply_children :: "mem_args \<Rightarrow> configs \<Rightarrow> configs result" where
  "apply_children args configs =
     foldR (\<lambda>name. override name set_num_fields (ma_container_children_count args))
       CONTAINER_TYPES configs"

definition apply_enable_json :: "mem_args \<Rightarrow> configs \<Rightarrow> configs result" where
  "apply_enable_json args configs =
     (if ma_enable_json args then modifyR ''json'' (set_enabled True) configs else Inr configs)"

definition key_overrides :: "mem_args \<Rightarrow> (string \<times> int option) list" where
  "key_overrides args =
     [(''strings'', ma_string_keys args), (''hashes'', ma_hash_keys args),
      (''lists'', ma_list_keys args), (''sets'', ma_set_keys args),
      (''sorted_sets'', ma_zset_keys args), (''streams'', ma_stream_keys args),
      (''hyperloglog'', ma_hll_keys args), (''json'', ma_json_keys args)]"

definition apply_key_overrides :: "mem_args \<Rightarrow> configs \<Rightarrow> configs result" where
  "apply_key_overrides args configs =
     foldR (\<lambda>(name, x). override name (\<lambda>k cfg. set_enabled True (set_num_keys k cfg)) x)
       (key_overrides args) configs"

definition hll_tracks_strings :: "mem_args \<Rightarrow> configs \<Rightarrow> configs result" where
  "hll_tracks_strings args configs =
     (if ma_hll_keys args = None
      then bindR (lookupR configs ''strings'') (\<lambda>strings.
             modifyR ''hyperloglog'' (set_num_keys (cfg_num_keys strings)) configs)
      else Inr configs)"

definition apply_json_depth :: "mem_args \<Rightarrow> configs \<Rightarrow> configs result" where
  "apply_json_depth args configs =
     bindR (lookupR configs ''json'') (\<lambda>json.
       if cfg_enabled json then
         (if ma_json_depth args = ''all''
          then bindR (modifyR ''json'' (set_enabled False) configs)
                 (foldR (\<lambda>dt. modifyR dt (\<lambda>cfg. set_num_keys (cfg_num_keys json) (set_enabled True cfg)))
                    [''json_flat'', ''json_medium'', ''json_deep''])
          else modifyR ''json'' (\<lambda>cfg. cfg\<lparr>cfg_json_depth := ma_json_depth args\<rparr>) configs)
       else Inr configs)"

definition apply_value_size :: "mem_args \<Rightarrow> configs \<Rightarrow> configs" where
  "apply_value_size args configs =
     (case ma_value_size args of None \<Rightarrow> configs
      | Some n \<Rightarrow> map_values (\<lambda>cfg. cfg\<lparr>cfg_value_size := n\<rparr>) configs)"

definition apply_field_overrides :: "mem_args \<Rightarrow> configs \<Rightarrow> configs result" where
  "apply_field_overrides args configs =
     foldR (\<lambda>(name, x). override name set_num_fields x)
       [(''hashes'', ma_hash_fields args), (''lists'', ma_list_elements args),
        (''sets'', ma_set_members args), (''sorted_sets'', ma_zset_members args)] configs"

definition apply_batch :: "mem_args \<Rightarrow> configs \<Rightarrow> configs" where
  "apply_batch args configs =
     (case ma_pipeline_batch args of None \<Rightarrow> configs
      | Some n \<Rightarrow> map_values (\<lambda>cfg. cfg\<lparr>cfg_pipeline_batch := n\<rparr>) configs)"

definition filter_types :: "mem_args \<Rightarrow> configs \<Rightarrow> configs" where
  "filter_types args configs =
     (case ma_types args of None \<Rightarrow> configs
      | Some types \<Rightarrow>
          if types = [] then configs
          else map (\<lambda>(name, cfg). (name, set_enabled (name \<in> set types) cfg)) configs)"

definition build_configs :: "mem_args \<Rightarrow> configs result" where
  "build_configs args =
     bindR (apply_scale args DEFAULT_CONFIGS) (\<lambda>configs.
     bindR (apply_children args configs) (\<lambda>configs.
     bindR (apply_enable_json args configs) (\<lambda>configs.
     bindR (apply_key_overrides args configs) (\<lambda>configs.
     bindR (hll_tracks_strings args configs) (\<lambda>configs.
     bindR (apply_json_depth args configs) (\<lambda>configs.
     bindR (apply_field_overrides args (apply_value_size args configs)) (\<lambda>configs.
     Inr (filter_types args (apply_batch args configs)))))))))"

text \<open>\<open>[t for t in DEFAULT_CONFIGS if configs[t].enabled]\<close>.\<close>

definition enabled_types :: "configs \<Rightarrow> string list result" where
  "enabled_types configs =
     bindR (mapR (\<lambda>t. bindR (lookupR configs t) (\<lambda>cfg. Inr (t, cfg_enabled cfg)))
              (map fst DEFAULT_CONFIGS))
       (\<lambda>ts. Inr (map fst (filter snd ts)))"

end
