(* ===== verification/Mem_Json.thy ===== *)
theory Mem_Json
  imports Float64
begin

text \<open>
  \<open>memoryBenchmarkScript/memory_benchmark.py\<close>, the JSON documents: \<open>_make_medium_doc\<close> and
  \<open>_make_deep_doc\<close> as values, and their text by \<open>json.dumps\<close> with its default separators and
  escapes, so that the sizes of the documents are numbers the kernel computes.
\<close>

datatype json =
    JNull
  | JBool bool
  | JStr string
  | JInt int
  | JArr "json list"
  | JObj "(string \<times> json) list"

definition hex_digit :: "nat \<Rightarrow> char" where
  "hex_digit d = (if d < 10 then chr (48 + d) else chr (87 + d))"

definition json_escape :: "char \<Rightarrow> string" where
  "json_escape c =
     (if c = CHR 0x22 then [CHR 0x5C, CHR 0x22] else if c = CHR 0x5C then [CHR 0x5C, CHR 0x5C]
      else if c = CHR 0x0A then [CHR 0x5C, CHR ''n''] else if c = CHR 0x0D then [CHR 0x5C, CHR ''r'']
      else if c = CHR 0x09 then [CHR 0x5C, CHR ''t''] else if c = CHR 0x0C then [CHR 0x5C, CHR ''f'']
      else if c = CHR 0x08 then [CHR 0x5C, CHR ''b'']
      else if 32 \<le> ord c \<and> ord c \<le> (126::nat) then [c]
      else [CHR 0x5C] @ ''u00'' @ [hex_digit (ord c div 16), hex_digit (ord c mod 16)])"

definition json_string :: "string \<Rightarrow> string" where
  "json_string s = [CHR 0x22] @ concat (map json_escape s) @ [CHR 0x22]"

fun json_dumps :: "json \<Rightarrow> string" where
  "json_dumps JNull = ''null''"
| "json_dumps (JBool b) = (if b then ''true'' else ''false'')"
| "json_dumps (JStr s) = json_string s"
| "json_dumps (JInt n) = py_str n"
| "json_dumps (JArr xs) = ''['' @ join '', '' (map json_dumps xs) @ '']''"
| "json_dumps (JObj kvs) =
     ''{'' @ join '', '' (map (\<lambda>kv. json_string (fst kv) @ '': '' @ json_dumps (snd kv)) kvs) @ ''}''"


section \<open>The medium document\<close>

definition show_times :: json where
  "show_times = JArr
     [JObj [(''military'', JStr ''0800''), (''civilian'', JStr ''8 AM'')],
      JObj [(''military'', JStr ''1500''), (''civilian'', JStr ''3 PM'')],
      JObj [(''military'', JStr ''2200''), (''civilian'', JStr ''10 PM'')]]"

definition week_days :: json where
  "week_days = JArr (map JStr [''Mon'', ''Tue'', ''Wed'', ''Thu'', ''Fri'', ''Sat'', ''Sun''])"

definition make_medium_doc :: "int \<Rightarrow> json" where
  "make_medium_doc idx =
     JObj
       [(''times'', show_times),
        (''responsible_parties'', JObj
           [(''number_of_contacts'', JInt 2),
            (''hosts'', JArr
               [JObj [(''phone'', JStr ''715-876-5500''), (''name'', JStr (''Duncan Mills '' @ py_str idx)),
                      (''email'', JStr (''dmills'' @ py_str idx @ ''@zew.org''))],
                JObj [(''phone'', JStr ''815-336-5500''), (''name'', JStr (''Xiria Andrus '' @ py_str idx)),
                      (''email'', JStr (''xiriaa'' @ py_str idx @ ''@zew.org''))]])]),
        (''cost'', JInt 0),
        (''name'', JStr (''Gorilla Feeding #'' @ py_str idx)),
        (''days'', week_days),
        (''location'', JStr ''Gorilla House South'')]"


section \<open>The deep document\<close>

text \<open>\<open>f"{n:02d}"\<close>.\<close>

definition two_digits :: "int \<Rightarrow> string" where
  "two_digits n = (if 0 \<le> n \<and> n < 10 then ''0'' @ py_str n else py_str n)"

definition injury_types :: "string list" where
  "injury_types = [''bruise'', ''injury'', ''wound'', ''fracture'', ''laceration'']"

definition incident_locations :: "string list" where
  "incident_locations = [''Enclosure B-4'', ''Main Training Field'', ''Feeding Sector Alpha'',
     ''Recovery Zone C'', ''Observation Deck 2'']"

definition treatment_types :: "string list" where
  "treatment_types = [''Cold compression therapy'', ''Diagnostic X-Ray and Rest'',
     ''Antiseptic flush and bandaging'', ''Physical therapy and monitoring'',
     ''Surgical intervention and recovery'']"

definition recovery_statuses :: "string list" where
  "recovery_statuses = [''Monitoring'', ''Improving'', ''Fully Recovered'']"

definition facility :: json where
  "facility = JObj
     [(''role'', JStr ''Marsupial Training Center''),
      (''species_served'', JArr (map JStr [''Kangaroo'', ''Opossum'', ''Wombat'', ''Koala''])),
      (''current_gps_location'', JStr ''117.14803,32.73259''),
      (''contact'', JObj [(''name'', JStr ''Front Desk''), (''phone'', JStr ''832-677-5555'')])]"

definition attending_vet :: "int \<Rightarrow> int \<Rightarrow> json" where
  "attending_vet idx c = JObj
     [(''name'', JStr (''Dr. Vet-'' @ py_str idx @ ''-'' @ py_str c)),
      (''role'', JStr ''veterinarian''),
      (''status'', JStr ''hired''),
      (''species_speciality'', JStr ''Kangaroo''),
      (''days_in_zoo'', JInt 1020),
      (''search_set_rank'', JInt (c + 1)),
      (''current_gps_location'', JStr ''117.14803,32.73259''),
      (''description'', JStr (''An excellent vet with '' @ py_str (12 + c * 2) @ '' years experience'')),
      (''emergency_contact'', JObj
         [(''name'', JStr (''Mrs Vet-'' @ py_str idx @ ''-'' @ py_str c)), (''phone'', JStr ''722-766-2400'')])]"

definition recovery_entry :: "int \<Rightarrow> int \<Rightarrow> int \<Rightarrow> int \<Rightarrow> json" where
  "recovery_entry month day c r = JObj
     [(''date'', JStr (''2026-'' @ two_digits month @ ''-'' @ two_digits (day + 5 + r))),
      (''status'', JStr (recovery_statuses ! nat (min r 2))),
      (''notes'', JStr (''Recovery note '' @ py_str (r + 1) @ '' for case '' @ py_str (c + 1) @ ''.''))]"

definition make_case :: "int \<Rightarrow> int \<Rightarrow> json" where
  "make_case idx c =
     (let month = 3 + c;
          day = 10 + c;
          date_str = ''2026-'' @ two_digits month @ ''-'' @ two_digits day;
          treatment =
            [(''treatment_type'', JStr (treatment_types ! nat (c mod int (length treatment_types)))),
             (''date_administered'', JStr date_str),
             (''facility'', facility)]
            @ (if c mod 2 = 0 then [(''attending_veterinarian'', attending_vet idx c)] else []);
          recovery = map (recovery_entry month day c) [0..c]
      in JObj
           [(''injury_type'', JStr (injury_types ! nat (c mod int (length injury_types)))),
            (''date_occurred'', JStr date_str),
            (''location_of_incident'', JStr (incident_locations ! nat (c mod int (length incident_locations)))),
            (''treatments'', JArr [JObj treatment]),
            (''recovery_progress_history'', JArr recovery)])"

definition make_deep_doc :: "int \<Rightarrow> json" where
  "make_deep_doc idx =
     (let num_cases = 3 + idx mod 5;
          cases = map (make_case idx) [0..num_cases - 1]
      in JObj
           [(''zoo_event'', JObj
               [(''name'', JStr (''Gorilla Feeding #'' @ py_str idx)),
                (''location'', JStr ''Gorilla House South''),
                (''cost'', JInt 0),
                (''days'', week_days),
                (''times'', show_times),
                (''responsible_parties'', JObj
                   [(''number_of_contacts'', JInt 2),
                    (''hosts'', JArr
                       [JObj [(''name'', JStr (''Duncan Mills '' @ py_str idx)), (''phone'', JStr ''715-876-5500''),
                              (''email'', JStr (''dmills'' @ py_str idx @ ''@zew.org''))],
                        JObj [(''name'', JStr (''Xiria Andrus '' @ py_str idx)), (''phone'', JStr ''815-336-5500''),
                              (''email'', JStr (''xiriaa'' @ py_str idx @ ''@zew.org''))]])])]),
            (''medical_records'', JObj
               [(''total_incidents'', JInt num_cases), (''cases'', JArr cases)])])"


section \<open>Facts about the documents\<close>

text \<open>The values stored under the given keys, anywhere in a document.\<close>

fun values_at :: "string list \<Rightarrow> json \<Rightarrow> json list" where
  "values_at ks JNull = []"
| "values_at ks (JBool b) = []"
| "values_at ks (JStr s) = []"
| "values_at ks (JInt n) = []"
| "values_at ks (JArr xs) = concat (map (values_at ks) xs)"
| "values_at ks (JObj kvs) = concat (map (\<lambda>kv.
     (if fst kv \<in> set ks then [snd kv] else []) @ values_at ks (snd kv)) kvs)"

definition date_value :: "int \<Rightarrow> int \<Rightarrow> json" where
  "date_value month day = JStr (''2026-'' @ two_digits month @ ''-'' @ two_digits day)"

lemma values_at_days [simp]: "values_at ks week_days = []"
  by (simp add: week_days_def)

lemma case_dates:
  assumes "0 \<le> c" "c \<le> 6"
  shows "set (values_at [''date'', ''date_occurred'', ''date_administered''] (make_case idx c))
    \<subseteq> {date_value m d | m d. 1 \<le> m \<and> m \<le> 12 \<and> 1 \<le> d \<and> d \<le> 28}"
proof -
  let ?S = "{date_value m d | m d. 1 \<le> m \<and> m \<le> 12 \<and> 1 \<le> d \<and> d \<le> 28}"
  have S: "date_value m d \<in> ?S" if "1 \<le> m" "m \<le> 12" "1 \<le> d" "d \<le> 28" for m d
    using that by blast
  have d: "JStr (''2026-'' @ two_digits m @ ''-'' @ two_digits e) = date_value m e" for m e
    by (simp only: date_value_def)
  let ?ks = "[''date'', ''date_occurred'', ''date_administered'']"
  have vet: "values_at ?ks (attending_vet idx c) = []" by (simp add: attending_vet_def)
  have fac: "values_at ?ks facility = []" by (simp add: facility_def)
  have rec: "values_at ?ks (recovery_entry m e c r) = [date_value m (e + 5 + r)]" for m e r
    by (simp add: recovery_entry_def date_value_def)
  have "set (values_at ?ks (make_case idx c))
      \<subseteq> insert (date_value (3 + c) (10 + c)) ((\<lambda>r. date_value (3 + c) (10 + c + 5 + r)) ` {0..c})"
    by (auto simp: make_case_def Let_def vet fac rec date_value_def)
  also have "\<dots> \<subseteq> ?S"
  proof (rule insert_subsetI[OF S image_subsetI])
    fix r
    assume "r \<in> {0..c}"
    then show "date_value (3 + c) (10 + c + 5 + r) \<in> ?S" using assms by (intro S) simp_all
  qed (use assms in simp_all)
  finally show ?thesis .
qed

text \<open>
  Every deep document counts its incidents correctly, has three to seven of them, and every
  date in it is a calendar date, for every index.
\<close>

theorem deep_doc_wellformed:
  "values_at [''total_incidents''] (make_deep_doc idx) = [JInt (3 + idx mod 5)]
   \<and> (\<exists>cases. values_at [''cases''] (make_deep_doc idx) = [JArr cases]
        \<and> int (length cases) = 3 + idx mod 5 \<and> length cases \<in> {3..7})
   \<and> set (values_at [''date'', ''date_occurred'', ''date_administered''] (make_deep_doc idx))
      \<subseteq> {date_value m d | m d. 1 \<le> m \<and> m \<le> 12 \<and> 1 \<le> d \<and> d \<le> 28}"
proof -
  have no: "values_at [''total_incidents''] (make_case idx c) = []"
    "values_at [''cases''] (make_case idx c) = []" for c
    by (simp_all add: make_case_def Let_def attending_vet_def facility_def recovery_entry_def)
  have r: "0 \<le> idx mod 5" "idx mod 5 < 5" by simp_all
  have "\<Union> ((\<lambda>c. set (values_at [''date'', ''date_occurred'', ''date_administered''] (make_case idx c)))
        ` {0..3 + idx mod 5 - 1})
      \<subseteq> {date_value m d | m d. 1 \<le> m \<and> m \<le> 12 \<and> 1 \<le> d \<and> d \<le> 28}"
    by (rule UN_least, rule case_dates) (use r in auto)
  moreover have "3 \<le> nat (3 + idx mod 5) \<and> nat (3 + idx mod 5) \<le> 7" using r by linarith
  ultimately show ?thesis
    by (simp add: make_deep_doc_def Let_def no show_times_def)
qed

end
