(* ===== verification/Mem_Populate.thy ===== *)
theory Mem_Populate
  imports Mem_Config Mem_Json
begin

text \<open>
  \<open>memoryBenchmarkScript/memory_benchmark.py\<close>, what is written: the commands each \<open>populate_*\<close>
  function queues for a key, the pipeline loop that sends them, and the table \<open>POPULATORS\<close>.
  The Redis client, the server, the clock and the generator behind \<open>random.choices\<close> are a
  parameter, \<open>mem_world\<close>, whose state is threaded through. Printing is left out.
\<close>

section \<open>The world\<close>

datatype command =
    CSet string string "int option"
  | CHset string "(string \<times> string) list"
  | CRpush string "string list"
  | CSadd string "string list"
  | CZadd string "(string \<times> int) list"
  | CXadd string "(string \<times> string) list"
  | CPfadd string "string list"
  | CJsonSet string string string
  | CExpire string int

text \<open>
  \<open>w_queue\<close> is what the client library raises when a command is queued, \<open>w_execute\<close> sends the
  queued commands in order, \<open>w_debug_populate\<close>, \<open>w_info_server\<close>, \<open>w_module_names\<close>, \<open>w_flushall\<close>
  and \<open>w_used_memory\<close> are the single commands, and \<open>w_time\<close> reads the clock.
\<close>

record 'w mem_world =
  w_choices :: "'w \<Rightarrow> string \<Rightarrow> int \<Rightarrow> string \<times> 'w"
  w_queue :: "command \<Rightarrow> unit result"
  w_execute :: "'w \<Rightarrow> command list \<Rightarrow> 'w result"
  w_debug_populate :: "'w \<Rightarrow> int \<Rightarrow> string \<Rightarrow> int \<Rightarrow> 'w result"
  w_info_server :: "'w \<Rightarrow> unit result"
  w_module_names :: "'w \<Rightarrow> string list result"
  w_flushall :: "'w \<Rightarrow> 'w result"
  w_used_memory :: "'w \<Rightarrow> int result"
  w_time :: "'w \<Rightarrow> rat \<times> 'w"

definition ALPHANUMERIC :: string where
  "ALPHANUMERIC = ''abcdefghijklmnopqrstuvwxyzABCDEFGHIJKLMNOPQRSTUVWXYZ0123456789''"

definition random_value :: "'w mem_world \<Rightarrow> 'w \<Rightarrow> int \<Rightarrow> string \<times> 'w" where
  "random_value W w num_chars = w_choices W w ALPHANUMERIC num_chars"

fun random_values :: "'w mem_world \<Rightarrow> int \<Rightarrow> nat \<Rightarrow> 'w \<Rightarrow> string list \<times> 'w" where
  "random_values W num_chars 0 w = ([], w)"
| "random_values W num_chars (Suc k) w =
     (let (v, w1) = random_value W w num_chars; (vs, w2) = random_values W num_chars k w1 in (v # vs, w2))"


section \<open>The pipeline loop\<close>

fun queue_all :: "'w mem_world \<Rightarrow> command list \<Rightarrow> command list \<Rightarrow> command list result" where
  "queue_all W buf [] = Inr buf"
| "queue_all W buf (c # cs) = bindR (w_queue W c) (\<lambda>_. queue_all W (buf @ [c]) cs)"

text \<open>
  The loop the populate functions share: the commands of key \<open>i\<close> are queued and the pipeline is
  sent whenever \<open>(i + 1) % flush_every == 0\<close>, and once after the last key.
\<close>

fun populate_loop ::
  "'w mem_world \<Rightarrow> (int \<Rightarrow> command list) \<Rightarrow> int \<Rightarrow> int list \<Rightarrow> 'w \<Rightarrow> command list \<Rightarrow> 'w result" where
  "populate_loop W key_cmds flush_every [] w buf = w_execute W w buf"
| "populate_loop W key_cmds flush_every (i # rest) w buf =
     bindR (queue_all W buf (key_cmds i)) (\<lambda>buf'.
       if flush_every = 0 then Inl ZeroDivisionError
       else if (i + 1) mod flush_every = 0
       then bindR (w_execute W w buf') (\<lambda>w'. populate_loop W key_cmds flush_every rest w' [])
       else populate_loop W key_cmds flush_every rest w buf')"

definition key_of :: "string \<Rightarrow> int \<Rightarrow> string" where
  "key_of key_prefix i = key_prefix @ '':'' @ py_str i"

text \<open>\<open>if ttl > 0: pipe.expire(key, ttl)\<close>.\<close>

definition with_ttl :: "int \<Rightarrow> string \<Rightarrow> command list \<Rightarrow> command list" where
  "with_ttl ttl key cmds = cmds @ (if 0 < ttl then [CExpire key ttl] else [])"

definition populate_keys ::
  "'w mem_world \<Rightarrow> (string \<Rightarrow> int \<Rightarrow> command list) \<Rightarrow> int \<Rightarrow> int \<Rightarrow> string \<Rightarrow> 'w \<Rightarrow> (int \<times> 'w) result" where
  "populate_keys W key_cmds flush_every n_keys key_prefix w =
     bindR (populate_loop W (\<lambda>i. key_cmds (key_of key_prefix i) i) flush_every [0..n_keys - 1] w [])
       (\<lambda>w'. Inr (n_keys, w'))"


section \<open>Strings\<close>

fun contains_str :: "string \<Rightarrow> string \<Rightarrow> bool" where
  "contains_str sub [] = (sub = [])"
| "contains_str sub (c # s) = (starts_with sub (c # s) \<or> contains_str sub s)"

definition set_key :: "int \<Rightarrow> string \<Rightarrow> string \<Rightarrow> int \<Rightarrow> command list" where
  "set_key ttl val key i = [CSet key val (if 0 < ttl then Some ttl else None)]"

definition pipelined_set ::
  "'w mem_world \<Rightarrow> type_config \<Rightarrow> string \<Rightarrow> int \<Rightarrow> 'w \<Rightarrow> (int \<times> 'w) result" where
  "pipelined_set W cfg key_prefix ttl w =
     (let (val, w1) = random_value W w (cfg_value_size cfg)
      in populate_keys W (set_key ttl val) (cfg_pipeline_batch cfg) (cfg_num_keys cfg) key_prefix w1)"

definition populate_strings ::
  "'w mem_world \<Rightarrow> type_config \<Rightarrow> string \<Rightarrow> int \<Rightarrow> 'w \<Rightarrow> (int \<times> 'w) result" where
  "populate_strings W cfg key_prefix ttl w =
     (if ttl \<le> 0
      then (case w_debug_populate W w (cfg_num_keys cfg) key_prefix (cfg_value_size cfg) of
              Inr w' \<Rightarrow> Inr (cfg_num_keys cfg, w')
            | Inl (ResponseError msg) \<Rightarrow>
                if contains_str ''unknown'' (lower msg) \<or> contains_str ''debug'' (lower msg)
                then pipelined_set W cfg key_prefix ttl w
                else Inl (ResponseError msg)
            | Inl e \<Rightarrow> Inl e)
      else pipelined_set W cfg key_prefix ttl w)"


section \<open>Containers\<close>

definition hash_key :: "int \<Rightarrow> (string \<times> string) list \<Rightarrow> string \<Rightarrow> int \<Rightarrow> command list" where
  "hash_key ttl mapping key i = with_ttl ttl key [CHset key mapping]"

definition populate_hashes ::
  "'w mem_world \<Rightarrow> type_config \<Rightarrow> string \<Rightarrow> int \<Rightarrow> 'w \<Rightarrow> (int \<times> 'w) result" where
  "populate_hashes W cfg key_prefix ttl w =
     (let (vals, w1) = random_values W (cfg_value_size cfg) (nat (cfg_num_fields cfg)) w;
          mapping = zip (map (\<lambda>j. ''f'' @ py_str j) [0..cfg_num_fields cfg - 1]) vals
      in populate_keys W (hash_key ttl mapping) (cfg_pipeline_batch cfg) (cfg_num_keys cfg) key_prefix w1)"

definition list_key :: "int \<Rightarrow> string list \<Rightarrow> string \<Rightarrow> int \<Rightarrow> command list" where
  "list_key ttl elements key i = with_ttl ttl key [CRpush key elements]"

definition populate_lists ::
  "'w mem_world \<Rightarrow> type_config \<Rightarrow> string \<Rightarrow> int \<Rightarrow> 'w \<Rightarrow> (int \<times> 'w) result" where
  "populate_lists W cfg key_prefix ttl w =
     (let (elements, w1) = random_values W (cfg_value_size cfg) (nat (cfg_num_fields cfg)) w
      in populate_keys W (list_key ttl elements) (cfg_pipeline_batch cfg) (cfg_num_keys cfg) key_prefix w1)"

definition set_key_members :: "int \<Rightarrow> string list \<Rightarrow> string \<Rightarrow> int \<Rightarrow> command list" where
  "set_key_members ttl members key i = with_ttl ttl key [CSadd key members]"

definition populate_sets ::
  "'w mem_world \<Rightarrow> type_config \<Rightarrow> string \<Rightarrow> int \<Rightarrow> 'w \<Rightarrow> (int \<times> 'w) result" where
  "populate_sets W cfg key_prefix ttl w =
     (let (members, w1) = random_values W (cfg_value_size cfg) (nat (cfg_num_fields cfg)) w
      in populate_keys W (set_key_members ttl members) (cfg_pipeline_batch cfg) (cfg_num_keys cfg)
           key_prefix w1)"

text \<open>The dict \<open>{random_value(...): float(j)}\<close>: a value drawn twice keeps its first place and last score.\<close>

definition scored_members :: "string list \<Rightarrow> (string \<times> int) list" where
  "scored_members vals = AList.updates vals [0..int (length vals) - 1] []"

definition zset_key :: "int \<Rightarrow> (string \<times> int) list \<Rightarrow> string \<Rightarrow> int \<Rightarrow> command list" where
  "zset_key ttl members key i = with_ttl ttl key [CZadd key members]"

definition populate_sorted_sets ::
  "'w mem_world \<Rightarrow> type_config \<Rightarrow> string \<Rightarrow> int \<Rightarrow> 'w \<Rightarrow> (int \<times> 'w) result" where
  "populate_sorted_sets W cfg key_prefix ttl w =
     (let (vals, w1) = random_values W (cfg_value_size cfg) (nat (cfg_num_fields cfg)) w
      in populate_keys W (zset_key ttl (scored_members vals)) (cfg_pipeline_batch cfg)
           (cfg_num_keys cfg) key_prefix w1)"

definition stream_key :: "int \<Rightarrow> int \<Rightarrow> (string \<times> string) list \<Rightarrow> string \<Rightarrow> int \<Rightarrow> command list" where
  "stream_key ttl entries_per entry_fields key i =
     with_ttl ttl key (replicate (nat entries_per) (CXadd key entry_fields))"

definition populate_streams ::
  "'w mem_world \<Rightarrow> type_config \<Rightarrow> string \<Rightarrow> int \<Rightarrow> 'w \<Rightarrow> (int \<times> 'w) result" where
  "populate_streams W cfg key_prefix ttl w =
     (let entries_per = cfg_num_fields cfg;
          (v1, w1) = random_value W w (cfg_value_size cfg);
          (v2, w2) = random_value W w1 (cfg_value_size cfg)
      in populate_keys W (stream_key ttl entries_per [(''field1'', v1), (''field2'', v2)])
           (cfg_pipeline_batch cfg div max entries_per 1) (cfg_num_keys cfg) key_prefix w2)"

definition hll_key :: "int \<Rightarrow> string list \<Rightarrow> string \<Rightarrow> int \<Rightarrow> command list" where
  "hll_key ttl elements key i = with_ttl ttl key [CPfadd key elements]"

definition hll_fields_per_key :: "type_config \<Rightarrow> int" where
  "hll_fields_per_key cfg = round_half_even (fdiv (of_int (cfg_num_fields cfg)) 10)"

definition populate_hyperloglog ::
  "'w mem_world \<Rightarrow> type_config \<Rightarrow> string \<Rightarrow> int \<Rightarrow> 'w \<Rightarrow> (int \<times> 'w) result" where
  "populate_hyperloglog W cfg key_prefix ttl w =
     (let (elements, w1) = random_values W 16 (nat (hll_fields_per_key cfg)) w
      in populate_keys W (hll_key ttl elements) (cfg_pipeline_batch cfg) (cfg_num_keys cfg) key_prefix w1)"


section \<open>JSON\<close>

definition json_key :: "int \<Rightarrow> string list \<Rightarrow> string \<Rightarrow> int \<Rightarrow> command list" where
  "json_key ttl docs key i =
     with_ttl ttl key [CJsonSet key ''$'' (docs ! nat (i mod int (length docs)))]"

definition flat_doc :: "string list \<Rightarrow> json" where
  "flat_doc vals =
     JObj (zip (map (\<lambda>j. ''field'' @ py_str j) [0..int (length vals) - 1]) (map JStr vals))"

definition json_docs :: "'w mem_world \<Rightarrow> type_config \<Rightarrow> 'w \<Rightarrow> string list \<times> 'w" where
  "json_docs W cfg w =
     (if cfg_json_depth cfg = ''medium'' then ([json_dumps (make_medium_doc 0)], w)
      else if cfg_json_depth cfg = ''deep''
        then (map (\<lambda>idx. json_dumps (make_deep_doc idx)) [0..4], w)
      else (let (vals, w1) = random_values W (cfg_value_size cfg) (nat (cfg_num_fields cfg)) w
            in ([json_dumps (flat_doc vals)], w1)))"

definition populate_json ::
  "'w mem_world \<Rightarrow> type_config \<Rightarrow> string \<Rightarrow> int \<Rightarrow> 'w \<Rightarrow> (int \<times> 'w) result" where
  "populate_json W cfg key_prefix ttl w =
     (let prefix = (if key_prefix = [] then ''json_'' @ cfg_json_depth cfg else key_prefix);
          (docs, w1) = json_docs W cfg w
      in populate_keys W (json_key ttl docs) (cfg_pipeline_batch cfg) (cfg_num_keys cfg) prefix w1)"


section \<open>The table\<close>

text \<open>Each function is called without \<open>key_prefix\<close>, so its default applies.\<close>

definition POPULATORS ::
  "'w mem_world \<Rightarrow> (string \<times> (type_config \<Rightarrow> int \<Rightarrow> 'w \<Rightarrow> (int \<times> 'w) result)) list" where
  "POPULATORS W =
     [(''strings'', \<lambda>cfg. populate_strings W cfg ''str''),
      (''hashes'', \<lambda>cfg. populate_hashes W cfg ''hash''),
      (''lists'', \<lambda>cfg. populate_lists W cfg ''list''),
      (''sets'', \<lambda>cfg. populate_sets W cfg ''set''),
      (''sorted_sets'', \<lambda>cfg. populate_sorted_sets W cfg ''zset''),
      (''streams'', \<lambda>cfg. populate_streams W cfg ''stream''),
      (''hyperloglog'', \<lambda>cfg. populate_hyperloglog W cfg ''hll''),
      (''json'', \<lambda>cfg. populate_json W cfg []),
      (''json_flat'', \<lambda>cfg. populate_json W cfg []),
      (''json_medium'', \<lambda>cfg. populate_json W cfg []),
      (''json_deep'', \<lambda>cfg. populate_json W cfg [])]"

end
