(* ===== verification/Mem_Sequence.thy ===== *)
theory Mem_Sequence
  imports Mem_Config
begin

text \<open>
  \<open>memoryBenchmarkScript/memory_benchmark.py\<close>, \<open>compute_children_sequence\<close>: the children counts of a
  sweep, with the float quotients it rounds, and the proof that the sequence it returns is
  strictly increasing, within bounds, and ends at the maximum.
\<close>

section \<open>compute_children_sequence\<close>

definition children_count :: "int \<Rightarrow> rat \<Rightarrow> int" where
  "children_count max_children d = max 1 (round_half_even (fdiv (of_int max_children) d))"

text \<open>The loop over the denominators; \<open>seen\<close> is the set of the counts collected so far.\<close>

fun add_counts :: "int \<Rightarrow> rat list \<Rightarrow> int list \<Rightarrow> int list result" where
  "add_counts max_children [] sequence = Inr sequence"
| "add_counts max_children (d # ds) sequence =
     (if d = 0 then Inl ZeroDivisionError
      else (let count = children_count max_children d
            in add_counts max_children ds
                 (if count \<in> set sequence then sequence else sequence @ [count])))"

definition base_denominators :: "int \<Rightarrow> int \<Rightarrow> rat list" where
  "base_denominators max_children num_repeats =
     (let n = max (min num_repeats max_children) 1
      in of_int max_children # map of_int (rev [1..n - 1]))"

definition upper_denominators :: "int \<Rightarrow> rat list" where
  "upper_denominators n2 =
     (let step = fdiv 1 (of_int n2)
      in map (\<lambda>i. fadd 1 (fmul (of_int i) step)) [1..n2 - 1]
         @ [fadd (fadd 1 (fmul (of_int (n2 - 1)) step)) (fdiv step 2)])"

definition compute_children_sequence :: "int \<Rightarrow> int \<Rightarrow> int option \<Rightarrow> int list result" where
  "compute_children_sequence max_children num_repeats second_repeat =
     bindR (add_counts max_children (base_denominators max_children num_repeats) []) (\<lambda>sequence.
       case second_repeat of
         None \<Rightarrow> Inr sequence
       | Some n2 \<Rightarrow>
           if 0 < n2
           then bindR (add_counts max_children (upper_denominators n2) sequence) (\<lambda>s. Inr (sort s))
           else Inr sequence)"


section \<open>The loop\<close>

lemma add_counts_outcome:
  assumes "0 \<notin> set ds"
  shows "\<exists>s. add_counts m ds sequence = Inr s
    \<and> set s = set sequence \<union> children_count m ` set ds
    \<and> (distinct sequence \<longrightarrow> distinct s) \<and> length s \<le> length sequence + length ds
    \<and> (sequence \<noteq> [] \<longrightarrow> s \<noteq> [] \<and> hd s = hd sequence)"
  using assms
proof (induction ds arbitrary: sequence)
  case Nil
  show ?case by simp
next
  case (Cons d ds)
  let ?c = "children_count m d"
  let ?seq = "if ?c \<in> set sequence then sequence else sequence @ [?c]"
  obtain s where s: "add_counts m ds ?seq = Inr s"
    "set s = set ?seq \<union> children_count m ` set ds"
    "distinct ?seq \<longrightarrow> distinct s" "length s \<le> length ?seq + length ds"
    "?seq \<noteq> [] \<longrightarrow> s \<noteq> [] \<and> hd s = hd ?seq"
    using Cons.IH[of ?seq] Cons.prems by auto
  have 1: "add_counts m (d # ds) sequence = Inr s"
    using s(1) Cons.prems by (simp add: Let_def)
  have 2: "set ?seq = insert ?c (set sequence)" by auto
  have 3: "length ?seq \<le> Suc (length sequence)" by simp
  have 4: "distinct sequence \<longrightarrow> distinct ?seq" by simp
  have 5: "sequence \<noteq> [] \<longrightarrow> ?seq \<noteq> [] \<and> hd ?seq = hd sequence" by simp
  show ?case
    using 1 s(2,3,4,5) 2 3 4 5 by (intro exI[of _ s]) (auto simp del: add_counts.simps)
qed

lemma add_counts_sorted:
  assumes "0 \<notin> set ds" "sorted (map (children_count m) ds)" "sorted_wrt (<) sequence"
    and "\<And>x d. x \<in> set sequence \<Longrightarrow> d \<in> set ds \<Longrightarrow> x \<le> children_count m d"
    and "add_counts m ds sequence = Inr s"
  shows "sorted_wrt (<) s"
  using assms
proof (induction ds arbitrary: sequence)
  case Nil
  then show ?case by simp
next
  case (Cons d ds)
  let ?c = "children_count m d"
  let ?seq = "if ?c \<in> set sequence then sequence else sequence @ [?c]"
  have le: "x \<le> ?c" if "x \<in> set sequence" for x using Cons.prems(4)[OF that, of d] by simp
  have "x < ?c" if "x \<in> set sequence" "?c \<notin> set sequence" for x
    using le[OF that(1)] that by (cases "x = ?c") auto
  then have srt: "sorted_wrt (<) ?seq" using Cons.prems(3) by (simp add: sorted_wrt_append)
  have "x \<le> children_count m d'" if "x \<in> set ?seq" "d' \<in> set ds" for x d'
    using that Cons.prems(2) Cons.prems(4)[of x d'] by (auto split: if_splits)
  moreover have "add_counts m ds ?seq = Inr s" using Cons.prems(1,5) by (simp add: Let_def)
  ultimately show ?case
    using Cons.IH[OF _ _ srt] Cons.prems(1,2) by simp
qed

lemma children_count_antimono:
  assumes "0 \<le> m" "0 < d" "d \<le> d'"
  shows "children_count m d' \<le> children_count m d"
proof -
  have "(of_int m :: rat) / d' \<le> of_int m / d"
    using assms by (intro divide_left_mono) simp_all
  then have "fdiv (of_int m) d' \<le> fdiv (of_int m) d"
    using assms by (intro round64_mono) simp_all
  from round_half_even_mono[OF this] show ?thesis by (simp add: children_count_def)
qed

lemma children_count_bounds:
  assumes "1 \<le> m" "m < 2 ^ 53" "1 \<le> d"
  shows "1 \<le> children_count m d" "children_count m d \<le> m"
proof -
  show "1 \<le> children_count m d" by (simp add: children_count_def)
  have "(of_int m :: rat) / d \<le> of_int m / 1"
    using assms by (intro divide_left_mono) simp_all
  then have "fdiv (of_int m) d \<le> of_int m"
    using assms by (intro round64_le_int) simp_all
  from round_half_even_mono[OF this] show "children_count m d \<le> m"
    using assms(1) by (simp add: children_count_def)
qed

lemma children_count_ends:
  assumes "1 \<le> m" "m < 2 ^ 53"
  shows "children_count m (of_int m) = 1" "children_count m 1 = m"
proof -
  have "round64 1 = 1" using round64_of_int[of 1] by simp
  then show "children_count m (of_int m) = 1"
    using assms(1) round_half_even_of_int[of 1] by (simp add: children_count_def)
  show "children_count m 1 = m"
    using assms by (simp add: children_count_def round64_of_int)
qed


section \<open>The denominators\<close>

lemma base_denominators_ge1:
  "1 \<le> m \<Longrightarrow> d \<in> set (base_denominators m r) \<Longrightarrow> 1 \<le> d"
  by (auto simp: base_denominators_def Let_def)

lemma base_denominators_sorted:
  assumes "1 \<le> m"
  shows "sorted (map (children_count m) (base_denominators m r))"
proof -
  let ?n = "max (min r m) 1"
  have "sorted_wrt (\<ge>) (map of_int (rev [1..?n - 1]) :: rat list)"
    by (simp add: rev_map sorted_wrt_rev sorted_wrt_map)
  then have "sorted_wrt (\<ge>) (base_denominators m r)"
    using assms by (auto simp: base_denominators_def Let_def simp del: sorted_wrt_map)
  then have "sorted_wrt (\<lambda>d d'. children_count m d \<le> children_count m d') (base_denominators m r)"
  proof (rule sorted_wrt_mono_rel[rotated])
    fix d d'
    assume "d \<in> set (base_denominators m r)" "d' \<in> set (base_denominators m r)" "d \<ge> d'"
    then show "children_count m d \<le> children_count m d'"
      using base_denominators_ge1[OF assms, of d' r] assms by (intro children_count_antimono) simp_all
  qed
  then show ?thesis by (simp add: sorted_wrt_map)
qed

lemma fadd_ge1: "1 \<le> x \<Longrightarrow> 0 \<le> y \<Longrightarrow> 1 \<le> fadd x y"
  using round64_mono[of 1 "x + y"] round64_of_int[of 1] by simp

lemma upper_denominators_ge1:
  assumes "0 < n2" "d \<in> set (upper_denominators n2)"
  shows "1 \<le> d"
proof -
  let ?step = "fdiv 1 (of_int n2)"
  have st: "0 \<le> ?step" using assms(1) by (intro round64_nonneg) simp
  have i: "1 \<le> fadd 1 (fmul (of_int i) ?step)" if "0 \<le> i" for i
  proof -
    have "0 \<le> (of_int i :: rat)" using that by simp
    from mult_nonneg_nonneg[OF this st] show ?thesis by (intro fadd_ge1 round64_nonneg) simp_all
  qed
  have "0 \<le> fdiv ?step 2" using st by (intro round64_nonneg) simp
  moreover have "1 \<le> fadd 1 (fmul (of_int (n2 - 1)) ?step)" using assms(1) by (intro i) simp
  ultimately have "1 \<le> fadd (fadd 1 (fmul (of_int (n2 - 1)) ?step)) (fdiv ?step 2)"
    by (rule fadd_ge1[rotated])
  with i assms(2) show ?thesis by (auto simp: upper_denominators_def Let_def)
qed


section \<open>The sequence\<close>

lemma strict_last_greatest: "sorted_wrt (<) s \<Longrightarrow> x \<in> set s \<Longrightarrow> x \<le> (last s :: 'a::linorder)"
proof (induction s)
  case (Cons a s)
  show ?case
  proof (cases "s = []")
    case False
    then have "a < last s" using Cons.prems(1) last_in_set[OF False] by simp
    with Cons False show ?thesis by (auto simp: less_imp_le)
  qed (use Cons.prems in simp)
qed simp

lemma base_sequence:
  assumes "1 \<le> m" "m < 2 ^ 53"
  obtains s where "add_counts m (base_denominators m r) [] = Inr s" "sorted_wrt (<) s" "s \<noteq> []" "hd s = 1"
    "set s \<subseteq> {1..m}" "2 \<le> r \<Longrightarrow> 2 \<le> m \<Longrightarrow> m \<in> set s" "int (length s) \<le> max (min r m) 1"
proof -
  let ?ds = "base_denominators m r" and ?n = "max (min r m) 1"
  have ge1: "1 \<le> d" if "d \<in> set ?ds" for d using base_denominators_ge1[OF assms(1) that] .
  then have nz: "0 \<notin> set ?ds" by force
  obtain s where s: "add_counts m ?ds [] = Inr s" "set s = children_count m ` set ?ds" "length s \<le> length ?ds"
    using add_counts_outcome[OF nz, of m "[]"] by auto
  have srt: "sorted_wrt (<) s"
    by (rule add_counts_sorted[OF nz base_denominators_sorted[OF assms(1)] _ _ s(1)]) simp_all
  have k: "int (length (of_int m # map of_int (rev [1..k - 1]) :: rat list)) = k" if "1 \<le> k" for k
    using that by simp
  have len: "int (length ?ds) = ?n" unfolding base_denominators_def Let_def by (rule k) simp
  have one: "1 \<in> set s"
    unfolding s(2) using children_count_ends(1)[OF assms]
    by (auto simp: base_denominators_def Let_def image_iff intro: bexI[of _ "of_int m"])
  then have ne: "s \<noteq> []" by auto
  have rng: "set s \<subseteq> {1..m}"
    unfolding s(2) using children_count_bounds[OF assms] ge1 by auto
  have "hd s = 1"
  proof -
    have "hd s \<le> 1" using srt one ne by (cases s) auto
    moreover have "hd s \<in> set s" using ne by simp
    ultimately show ?thesis using rng by force
  qed
  moreover have "m \<in> set s" if "2 \<le> r" "2 \<le> m"
  proof -
    have "1 \<in> set ?ds" using that by (auto simp: base_denominators_def Let_def)
    then show ?thesis unfolding s(2) using children_count_ends(2)[OF assms] by (metis imageI)
  qed
  ultimately show ?thesis using that[of s] s(1,3) srt ne rng len by linarith
qed

lemma sequence_wellformed:
  assumes "1 \<le> max_children" "max_children < 2 ^ 53"
  shows "\<exists>s. compute_children_sequence max_children num_repeats second_repeat = Inr s
    \<and> sorted_wrt (<) s \<and> s \<noteq> [] \<and> hd s = 1 \<and> set s \<subseteq> {1..max_children}
    \<and> (2 \<le> num_repeats \<and> 2 \<le> max_children \<longrightarrow> last s = max_children)
    \<and> int (length s) \<le> max (min num_repeats max_children) 1
        + (case second_repeat of None \<Rightarrow> 0 | Some n2 \<Rightarrow> max n2 0)"
proof -
  let ?m = max_children and ?r = num_repeats
  obtain b where b: "add_counts ?m (base_denominators ?m ?r) [] = Inr b" "sorted_wrt (<) b" "b \<noteq> []"
    "hd b = 1" "set b \<subseteq> {1..?m}" "2 \<le> ?r \<Longrightarrow> 2 \<le> ?m \<Longrightarrow> ?m \<in> set b" "int (length b) \<le> max (min ?r ?m) 1"
    using base_sequence[OF assms] by blast
  have lastmax: "last s = ?m" if "sorted_wrt (<) s" "set s \<subseteq> {1..?m}" "?m \<in> set s" for s :: "int list"
  proof -
    have ne: "s \<noteq> []" using that(3) by auto
    have "?m \<le> last s" using that(1,3) by (rule strict_last_greatest)
    moreover have "last s \<in> {1..?m}" using that(2) last_in_set[OF ne] by blast
    ultimately show ?thesis by simp
  qed
  consider (base) "second_repeat = None \<or> (\<exists>n2. second_repeat = Some n2 \<and> n2 \<le> 0)"
    | (upper) n2 where "second_repeat = Some n2" "0 < n2"
    by (metis not_le option.exhaust)
  then show ?thesis
  proof cases
    case base
    then have "compute_children_sequence ?m ?r second_repeat = Inr b"
      using b(1) by (auto simp: compute_children_sequence_def)
    moreover have "(case second_repeat of None \<Rightarrow> 0 | Some n2 \<Rightarrow> max n2 0) = 0" using base by auto
    ultimately show ?thesis using b lastmax[OF b(2,5)] by auto
  next
    case (upper n2)
    let ?ds = "upper_denominators n2"
    have ge1: "1 \<le> d" if "d \<in> set ?ds" for d by (rule upper_denominators_ge1[OF upper(2) that])
    then have nz: "0 \<notin> set ?ds" by force
    obtain s where s: "add_counts ?m ?ds b = Inr s" "set s = set b \<union> children_count ?m ` set ?ds"
      "distinct b \<longrightarrow> distinct s" "length s \<le> length b + length ?ds"
      using add_counts_outcome[OF nz, of ?m b] by blast
    have "distinct b" using b(2) strict_sorted_iff by blast
    with s(3) have srt: "sorted_wrt (<) (sort s)" by (simp add: strict_sorted_iff)
    have rng: "set (sort s) \<subseteq> {1..?m}"
      using b(5) children_count_bounds[OF assms] ge1 by (auto simp: s(2))
    have one: "1 \<in> set (sort s)" using hd_in_set[OF b(3)] b(4) by (simp add: s(2))
    have ne: "sort s \<noteq> []" using one by (metis list.set(1) empty_iff)
    have hd1: "hd (sort s) = 1"
    proof -
      have "hd (sort s) \<le> 1" using srt one by (cases "sort s") auto
      moreover have "hd (sort s) \<in> {1..?m}" using rng hd_in_set[OF ne] by blast
      ultimately show ?thesis by simp
    qed
    have len: "int (length (sort s)) \<le> max (min ?r ?m) 1 + n2"
    proof -
      have "int (length ?ds) = n2" using upper(2) by (simp add: upper_denominators_def Let_def)
      then show ?thesis using s(4) b(7) by simp
    qed
    have lst: "last (sort s) = ?m" if "2 \<le> ?r" "2 \<le> ?m"
      using b(6)[OF that] by (intro lastmax[OF srt rng]) (simp add: s(2))
    have "compute_children_sequence ?m ?r second_repeat = Inr (sort s)"
      using b(1) s(1) upper by (simp add: compute_children_sequence_def)
    with srt ne hd1 rng lst len upper show ?thesis by (intro exI[of _ "sort s"]) simp
  qed
qed

text \<open>
  C16: For every positive maximum a sweep has a sequence of children counts that starts at one child,
  is strictly increasing, never leaves the range up to the maximum, ends exactly at the maximum
  when at least two steps are asked for, and has no more steps than were asked for.
\<close>

theorem children_sequence_wellformed:
  assumes "1 \<le> max_children" "max_children < 2 ^ 53"
  shows "\<exists>s. compute_children_sequence max_children num_repeats second_repeat = Inr s
    \<and> sorted_wrt (<) s \<and> s \<noteq> [] \<and> hd s = 1 \<and> set s \<subseteq> {1..max_children}
    \<and> (2 \<le> num_repeats \<and> 2 \<le> max_children \<longrightarrow> last s = max_children)
    \<and> int (length s) \<le> max (min num_repeats max_children) 1
        + (case second_repeat of None \<Rightarrow> 0 | Some n2 \<Rightarrow> max n2 0)"
  using assms by (rule sequence_wellformed)

theorem children_sequence_wellformed_witness:
  "\<exists>s. compute_children_sequence 200 4 None = Inr s \<and> last s = 200"
  using children_sequence_wellformed[of 200 4 None] by auto

section \<open>The float quotient\<close>

lemma round64_half:
  assumes "\<bar>j\<bar> < 2 ^ 52"
  shows "round64 (of_int j / 2) = of_int j / 2"
proof (cases "j = 0")
  case False
  let ?x = "of_int j / 2 :: rat"
  let ?e = "expo ?x"
  have x: "?x \<noteq> 0" using False by simp
  have "two_pow ?e \<le> \<bar>?x\<bar>" by (rule expo_bounds(1)[OF x])
  also have "\<dots> < two_pow 51"
  proof -
    have "(of_int \<bar>j\<bar> :: rat) < of_int (2 ^ 52)" using assms by (simp only: of_int_less_iff)
    then show ?thesis by (simp add: two_pow_def)
  qed
  finally have "?e \<le> 50" using two_pow_mono[of 51 ?e] by linarith
  then have u: "two_pow (?e - 52) = 1 / 2 ^ nat (52 - ?e)" by (auto simp: two_pow_def)
  have "nat (52 - ?e) = Suc (nat (51 - ?e))" using \<open>?e \<le> 50\<close> by linarith
  then have "?x / two_pow (?e - 52) = (of_int (j * 2 ^ nat (51 - ?e)) :: rat)" unfolding u by simp
  then have "round_half_even (?x / two_pow (?e - 52)) = j * 2 ^ nat (51 - ?e)"
    by (simp only: round_half_even_of_int)
  then have "round64 ?x = of_int (j * 2 ^ nat (51 - ?e)) * two_pow (?e - 52)"
    using x by (simp add: round64_def Let_def)
  also have "\<dots> = ?x" unfolding u \<open>nat (52 - ?e) = Suc (nat (51 - ?e))\<close> by simp
  finally show ?thesis .
qed simp

lemma round_quotient_exact:
  assumes "0 \<le> m" "m < 2 ^ 51" "1 \<le> d"
  shows "round_half_even (fdiv (of_int m) (of_int d)) = round_half_even (of_int m / of_int d)"
proof -
  let ?x = "of_int m / of_int d :: rat" and ?n = "round_half_even (of_int m / of_int d :: rat)"
  have dp: "(0::rat) < of_int d" using assms(3) by simp
  have xd: "?x * of_int d = of_int m" using dp by simp
  show ?thesis
  proof (cases "\<exists>j. 2 * m = j * d")
    case True
    then obtain j where j: "2 * m = j * d" by blast
    have j0: "0 \<le> j" using j assms(1,3) by (metis mult_nonneg_nonneg not_le zero_le_mult_iff
        zero_le_numeral mult_less_0_iff less_le_trans zero_less_one)
    have "j * 1 \<le> j * d" using j0 assms(3) by (intro mult_left_mono) simp_all
    then have "\<bar>j\<bar> < 2 ^ 52" using j j0 assms(2) by simp
    moreover have "?x = of_int j / 2"
    proof -
      have "(2 * of_int m :: rat) = of_int j * of_int d" using j by (metis of_int_mult of_int_numeral)
      then show ?thesis using dp by (simp add: field_simps)
    qed
    ultimately show ?thesis by (simp only: round64_half)
  next
    case False
    have ne: "2 * m \<noteq> k * d" for k using False by blast
    have lo: "(2 * ?n - 1) * d < 2 * m" and hi: "2 * m < (2 * ?n + 1) * d"
    proof -
      have e: "\<bar>of_int ?n - ?x\<bar> \<le> 1/2" by (rule round_half_even_error)
      then have a: "of_int ?n - 1/2 \<le> ?x" "?x \<le> of_int ?n + 1/2" unfolding abs_le_iff by linarith+
      have "(of_int ?n - 1/2) * of_int d \<le> ?x * of_int d" "?x * of_int d \<le> (of_int ?n + 1/2) * of_int d"
        using a dp by (simp_all only: mult_right_mono less_imp_le)
      then have "of_int ((2 * ?n - 1) * d) \<le> (of_int (2 * m) :: rat)"
        "(of_int (2 * m) :: rat) \<le> of_int ((2 * ?n + 1) * d)"
        unfolding xd by (simp_all add: algebra_simps)
      then have "(2 * ?n - 1) * d \<le> 2 * m" "2 * m \<le> (2 * ?n + 1) * d" by (simp_all only: of_int_le_iff)
      with ne[of "2 * ?n - 1"] ne[of "2 * ?n + 1"]
      show "(2 * ?n - 1) * d < 2 * m" "2 * m < (2 * ?n + 1) * d" by linarith+
    qed
    let ?y = "fdiv (of_int m) (of_int d)"
    have "\<bar>?y - ?x\<bar> \<le> \<bar>?x\<bar> / 2 ^ 53" by (rule round64_error)
    moreover have "0 \<le> ?x" using assms(1) dp by simp
    ultimately have "\<bar>?y - ?x\<bar> \<le> ?x / 2 ^ 53" by (simp only: abs_of_nonneg)
    then have "\<bar>?y - ?x\<bar> * of_int d \<le> ?x / 2 ^ 53 * of_int d"
      by (rule mult_right_mono[OF _ less_imp_le[OF dp]])
    then have err: "\<bar>?y - ?x\<bar> * of_int d \<le> of_int m / 2 ^ 53"
      by (simp only: times_divide_eq_left nonzero_mult_div_cancel_right[OF less_imp_neq[OF dp, symmetric]])
    have "(of_int m :: rat) < of_int (2 ^ 51)" using assms(2) by (simp only: of_int_less_iff)
    then have "(of_int m :: rat) / 2 ^ 53 < 1/2" by simp
    with err have "\<bar>?y - ?x\<bar> * of_int d < 1/2" by (rule le_less_trans)
    then have "\<bar>(?y - ?x) * of_int d\<bar> < 1/2" using dp by (simp add: abs_mult)
    then have y: "\<bar>?y * of_int d - of_int m\<bar> < 1/2" by (simp only: left_diff_distrib xd)
    have "of_int ((2 * ?n - 1) * d + 1) \<le> (of_int (2 * m) :: rat)"
      "of_int (2 * m + 1) \<le> (of_int ((2 * ?n + 1) * d) :: rat)"
      using lo hi by (simp_all only: of_int_le_iff zless_imp_add1_zle)
    then have "(2 * of_int ?n - 1) * of_int d + 1 \<le> (2 * of_int m :: rat)"
      "2 * of_int m + 1 \<le> ((2 * of_int ?n + 1) * of_int d :: rat)" by simp_all
    with y have "(2 * of_int ?n - 1) * of_int d < 2 * (?y * of_int d)"
      "2 * (?y * of_int d) < (2 * of_int ?n + 1) * of_int d" by (simp_all only: abs_less_iff) linarith+
    then have "(2 * of_int ?n - 1) * of_int d < (2 * ?y) * of_int d"
      "(2 * ?y) * of_int d < (2 * of_int ?n + 1) * of_int d" by (simp_all only: mult.assoc)
    then have "2 * of_int ?n - 1 < 2 * ?y" "2 * ?y < 2 * of_int ?n + 1"
      using dp by (simp_all only: mult_less_cancel_right_pos)
    then have "\<bar>?y - of_int ?n\<bar> < 1/2" unfolding abs_less_iff by linarith
    then show ?thesis by (rule round_half_even_eqI)
  qed
qed

text \<open>
  The counts of the base sequence are the exact roundings: for integer denominators the float
  division never changes what \<open>round\<close> returns, ties included.
\<close>

theorem children_count_exact:
  assumes "0 \<le> max_children" "max_children < 2 ^ 51" "1 \<le> d"
  shows "children_count max_children (of_int d)
    = max 1 (round_half_even (of_int max_children / of_int d))"
  by (simp only: children_count_def round_quotient_exact[OF assms])

theorem children_count_exact_witness: "children_count 5 (of_int 2) = 2"
proof -
  have "round_half_even (of_int 5 / of_int 2) = 2" by code_simp
  then show ?thesis using children_count_exact[of 5 2] by simp
qed

text \<open>
  The documented examples, as the code computes them. Half of five rounds to the even two, so
  the documented count 3 is missing from the second sequence, and the third does not contain the
  documented 100; a sweep of one step stops at a single child.
\<close>

theorem children_sequence_examples:
  "compute_children_sequence 200 4 None = Inr [1, 67, 100, 200]
   \<and> compute_children_sequence 200 2 None = Inr [1, 200]
   \<and> compute_children_sequence 5 4 None = Inr [1, 2, 5]
   \<and> compute_children_sequence 1000 10 None = Inr [1, 111, 125, 143, 167, 200, 250, 333, 500, 1000]
   \<and> compute_children_sequence 100 2 (Some 2) = Inr [1, 57, 67, 100]
   \<and> compute_children_sequence 200 1 None = Inr [1]
   \<and> compute_children_sequence 0 4 None = Inl ZeroDivisionError"
  by (intro conjI; code_simp)

end
