(* ===== verification/Mem_Bench.thy ===== *)
theory Mem_Bench
  imports Mem_Populate Mem_Sequence
begin

text \<open>
  \<open>memoryBenchmarkScript/memory_benchmark.py\<close>, the engine: \<open>TypeResult\<close>, \<open>benchmark_instance\<close>
  and the loop of the children sweep. Each server is a \<open>mem_world\<close> over the same state, bound to
  its host, port and credentials; the sleeps are left out.
\<close>

section \<open>TypeResult\<close>

record type_result =
  tr_type_name :: string
  tr_num_keys :: int
  tr_total_elements :: int
  tr_memory_bytes :: int
  tr_time_seconds :: rat
  tr_bytes_per_key :: rat
  tr_bytes_per_element :: rat
  tr_skipped :: bool
  tr_skip_reason :: string

text \<open>The constructor followed by \<open>__post_init__\<close>.\<close>

definition type_result_init ::
  "string \<Rightarrow> int \<Rightarrow> int \<Rightarrow> int \<Rightarrow> rat \<Rightarrow> bool \<Rightarrow> string \<Rightarrow> type_result" where
  "type_result_init type_name n_keys n_elements memory_bytes time_seconds skipped skip_reason =
     (let measured = \<not> skipped \<and> 0 < n_keys
      in \<lparr>tr_type_name = type_name, tr_num_keys = n_keys, tr_total_elements = n_elements,
          tr_memory_bytes = memory_bytes, tr_time_seconds = time_seconds,
          tr_bytes_per_key = (if measured then fdiv (of_int memory_bytes) (of_int n_keys) else 0),
          tr_bytes_per_element = (if measured \<and> 0 < n_elements
             then fdiv (of_int memory_bytes) (of_int n_elements) else 0),
          tr_skipped = skipped, tr_skip_reason = skip_reason\<rparr>)"

abbreviation skipped_result :: "string \<Rightarrow> string \<Rightarrow> type_result" where
  "skipped_result t reason \<equiv> type_result_init t 0 0 0 0 True reason"

type_synonym results = "(string \<times> type_result) list"


section \<open>The connection\<close>

datatype ssl_value = SslTrue | SslNone | SslText string

definition ssl_kwargs ::
  "bool \<Rightarrow> string option \<Rightarrow> string option \<Rightarrow> string option \<Rightarrow> (string \<times> ssl_value) list" where
  "ssl_kwargs tls tls_ca_cert tls_cert tls_key =
     (let given = (\<lambda>x. case x of None \<Rightarrow> False | Some s \<Rightarrow> s \<noteq> [])
      in if \<not> tls then []
         else [(''ssl'', SslTrue)]
           @ (if given tls_ca_cert
              then [(''ssl_ca_certs'', SslText (the tls_ca_cert)), (''ssl_cert_reqs'', SslText ''required'')]
              else [(''ssl_cert_reqs'', SslNone)])
           @ (if given tls_cert then [(''ssl_certfile'', SslText (the tls_cert))] else [])
           @ (if given tls_key then [(''ssl_keyfile'', SslText (the tls_key))] else []))"

definition check_module :: "'w mem_world \<Rightarrow> 'w \<Rightarrow> string \<Rightarrow> bool" where
  "check_module W w module_name =
     (case w_module_names W w of
        Inl e \<Rightarrow> False
      | Inr ns \<Rightarrow> list_ex (\<lambda>m. lower m = lower module_name) ns)"


section \<open>benchmark_instance\<close>

record 'w bench_state =
  bs_world :: 'w
  bs_prev_mem :: int
  bs_results :: results

definition put_result :: "type_result \<Rightarrow> 'w bench_state \<Rightarrow> 'w bench_state" where
  "put_result r s = s\<lparr>bs_results := AList.update (tr_type_name r) r (bs_results s)\<rparr>"

text \<open>One turn of the loop over the types.\<close>

definition bench_type ::
  "'w mem_world \<Rightarrow> configs \<Rightarrow> int \<Rightarrow> bool \<Rightarrow> string \<Rightarrow> 'w bench_state \<Rightarrow> 'w bench_state result" where
  "bench_type W configs ttl has_json type_name s =
     (case map_of configs type_name of
        None \<Rightarrow> Inr (put_result (skipped_result type_name ''disabled'') s)
      | Some cfg \<Rightarrow>
          if \<not> cfg_enabled cfg then Inr (put_result (skipped_result type_name ''disabled'') s)
          else if type_name = ''json'' \<and> \<not> has_json
            then Inr (put_result (skipped_result type_name ''no module'') s)
          else
            (let baseline = bs_prev_mem s;
                 (t0, w0) = w_time W (bs_world s)
             in bindR (lookupR (POPULATORS W) type_name) (\<lambda>populate.
                bindR (populate cfg ttl w0) (\<lambda>(n_keys, w1).
                let (t1, w2) = w_time W w1
                in bindR (w_used_memory W w2) (\<lambda>final_mem.
                   let delta = final_mem - baseline;
                       n_elements = (if type_name \<noteq> ''strings'' then n_keys * cfg_num_fields cfg else n_keys)
                   in Inr (put_result
                        (type_result_init type_name n_keys n_elements delta (fsub t1 t0) False [])
                        (s\<lparr>bs_world := w2, bs_prev_mem := final_mem\<rparr>)))))))"

definition benchmark_instance ::
  "'w mem_world \<Rightarrow> configs \<Rightarrow> string list \<Rightarrow> int \<Rightarrow> 'w \<Rightarrow> (results \<times> 'w) result" where
  "benchmark_instance W configs type_order ttl w =
     (case w_info_server W w of
        Inl e \<Rightarrow> Inr (AList.updates type_order
                   (map (\<lambda>t. skipped_result t ''connection failed'') type_order) [], w)
      | Inr _ \<Rightarrow>
          (let has_json = check_module W w ''ReJSON'' \<or> check_module W w ''rejson''
           in bindR (w_flushall W w) (\<lambda>w1.
              bindR (w_used_memory W w1) (\<lambda>prev_mem.
              bindR (foldR (bench_type W configs ttl has_json) type_order
                       \<lparr>bs_world = w1, bs_prev_mem = prev_mem, bs_results = []\<rparr>) (\<lambda>s.
              Inr (bs_results s, bs_world s))))))"


section \<open>The sweep\<close>

text \<open>\<open>iter_configs[tname].num_fields = children\<close> for the container types that are there.\<close>

definition children_configs :: "int \<Rightarrow> configs \<Rightarrow> configs" where
  "children_configs children base_configs =
     map (\<lambda>(n, cfg). (n, if n \<in> set CONTAINER_TYPES then set_num_fields children cfg else cfg)) base_configs"

record 'w sweep_state =
  ss_world :: 'w
  ss_results :: "(string \<times> (int \<times> results) list) list"
  ss_totals :: "(string \<times> int \<times> int) list"

definition active_total :: "string list \<Rightarrow> results \<Rightarrow> int result" where
  "active_total type_order results =
     bindR (mapR (lookupR results) type_order) (\<lambda>rs.
       Inr (sum_list (map tr_memory_bytes (filter (\<lambda>r. \<not> tr_skipped r \<and> 0 < tr_memory_bytes r) rs))))"

definition sweep_server ::
  "configs \<Rightarrow> string list \<Rightarrow> int \<Rightarrow> int \<Rightarrow> string \<times> 'w mem_world \<Rightarrow> 'w sweep_state \<Rightarrow> 'w sweep_state result" where
  "sweep_server iter_configs type_order ttl children server s =
     (case server of (label, W) \<Rightarrow>
        bindR (benchmark_instance W iter_configs type_order ttl (ss_world s)) (\<lambda>(results, w).
        bindR (lookupR (ss_results s) label) (\<lambda>by_children.
        bindR (active_total type_order results) (\<lambda>total_mem.
        Inr \<lparr>ss_world = w,
             ss_results = AList.update label (AList.update children results by_children) (ss_results s),
             ss_totals = ss_totals s @ [(label, children, total_mem)]\<rparr>))))"

definition sweep_step ::
  "configs \<Rightarrow> string list \<Rightarrow> int \<Rightarrow> (string \<times> 'w mem_world) list \<Rightarrow> int \<Rightarrow> 'w sweep_state
     \<Rightarrow> 'w sweep_state result" where
  "sweep_step base_configs type_order ttl servers children s =
     foldR (sweep_server (children_configs children base_configs) type_order ttl children) servers s"

definition sweep_servers ::
  "mem_args \<Rightarrow> 'w mem_world \<Rightarrow> 'w mem_world \<Rightarrow> (string \<times> 'w mem_world) list" where
  "sweep_servers args dragonfly redis =
     (if ma_redis_only args then [] else [(''Dragonfly'', dragonfly)])
     @ (if ma_dragonfly_only args then [] else [(ma_redis_label args, redis)])"

text \<open>\<open>{srv[0]: {} for srv in servers}\<close>.\<close>

definition empty_sweep :: "(string \<times> 'w mem_world) list \<Rightarrow> (string \<times> (int \<times> results) list) list" where
  "empty_sweep servers = foldl (\<lambda>m srv. AList.update (fst srv) [] m) [] servers"

record sweep_outcome =
  so_sequence :: "int list"
  so_types :: "string list"
  so_label_a :: string
  so_label_b :: "string option"
  so_results :: "(string \<times> (int \<times> results) list) list"
  so_totals :: "(string \<times> int \<times> int) list"

text \<open>\<open>None\<close> is the exit with "No types enabled".\<close>

definition run_children_sweep ::
  "mem_args \<Rightarrow> 'w mem_world \<Rightarrow> 'w mem_world \<Rightarrow> int \<Rightarrow> int list \<Rightarrow> 'w \<Rightarrow> (sweep_outcome option \<times> 'w) result" where
  "run_children_sweep args dragonfly redis max_children repeats w =
     (if repeats = [] then Inl IndexError
      else bindR (compute_children_sequence max_children (repeats ! 0)
                    (if 1 < length repeats then Some (repeats ! 1) else None)) (\<lambda>sequence.
        bindR (build_configs (args\<lparr>ma_container_children_count := None\<rparr>)) (\<lambda>base_configs.
        bindR (enabled_types base_configs) (\<lambda>type_order.
        if type_order = [] then Inr (None, w)
        else (let servers = sweep_servers args dragonfly redis
              in bindR (foldR (sweep_step base_configs type_order (ma_ttl args) servers) sequence
                   \<lparr>ss_world = w, ss_results = empty_sweep servers, ss_totals = []\<rparr>) (\<lambda>s.
                 if servers = [] then Inl IndexError
                 else Inr (Some
                   \<lparr>so_sequence = sequence, so_types = type_order, so_label_a = fst (servers ! 0),
                    so_label_b = (if length servers = 2 then Some (fst (servers ! 1)) else None),
                    so_results = ss_results s, so_totals = ss_totals s\<rparr>, ss_world s)))))))"

end
