(* ===== verification/Mem_Report.thy ===== *)
theory Mem_Report
  imports Mem_Bench
begin

text \<open>
  \<open>memoryBenchmarkScript/memory_benchmark.py\<close>, the reports: number formatting, the progress bar, the
  rows of the comparison, the single report and the sweep report, and the main flow up to the
  rows it prints. A cell of a table is a text or the dash that stands for a missing value; how
  a table is drawn (\<open>tabulate\<close> or the aligned fallback) is left out.
\<close>

section \<open>Numbers as text\<close>

definition pad_zeros :: "nat \<Rightarrow> string \<Rightarrow> string" where
  "pad_zeros k s = replicate (k - length s) (CHR ''0'') @ s"

text \<open>\<open>f"{x:.kf}"\<close>: the exact value rounded to \<open>k\<close> decimals.\<close>

definition fixed_abs :: "nat \<Rightarrow> rat \<Rightarrow> string" where
  "fixed_abs k x =
     (let n = round_half_even (x * 10 ^ k)
      in if k = 0 then py_str n else py_str (n div 10 ^ k) @ ''.'' @ pad_zeros k (py_str (n mod 10 ^ k)))"

definition fixed_point :: "nat \<Rightarrow> rat \<Rightarrow> string" where
  "fixed_point k x = (if x < 0 then ''-'' @ fixed_abs k (- x) else fixed_abs k x)"

text \<open>\<open>f"{x:+.kf}"\<close>.\<close>

definition signed_point :: "nat \<Rightarrow> rat \<Rightarrow> string" where
  "signed_point k x = (if x < 0 then ''-'' @ fixed_abs k (- x) else ''+'' @ fixed_abs k x)"

text \<open>\<open>f"{n:,}"\<close>: a comma between groups of three digits.\<close>

fun group_digits :: "string \<Rightarrow> string" where
  "group_digits (a # b # c # d # s) = a # b # c # CHR '','' # group_digits (d # s)"
| "group_digits s = s"

definition thousands :: "int \<Rightarrow> string" where
  "thousands n = (if n < 0 then ''-'' else []) @ rev (group_digits (rev (py_str \<bar>n\<bar>)))"

fun mem_human_loop :: "rat \<Rightarrow> string list \<Rightarrow> string" where
  "mem_human_loop v [] = fixed_point 2 v @ '' PB''"
| "mem_human_loop v (u # us) =
     (if \<bar>v\<bar> < 1024 then fixed_point 2 v @ '' '' @ u else mem_human_loop (fdiv v 1024) us)"

definition mem_human_bytes :: "int \<Rightarrow> string" where
  "mem_human_bytes n =
     (if n = 0 then ''0 B'' else mem_human_loop (of_int n) [''B'', ''KB'', ''MB'', ''GB'', ''TB''])"

text \<open>The numbers of the bar: filled and empty cells and the percentage.\<close>

definition progress_bar :: "int \<Rightarrow> int \<Rightarrow> int \<Rightarrow> int \<times> int \<times> string" where
  "progress_bar current n_total width =
     (let pct = (if n_total \<noteq> 0 then fdiv (of_int current) (of_int n_total) else 1);
          x = fmul (of_int width) pct;
          filled = (if 0 \<le> x then \<lfloor>x\<rfloor> else \<lceil>x\<rceil>)
      in (filled, width - filled, fixed_point 0 (fmul pct 100)))"


section \<open>The comparison\<close>

datatype cell = Dash | Txt string

definition savings_pct :: "int \<Rightarrow> int \<Rightarrow> rat" where
  "savings_pct a b = fmul (fsub 1 (fdiv (of_int a) (of_int b))) 100"

definition memory_ratio :: "int \<Rightarrow> int \<Rightarrow> rat" where
  "memory_ratio a b = fdiv (of_int a) (of_int b)"

text \<open>The row of a type both servers have measured.\<close>

definition compared_row :: "string \<Rightarrow> type_result \<Rightarrow> type_result \<Rightarrow> cell list" where
  "compared_row t ra rb =
     (let a_neg = tr_memory_bytes ra < 0;
          b_neg = tr_memory_bytes rb < 0;
          (savings_str, ratio_str) =
            (if a_neg \<or> b_neg then (''data store memory event occurred'', ''N/A'')
             else if 0 < tr_memory_bytes ra \<and> 0 < tr_memory_bytes rb
             then (signed_point 1 (savings_pct (tr_memory_bytes ra) (tr_memory_bytes rb)) @ ''%'',
                   fixed_point 2 (memory_ratio (tr_memory_bytes ra) (tr_memory_bytes rb)) @ ''x'')
             else (''N/A'', ''N/A''))
      in [Txt t, Txt (thousands (tr_num_keys ra)),
          Txt (if a_neg then ''< 0 (artifact)'' else mem_human_bytes (tr_memory_bytes ra)),
          if a_neg then Dash else Txt (fixed_point 1 (tr_bytes_per_key ra)),
          Txt (if b_neg then ''< 0 (artifact)'' else mem_human_bytes (tr_memory_bytes rb)),
          if b_neg then Dash else Txt (fixed_point 1 (tr_bytes_per_key rb)),
          Txt savings_str, Txt ratio_str])"

definition skipped_row :: "string \<Rightarrow> type_result option \<Rightarrow> type_result option \<Rightarrow> cell list" where
  "skipped_row t ra rb =
     (let why = (case ra of
            Some r \<Rightarrow> if tr_skipped r then tr_skip_reason r
              else (case rb of Some r' \<Rightarrow> if tr_skipped r' then tr_skip_reason r' else [] | None \<Rightarrow> [])
          | None \<Rightarrow> (case rb of Some r' \<Rightarrow> if tr_skipped r' then tr_skip_reason r' else [] | None \<Rightarrow> []))
      in [Txt t, Dash, Dash, Dash, Dash, Dash, Txt (''skipped ('' @ why @ '')''), Dash])"

text \<open>The loop over the types with its rows and totals.\<close>

fun compare_types ::
  "results \<Rightarrow> results \<Rightarrow> string list \<Rightarrow> cell list list \<Rightarrow> int \<Rightarrow> int \<Rightarrow> cell list list \<times> int \<times> int" where
  "compare_types results_a results_b [] rows total_a total_b = (rows, total_a, total_b)"
| "compare_types results_a results_b (t # ts) rows total_a total_b =
     (case (map_of results_a t, map_of results_b t) of
        (Some ra, Some rb) \<Rightarrow>
          if tr_skipped ra \<or> tr_skipped rb
          then compare_types results_a results_b ts (rows @ [skipped_row t (Some ra) (Some rb)]) total_a total_b
          else compare_types results_a results_b ts (rows @ [compared_row t ra rb])
                 (total_a + tr_memory_bytes ra) (total_b + tr_memory_bytes rb)
      | (ra, rb) \<Rightarrow> compare_types results_a results_b ts (rows @ [skipped_row t ra rb]) total_a total_b)"

definition print_comparison :: "results \<Rightarrow> results \<Rightarrow> string list \<Rightarrow> cell list list" where
  "print_comparison results_a results_b type_order =
     (let (rows, total_a, total_b) = compare_types results_a results_b type_order [] 0 0
      in if 0 < total_a \<and> 0 < total_b
         then rows @ [[Txt ''TOTAL'', Dash, Txt (mem_human_bytes total_a), Dash,
                       Txt (mem_human_bytes total_b), Dash,
                       Txt (signed_point 1 (savings_pct total_a total_b) @ ''%''),
                       Txt (fixed_point 2 (memory_ratio total_a total_b) @ ''x'')]]
         else rows)"


section \<open>The report of one server\<close>

definition single_row :: "string \<Rightarrow> type_result \<Rightarrow> cell list" where
  "single_row t r =
     [Txt t, Txt (thousands (tr_num_keys r)), Txt (thousands (tr_total_elements r)),
      Txt (mem_human_bytes (tr_memory_bytes r)), Txt (fixed_point 1 (tr_bytes_per_key r)),
      if tr_num_keys r < tr_total_elements r then Txt (fixed_point 1 (tr_bytes_per_element r)) else Dash,
      Txt (fixed_point 1 (tr_time_seconds r) @ ''s'')]"

fun single_rows :: "results \<Rightarrow> string list \<Rightarrow> cell list list \<Rightarrow> int \<Rightarrow> cell list list \<times> int" where
  "single_rows results [] rows total_mem = (rows, total_mem)"
| "single_rows results (t # ts) rows total_mem =
     (case map_of results t of
        None \<Rightarrow> single_rows results ts rows total_mem
      | Some r \<Rightarrow>
          if tr_skipped r then single_rows results ts rows total_mem
          else single_rows results ts (rows @ [single_row t r]) (total_mem + tr_memory_bytes r))"

definition print_single_report :: "results \<Rightarrow> string list \<Rightarrow> cell list list" where
  "print_single_report results type_order =
     (let (rows, total_mem) = single_rows results type_order [] 0
      in rows @ [[Txt ''TOTAL'', Dash, Dash, Txt (mem_human_bytes total_mem), Dash, Dash, Dash]])"


section \<open>The sweep report\<close>

type_synonym server_data = "(int \<times> results) list"

definition sweep_result :: "server_data \<Rightarrow> string \<Rightarrow> int \<Rightarrow> type_result option" where
  "sweep_result data type_name children =
     (case map_of data children of None \<Rightarrow> None | Some results \<Rightarrow> map_of results type_name)"

definition measured :: "type_result option \<Rightarrow> bool" where
  "measured r = (case r of None \<Rightarrow> False | Some r \<Rightarrow> \<not> tr_skipped r \<and> 0 < tr_memory_bytes r)"

definition missing_row :: "int \<Rightarrow> cell list" where
  "missing_row children = [Txt (thousands children), Dash, Dash, Dash, Dash]"

text \<open>The loop over the children counts: previous and smallest memory so far, and the rows.\<close>

fun progression_rows ::
  "server_data \<Rightarrow> string \<Rightarrow> int list \<Rightarrow> int option \<Rightarrow> int option \<Rightarrow> cell list list \<Rightarrow> cell list list" where
  "progression_rows data type_name [] prev_mem min_mem rows = rows"
| "progression_rows data type_name (children # rest) prev_mem min_mem rows =
     (if \<not> measured (sweep_result data type_name children)
      then progression_rows data type_name rest None min_mem (rows @ [missing_row children])
      else (let r = the (sweep_result data type_name children);
                mem = tr_memory_bytes r;
                min_mem' = (case min_mem of None \<Rightarrow> mem | Some m \<Rightarrow> m);
                vs_prev = (case prev_mem of
                     Some p \<Rightarrow> if 0 < p then Txt (fixed_point 2 (memory_ratio mem p) @ ''x'') else Dash
                   | None \<Rightarrow> Dash);
                vs_min = (if 0 < min_mem' \<and> mem \<noteq> min_mem'
                          then Txt (fixed_point 2 (memory_ratio mem min_mem') @ ''x'')
                          else if mem = min_mem' then Txt ''1.00x'' else Dash)
            in progression_rows data type_name rest (Some mem) (Some min_mem')
                 (rows @ [[Txt (thousands children), Txt (mem_human_bytes mem),
                           Txt (fixed_point 1 (tr_bytes_per_key r)), vs_prev, vs_min]])))"

text \<open>The key count of the table's heading: that of the first result that was not skipped.\<close>

fun heading_keys :: "server_data \<Rightarrow> string \<Rightarrow> int list \<Rightarrow> int" where
  "heading_keys data type_name [] = 0"
| "heading_keys data type_name (c # cs) =
     (case sweep_result data type_name c of
        Some r \<Rightarrow> if tr_skipped r then heading_keys data type_name cs else tr_num_keys r
      | None \<Rightarrow> heading_keys data type_name cs)"

definition trend_row :: "server_data \<Rightarrow> server_data \<Rightarrow> string \<Rightarrow> int \<Rightarrow> cell list" where
  "trend_row data_a data_b type_name children =
     (let a = sweep_result data_a type_name children; b = sweep_result data_b type_name children
      in if \<not> measured a \<or> \<not> measured b then missing_row children
         else [Txt (thousands children), Txt (fixed_point 1 (tr_bytes_per_key (the a))),
               Txt (fixed_point 1 (tr_bytes_per_key (the b))),
               Txt (signed_point 1 (savings_pct (tr_memory_bytes (the a)) (tr_memory_bytes (the b))) @ ''%''),
               Txt (fixed_point 2 (memory_ratio (tr_memory_bytes (the a)) (tr_memory_bytes (the b))) @ ''x'')])"

text \<open>Per container type: the heading and rows of every server, and the trend of two.\<close>

type_synonym type_report = "string \<times> (string \<times> int \<times> cell list list) list \<times> cell list list option"

definition data_of :: "(string \<times> server_data) list \<Rightarrow> string \<Rightarrow> server_data" where
  "data_of sweep_results label = (case map_of sweep_results label of None \<Rightarrow> [] | Some d \<Rightarrow> d)"

definition print_sweep_report ::
  "(string \<times> server_data) list \<Rightarrow> int list \<Rightarrow> string list \<Rightarrow> string \<Rightarrow> string option \<Rightarrow> type_report list" where
  "print_sweep_report sweep_results sequence type_order label_a label_b =
     (let sweep_types = filter (\<lambda>t. t \<in> set CONTAINER_TYPES) type_order;
          all_labels = (case label_b of None \<Rightarrow> [label_a] | Some b \<Rightarrow> [label_a, b])
      in map (\<lambda>type_name.
           (type_name,
            map (\<lambda>label. (label, heading_keys (data_of sweep_results label) type_name sequence,
                   progression_rows (data_of sweep_results label) type_name sequence None None []))
              all_labels,
            (case label_b of
               None \<Rightarrow> None
             | Some b \<Rightarrow> Some (map (trend_row (data_of sweep_results label_a) (data_of sweep_results b)
                                  type_name) sequence)))) sweep_types)"


section \<open>The main flow\<close>

datatype report =
    ExitError string
  | SweepReport "type_report list"
  | Comparison "cell list list"
  | SingleReport string "cell list list"
  | NoReport

definition mem_main ::
  "mem_args \<Rightarrow> 'w mem_world \<Rightarrow> 'w mem_world \<Rightarrow> 'w \<Rightarrow> (report \<times> 'w) result" where
  "mem_main args dragonfly redis w =
     (case ma_repeat args of
        Some repeats \<Rightarrow>
          (case ma_container_children_count args of
             None \<Rightarrow> Inr (ExitError ''--repeat requires --container-children-count to be set.'', w)
           | Some max_children \<Rightarrow>
               bindR (run_children_sweep args dragonfly redis max_children repeats w) (\<lambda>(out, w').
               Inr (case out of
                      None \<Rightarrow> ExitError ''No types enabled for sweep.''
                    | Some o' \<Rightarrow> SweepReport (print_sweep_report (so_results o') (so_sequence o')
                        (so_types o') (so_label_a o') (so_label_b o')), w')))
      | None \<Rightarrow>
          bindR (build_configs args) (\<lambda>configs.
          bindR (enabled_types configs) (\<lambda>type_order.
          if type_order = [] then Inr (ExitError ''No types enabled. Use --types or --enable-json.'', w)
          else
            bindR (if ma_redis_only args then Inr (None, w)
                   else bindR (benchmark_instance dragonfly configs type_order (ma_ttl args) w)
                     (\<lambda>(r, w'). Inr (Some r, w'))) (\<lambda>(dragonfly_results, w1).
            bindR (if ma_dragonfly_only args then Inr (None, w1)
                   else bindR (benchmark_instance redis configs type_order (ma_ttl args) w1)
                     (\<lambda>(r, w'). Inr (Some r, w'))) (\<lambda>(redis_results, w2).
            Inr (case (dragonfly_results, redis_results) of
                   (Some a, Some b) \<Rightarrow> Comparison (print_comparison a b type_order)
                 | (Some a, None) \<Rightarrow> SingleReport ''Dragonfly'' (print_single_report a type_order)
                 | (None, Some b) \<Rightarrow> SingleReport (ma_redis_label args) (print_single_report b type_order)
                 | (None, None) \<Rightarrow> NoReport, w2))))))"

end
