(* ===== verification/Mem_Config_Spec.thy ===== *)
theory Mem_Config_Spec
  imports Mem_Config
begin

text \<open>
  What \<open>build_configs\<close> computes, type by type: a table that gives every attribute of every
  type as a function of the arguments, the proof that the sequence of passes yields that table,
  and its consequences for the key counts, the enabled types and the sweep.
\<close>

section \<open>Passes, by name\<close>

text \<open>A pass succeeds, keeps the names and their order, and acts on each type by itself.\<close>

definition acts :: "(string \<Rightarrow> type_config \<Rightarrow> type_config) \<Rightarrow> configs \<Rightarrow> configs result \<Rightarrow> bool" where
  "acts f configs r \<longleftrightarrow> (\<exists>configs'. r = Inr configs' \<and> map fst configs' = map fst configs
     \<and> (\<forall>n. map_of configs' n = map_option (f n) (map_of configs n)))"

abbreviation only :: "string \<Rightarrow> ('a \<Rightarrow> 'a) \<Rightarrow> string \<Rightarrow> 'a \<Rightarrow> 'a" where
  "only name g n \<equiv> (if n = name then g else id)"

lemma acts_Inr: "acts (\<lambda>_. id) configs (Inr configs)"
  by (auto simp: acts_def option.map_id)

lemma acts_bind:
  assumes "acts f configs r"
    and "\<And>configs'. map fst configs' = map fst configs \<Longrightarrow>
      (\<And>n. map_of configs' n = map_option (f n) (map_of configs n)) \<Longrightarrow> acts g configs' (h configs')"
  shows "acts (\<lambda>n. g n \<circ> f n) configs (bindR r h)"
proof -
  obtain c1 where c1: "r = Inr c1" "map fst c1 = map fst configs"
    "\<And>n. map_of c1 n = map_option (f n) (map_of configs n)"
    using assms(1) by (auto simp: acts_def)
  obtain c2 where c2: "h c1 = Inr c2" "map fst c2 = map fst c1"
    "\<And>n. map_of c2 n = map_option (g n) (map_of c1 n)"
    using assms(2)[OF c1(2,3)] by (auto simp: acts_def)
  from c1 c2 show ?thesis by (auto simp: acts_def option.map_comp)
qed

lemma acts_modifyR:
  assumes "name \<in> fst ` set configs"
  shows "acts (only name g) configs (modifyR name g configs)"
proof -
  obtain c where c: "map_of configs name = Some c"
    using assms by (metis domD dom_map_of_conv_image_fst)
  have "map fst (AList.update name (g c) configs) = map fst configs"
    using assms by (simp add: AList.update_keys)
  moreover have "map_of (AList.update name (g c) configs) n
      = map_option (only name g n) (map_of configs n)" for n
    using c by (simp add: AList.update_conv' option.map_id)
  ultimately show ?thesis by (auto simp: acts_def modifyR_def lookupR_def c)
qed

lemma acts_override:
  assumes "name \<in> fst ` set configs"
  shows "acts (only name (case x of None \<Rightarrow> id | Some v \<Rightarrow> set_attr v)) configs
    (override name set_attr x configs)"
proof (cases x)
  case None
  then show ?thesis using acts_Inr[of configs] by (simp add: override_def cong: if_cong)
next
  case (Some v)
  then show ?thesis using acts_modifyR[OF assms] by (simp add: override_def cong: if_cong)
qed

lemma acts_map:
  "acts f configs (Inr (map (\<lambda>(n, c). (n, f n c)) configs))"
proof -
  have "map fst (map (\<lambda>(n, c). (n, f n c)) configs) = map fst configs" by auto
  moreover have "map_of (map (\<lambda>(n, c). (n, f n c)) configs) n = map_option (f n) (map_of configs n)" for n
    by (induction configs) auto
  ultimately show ?thesis by (auto simp: acts_def)
qed

lemma acts_cong: "acts f configs r \<Longrightarrow> f = g \<Longrightarrow> acts g configs r"
  by simp

lemma acts_foldR:
  assumes "\<And>x c. x \<in> set xs \<Longrightarrow> map fst c = map fst configs \<Longrightarrow> acts (f x) c (step x c)"
  shows "acts (\<lambda>n. fold (\<lambda>x. f x n) xs) configs (foldR step xs configs)"
  using assms
proof (induction xs arbitrary: configs)
  case Nil
  show ?case using acts_Inr[of configs] by (simp add: id_def)
next
  case (Cons x xs)
  have "acts (\<lambda>n. fold (\<lambda>x. f x n) xs \<circ> f x n) configs (bindR (step x configs) (foldR step xs))"
  proof (rule acts_bind)
    show "acts (f x) configs (step x configs)" by (rule Cons.prems) simp_all
  next
    fix c :: configs
    assume c: "map fst c = map fst configs"
    show "acts (\<lambda>n. fold (\<lambda>x. f x n) xs) c (foldR step xs c)"
      by (rule Cons.IH) (use Cons.prems c in auto)
  qed
  then show ?case by (simp add: comp_def)
qed


section \<open>The table\<close>

definition default_of :: "string \<Rightarrow> type_config" where
  "default_of n = the (map_of DEFAULT_CONFIGS n)"

definition key_override :: "mem_args \<Rightarrow> string \<Rightarrow> int option" where
  "key_override args n = (case map_of (key_overrides args) n of None \<Rightarrow> None | Some x \<Rightarrow> x)"

definition json_on :: "mem_args \<Rightarrow> bool" where
  "json_on args \<longleftrightarrow> ma_enable_json args \<or> ma_json_keys args \<noteq> None"

definition json_split :: "mem_args \<Rightarrow> bool" where
  "json_split args \<longleftrightarrow> json_on args \<and> ma_json_depth args = ''all''"

definition own_keys :: "mem_args \<Rightarrow> (string \<Rightarrow> int) \<Rightarrow> string \<Rightarrow> int" where
  "own_keys args base n = (case key_override args n of None \<Rightarrow> base n | Some k \<Rightarrow> k)"

definition table_keys :: "mem_args \<Rightarrow> (string \<Rightarrow> int) \<Rightarrow> string \<Rightarrow> int" where
  "table_keys args base n =
     (if n = ''hyperloglog'' \<and> ma_hll_keys args = None then own_keys args base ''strings''
      else if json_split args \<and> n \<in> {''json_flat'', ''json_medium'', ''json_deep''}
        then own_keys args base ''json''
      else own_keys args base n)"

definition table_enabled :: "mem_args \<Rightarrow> string \<Rightarrow> bool" where
  "table_enabled args n =
     (case ma_types args of
        Some (t # ts) \<Rightarrow> n \<in> set (t # ts)
      | _ \<Rightarrow> if json_split args \<and> n = ''json'' then False
             else cfg_enabled (default_of n) \<or> (n = ''json'' \<and> json_on args)
               \<or> (json_split args \<and> n \<in> {''json_flat'', ''json_medium'', ''json_deep''}))"

definition field_override :: "mem_args \<Rightarrow> string \<Rightarrow> int option" where
  "field_override args n =
     (if n = ''hashes'' then ma_hash_fields args else if n = ''lists'' then ma_list_elements args
      else if n = ''sets'' then ma_set_members args
      else if n = ''sorted_sets'' then ma_zset_members args else None)"

definition table_fields :: "mem_args \<Rightarrow> string \<Rightarrow> int" where
  "table_fields args n =
     (case field_override args n of
        Some k \<Rightarrow> k
      | None \<Rightarrow> (case ma_container_children_count args of
            Some k \<Rightarrow> if n \<in> set CONTAINER_TYPES then k else cfg_num_fields (default_of n)
          | None \<Rightarrow> cfg_num_fields (default_of n)))"

definition config_table :: "mem_args \<Rightarrow> (string \<Rightarrow> int) \<Rightarrow> string \<Rightarrow> type_config" where
  "config_table args base n =
     \<lparr>cfg_enabled = table_enabled args n,
      cfg_num_keys = table_keys args base n,
      cfg_value_size = (case ma_value_size args of None \<Rightarrow> cfg_value_size (default_of n) | Some k \<Rightarrow> k),
      cfg_num_fields = table_fields args n,
      cfg_pipeline_batch = (case ma_pipeline_batch args of None \<Rightarrow> 5000 | Some k \<Rightarrow> k),
      cfg_json_depth = (if n = ''json'' \<and> json_on args \<and> \<not> json_split args then ma_json_depth args
        else cfg_json_depth (default_of n))\<rparr>"


section \<open>The passes\<close>

abbreviation names :: "string list" where
  "names \<equiv> map fst DEFAULT_CONFIGS"

lemma names_simps:
  "names = [''strings'', ''hashes'', ''lists'', ''sets'', ''sorted_sets'', ''streams'',
     ''hyperloglog'', ''json'', ''json_flat'', ''json_medium'', ''json_deep'']"
  by (simp add: DEFAULT_CONFIGS_def)

lemma name_in: "map fst configs = names \<Longrightarrow> n \<in> set names \<Longrightarrow> n \<in> fst ` set configs"
  by (metis set_map)

abbreviation opt :: "('a \<Rightarrow> 'b \<Rightarrow> 'b) \<Rightarrow> 'a option \<Rightarrow> 'b \<Rightarrow> 'b" where
  "opt f x \<equiv> (case x of None \<Rightarrow> id | Some v \<Rightarrow> f v)"

lemma acts_children:
  assumes "map fst configs = names"
  shows "acts (\<lambda>n. fold (\<lambda>m. only m (opt set_num_fields (ma_container_children_count args)) n) CONTAINER_TYPES)
    configs (apply_children args configs)"
  unfolding apply_children_def
proof (rule acts_foldR)
  fix x and c :: configs
  assume "x \<in> set CONTAINER_TYPES" "map fst c = map fst configs"
  then have "x \<in> fst ` set c"
    by (intro name_in) (auto simp: assms CONTAINER_TYPES_def names_simps)
  then show "acts (only x (opt set_num_fields (ma_container_children_count args))) c
      (override x set_num_fields (ma_container_children_count args) c)"
    by (rule acts_override)
qed

lemma acts_enable_json:
  assumes "map fst configs = names"
  shows "acts (only ''json'' (if ma_enable_json args then set_enabled True else id)) configs
    (apply_enable_json args configs)"
proof (cases "ma_enable_json args")
  case True
  have "''json'' \<in> fst ` set configs" by (rule name_in[OF assms]) (simp add: names_simps)
  from acts_modifyR[OF this] True show ?thesis by (simp add: apply_enable_json_def)
next
  case False
  then show ?thesis using acts_Inr[of configs] by (simp add: apply_enable_json_def cong: if_cong)
qed

lemma acts_key_overrides:
  assumes "map fst configs = names"
  shows "acts (\<lambda>n. fold (\<lambda>(m, x). only m (opt (\<lambda>k cfg. set_enabled True (set_num_keys k cfg)) x) n)
      (key_overrides args)) configs (apply_key_overrides args configs)"
proof -
  have "acts (\<lambda>n. fold (\<lambda>p. (\<lambda>(m, x). only m (opt (\<lambda>k cfg. set_enabled True (set_num_keys k cfg)) x)) p n)
      (key_overrides args)) configs (apply_key_overrides args configs)"
    unfolding apply_key_overrides_def
  proof (rule acts_foldR)
    fix p and c :: configs
    assume p: "p \<in> set (key_overrides args)" and c: "map fst c = map fst configs"
    obtain m x where mx: "p = (m, x)" by (cases p)
    with p c have "m \<in> fst ` set c"
      by (intro name_in) (auto simp: assms key_overrides_def names_simps)
    then show "acts ((\<lambda>(m, x). only m (opt (\<lambda>k cfg. set_enabled True (set_num_keys k cfg)) x)) p) c
        ((\<lambda>(name, x). override name (\<lambda>k cfg. set_enabled True (set_num_keys k cfg)) x) p c)"
      unfolding mx prod.case by (rule acts_override)
  qed
  then show ?thesis by (simp add: case_prod_unfold)
qed

lemma acts_hll:
  assumes "map fst configs = names" "map_of configs ''strings'' = Some strings"
  shows "acts (only ''hyperloglog'' (if ma_hll_keys args = None then set_num_keys (cfg_num_keys strings) else id))
    configs (hll_tracks_strings args configs)"
proof (cases "ma_hll_keys args = None")
  case True
  have "''hyperloglog'' \<in> fst ` set configs" by (rule name_in[OF assms(1)]) (simp add: names_simps)
  from acts_modifyR[OF this] True assms(2) show ?thesis
    by (simp add: hll_tracks_strings_def lookupR_def)
next
  case False
  then have "hll_tracks_strings args configs = Inr configs" unfolding hll_tracks_strings_def by (rule if_not_P)
  with False acts_Inr[of configs] show ?thesis by (simp only: if_False if_cancel)
qed

definition json_pass :: "mem_args \<Rightarrow> type_config \<Rightarrow> string \<Rightarrow> type_config \<Rightarrow> type_config" where
  "json_pass args json n =
     (if cfg_enabled json then
        (if ma_json_depth args = ''all'' then
           fold (\<lambda>m. only m (\<lambda>cfg. set_num_keys (cfg_num_keys json) (set_enabled True cfg)) n)
             [''json_flat'', ''json_medium'', ''json_deep''] \<circ> only ''json'' (set_enabled False) n
         else only ''json'' (\<lambda>cfg. cfg\<lparr>cfg_json_depth := ma_json_depth args\<rparr>) n)
      else id)"

lemma acts_json_depth:
  assumes "map fst configs = names" "map_of configs ''json'' = Some json"
  shows "acts (json_pass args json) configs (apply_json_depth args configs)"
proof -
  have j: "''json'' \<in> fst ` set configs" by (rule name_in[OF assms(1)]) (simp add: names_simps)
  let ?g = "\<lambda>cfg. set_num_keys (cfg_num_keys json) (set_enabled True cfg)"
  have split: "acts (\<lambda>n. fold (\<lambda>m. only m ?g n) [''json_flat'', ''json_medium'', ''json_deep'']
        \<circ> only ''json'' (set_enabled False) n) configs
      (bindR (modifyR ''json'' (set_enabled False) configs)
         (foldR (\<lambda>dt. modifyR dt ?g) [''json_flat'', ''json_medium'', ''json_deep'']))"
  proof (rule acts_bind[OF acts_modifyR[OF j]], rule acts_foldR)
    fix c1 c :: configs and x
    assume "map fst c1 = map fst configs" "map fst c = map fst c1"
      "x \<in> set [''json_flat'', ''json_medium'', ''json_deep'']"
    then have "x \<in> fst ` set c" by (intro name_in) (auto simp: assms(1) names_simps)
    then show "acts (only x ?g) c (modifyR x ?g c)" by (rule acts_modifyR)
  qed
  consider "cfg_enabled json" "ma_json_depth args = ''all''"
    | "cfg_enabled json" "ma_json_depth args \<noteq> ''all''" | "\<not> cfg_enabled json" by blast
  then show ?thesis
  proof cases
    case 1
    with split show ?thesis by (simp add: apply_json_depth_def json_pass_def[abs_def] lookupR_def assms(2))
  next
    case 2
    with acts_modifyR[OF j] show ?thesis
      by (simp add: apply_json_depth_def json_pass_def[abs_def] lookupR_def assms(2))
  next
    case 3
    with acts_Inr[of configs] show ?thesis
      by (simp add: apply_json_depth_def json_pass_def[abs_def] lookupR_def assms(2))
  qed
qed

lemma acts_value_size:
  "acts (\<lambda>_. opt (\<lambda>k cfg. cfg\<lparr>cfg_value_size := k\<rparr>) (ma_value_size args)) configs
    (Inr (apply_value_size args configs))"
  using acts_map[of "\<lambda>_. opt (\<lambda>k cfg. cfg\<lparr>cfg_value_size := k\<rparr>) (ma_value_size args)" configs]
    acts_Inr[of configs]
  by (simp add: apply_value_size_def map_values_def split: option.splits)

lemma acts_field_overrides:
  assumes "map fst configs = names"
  shows "acts (\<lambda>n. fold (\<lambda>(m, x). only m (opt set_num_fields x) n)
      [(''hashes'', ma_hash_fields args), (''lists'', ma_list_elements args),
       (''sets'', ma_set_members args), (''sorted_sets'', ma_zset_members args)])
    configs (apply_field_overrides args configs)"
proof -
  let ?ps = "[(''hashes'', ma_hash_fields args), (''lists'', ma_list_elements args),
       (''sets'', ma_set_members args), (''sorted_sets'', ma_zset_members args)]"
  have "acts (\<lambda>n. fold (\<lambda>p. (\<lambda>(m, x). only m (opt set_num_fields x)) p n) ?ps)
    configs (apply_field_overrides args configs)"
    unfolding apply_field_overrides_def
  proof (rule acts_foldR)
    fix p and c :: configs
    assume p: "p \<in> set ?ps" and c: "map fst c = map fst configs"
    obtain m x where mx: "p = (m, x)" by (cases p)
    with p c have "m \<in> fst ` set c" by (intro name_in) (auto simp: assms names_simps)
    then show "acts ((\<lambda>(m, x). only m (opt set_num_fields x)) p) c
        ((\<lambda>(name, x). override name set_num_fields x) p c)"
      unfolding mx prod.case by (rule acts_override)
  qed
  then show ?thesis by (simp add: case_prod_unfold)
qed

lemma acts_batch:
  "acts (\<lambda>_. opt (\<lambda>k cfg. cfg\<lparr>cfg_pipeline_batch := k\<rparr>) (ma_pipeline_batch args)) configs
    (Inr (apply_batch args configs))"
  using acts_map[of "\<lambda>_. opt (\<lambda>k cfg. cfg\<lparr>cfg_pipeline_batch := k\<rparr>) (ma_pipeline_batch args)" configs]
    acts_Inr[of configs]
  by (simp add: apply_batch_def map_values_def split: option.splits)

definition type_filter :: "mem_args \<Rightarrow> string \<Rightarrow> type_config \<Rightarrow> type_config" where
  "type_filter args n = (case ma_types args of Some (t # ts) \<Rightarrow> set_enabled (n \<in> set (t # ts)) | _ \<Rightarrow> id)"

lemma acts_filter: "acts (type_filter args) configs (Inr (filter_types args configs))"
  using acts_map[of "type_filter args" configs] acts_Inr[of configs]
  by (cases "ma_types args"; cases "the (ma_types args)")
    (auto simp: filter_types_def type_filter_def[abs_def] cong: if_cong)

definition scaled_count :: "mem_args \<Rightarrow> type_config \<Rightarrow> int result" where
  "scaled_count args cfg =
     (if ma_scale args = Fin 1 then Inr (cfg_num_keys cfg) else scaled_keys (ma_scale args) (cfg_num_keys cfg))"

lemma scale_all_Inr:
  assumes "\<And>n cfg. (n, cfg) \<in> set configs \<Longrightarrow> scaled_keys scale (cfg_num_keys cfg) = Inr (f cfg)"
  shows "scale_all scale configs = Inr (map (\<lambda>(n, cfg). (n, set_num_keys (f cfg) cfg)) configs)"
  using assms
proof (induction scale configs rule: scale_all.induct)
  case (2 scale name cfg rest)
  have "scaled_keys scale (cfg_num_keys cfg) = Inr (f cfg)" by (rule "2.prems"[of name]) simp
  moreover have "scale_all scale rest = Inr (map (\<lambda>(n, cfg). (n, set_num_keys (f cfg) cfg)) rest)"
    by (rule "2.IH") (metis "2.prems" list.set_intros(2))
  ultimately show ?case by simp
qed simp

lemma scale_all_Inl:
  assumes "(n, cfg) \<in> set configs" "scaled_keys scale (cfg_num_keys cfg) = Inl e"
  shows "\<exists>e'. scale_all scale configs = Inl e'"
  using assms
proof (induction scale configs rule: scale_all.induct)
  case (2 scale m c rest)
  show ?case
  proof (cases "scaled_keys scale (cfg_num_keys c)")
    case (Inr k)
    with "2.prems" have "(n, cfg) \<in> set rest" by auto
    from "2.IH"[OF this "2.prems"(2)] Inr show ?thesis by auto
  qed simp
qed simp

lemma acts_scale:
  assumes "\<And>n cfg. (n, cfg) \<in> set configs \<Longrightarrow> scaled_count args cfg = Inr (f cfg)"
  shows "acts (\<lambda>_ cfg. set_num_keys (f cfg) cfg) configs (apply_scale args configs)"
proof (cases "ma_scale args = Fin 1")
  case True
  have "map (\<lambda>(n, cfg). (n, set_num_keys (f cfg) cfg)) configs = map id configs"
    by (rule map_cong[OF refl]) (use assms True in \<open>auto simp: scaled_count_def\<close>)
  with acts_map[of "\<lambda>_ cfg. set_num_keys (f cfg) cfg" configs] True show ?thesis
    by (simp add: apply_scale_def)
next
  case False
  with scale_all_Inr[of configs "ma_scale args" f] assms
  have "apply_scale args configs = Inr (map (\<lambda>(n, cfg). (n, set_num_keys (f cfg) cfg)) configs)"
    by (simp add: apply_scale_def scaled_count_def)
  with acts_map[of "\<lambda>_ cfg. set_num_keys (f cfg) cfg" configs] show ?thesis by simp
qed

lemma default_of_in: "(n, cfg) \<in> set DEFAULT_CONFIGS \<Longrightarrow> default_of n = cfg"
  unfolding default_of_def
  by (subst map_of_is_SomeI) (simp_all add: DEFAULT_CONFIGS_def)

lemma default_simps:
  "default_of ''strings'' = type_config_defaults\<lparr>cfg_num_keys := 10000000, cfg_value_size := 64\<rparr>"
  "default_of ''hashes'' = type_config_defaults\<lparr>cfg_num_keys := 500000, cfg_num_fields := 10, cfg_value_size := 32\<rparr>"
  "default_of ''lists'' = type_config_defaults\<lparr>cfg_num_keys := 500000, cfg_num_fields := 10, cfg_value_size := 32\<rparr>"
  "default_of ''sets'' = type_config_defaults\<lparr>cfg_num_keys := 500000, cfg_num_fields := 15, cfg_value_size := 24\<rparr>"
  "default_of ''sorted_sets'' = type_config_defaults\<lparr>cfg_num_keys := 500000, cfg_num_fields := 15, cfg_value_size := 24\<rparr>"
  "default_of ''streams'' = type_config_defaults\<lparr>cfg_num_keys := 500000, cfg_num_fields := 5, cfg_value_size := 32\<rparr>"
  "default_of ''hyperloglog'' = type_config_defaults\<lparr>cfg_num_keys := 200000, cfg_num_fields := 100\<rparr>"
  "default_of ''json'' = json_default ''flat''"
  "default_of ''json_flat'' = json_default ''flat''"
  "default_of ''json_medium'' = json_default ''medium''"
  "default_of ''json_deep'' = json_default ''deep''"
  by (rule default_of_in, simp add: DEFAULT_CONFIGS_def)+

lemma map_of_default: "n \<in> set names \<Longrightarrow> map_of DEFAULT_CONFIGS n = Some (default_of n)"
  unfolding default_of_def by (metis domD dom_map_of_conv_image_fst option.sel set_map)

text \<open>
  The first four passes: scale, children count, JSON switch, key overrides.
\<close>

definition stage :: "mem_args \<Rightarrow> (string \<Rightarrow> int) \<Rightarrow> string \<Rightarrow> type_config" where
  "stage args base n = (default_of n)
     \<lparr>cfg_enabled := cfg_enabled (default_of n) \<or> (n = ''json'' \<and> json_on args),
      cfg_num_keys := own_keys args base n,
      cfg_num_fields := (if n \<in> set CONTAINER_TYPES
        then (case ma_container_children_count args of None \<Rightarrow> cfg_num_fields (default_of n) | Some k \<Rightarrow> k)
        else cfg_num_fields (default_of n))\<rparr>"

lemma fold_children:
  "fold (\<lambda>m. only m (opt set_num_fields x) n) CONTAINER_TYPES cfg =
     (if n \<in> set CONTAINER_TYPES then opt set_num_fields x cfg else cfg)"
  by (simp add: CONTAINER_TYPES_def)

lemma fold_key_overrides:
  "fold (\<lambda>(m, x). only m (opt (\<lambda>k cfg. set_enabled True (set_num_keys k cfg)) x) n)
     (key_overrides args) cfg =
     opt (\<lambda>k cfg. set_enabled True (set_num_keys k cfg)) (key_override args n) cfg"
  by (simp add: key_overrides_def key_override_def)

lemma fold_field_overrides:
  "fold (\<lambda>(m, x). only m (opt set_num_fields x) n)
     [(''hashes'', ma_hash_fields args), (''lists'', ma_list_elements args),
      (''sets'', ma_set_members args), (''sorted_sets'', ma_zset_members args)] cfg =
     opt set_num_fields (field_override args n) cfg"
  by (simp add: field_override_def)

lemma key_override_json: "key_override args ''json'' = ma_json_keys args"
  by (simp add: key_override_def key_overrides_def)

lemma key_override_enabled:
  "n \<in> set names \<Longrightarrow> n \<noteq> ''json'' \<Longrightarrow> key_override args n \<noteq> None \<Longrightarrow> cfg_enabled (default_of n)"
  by (auto simp: names_simps key_override_def key_overrides_def default_simps type_config_defaults_def
      split: if_splits)

lemma stage_eq:
  assumes "n \<in> set names"
  shows "opt (\<lambda>k cfg. set_enabled True (set_num_keys k cfg)) (key_override args n)
     (only ''json'' (if ma_enable_json args then set_enabled True else id) n
       (if n \<in> set CONTAINER_TYPES
        then opt set_num_fields (ma_container_children_count args) (set_num_keys (base n) (default_of n))
        else set_num_keys (base n) (default_of n)))
     = stage args base n"
proof -
  have "n = ''json'' \<or> key_override args n = None \<or> cfg_enabled (default_of n)"
    using key_override_enabled[OF assms] by blast
  then show ?thesis
    by (auto simp: stage_def own_keys_def json_on_def key_override_json split: option.splits)
qed

lemma stages:
  assumes "\<And>n. n \<in> set names \<Longrightarrow> scaled_count args (default_of n) = Inr (base n)"
  obtains c0 c1 c2 c3 where
    "apply_scale args DEFAULT_CONFIGS = Inr c0" "apply_children args c0 = Inr c1"
    "apply_enable_json args c1 = Inr c2" "apply_key_overrides args c2 = Inr c3"
    "map fst c3 = names" "\<And>n. n \<in> set names \<Longrightarrow> map_of c3 n = Some (stage args base n)"
proof -
  let ?f = "\<lambda>cfg. projr (scaled_count args cfg)"
  have b: "?f (default_of n) = base n" if "n \<in> set names" for n using assms[OF that] by simp
  have "scaled_count args cfg = Inr (?f cfg)" if "(n, cfg) \<in> set DEFAULT_CONFIGS" for n cfg
  proof -
    have "n \<in> set names" using that by force
    from assms[OF this] default_of_in[OF that] show ?thesis by simp
  qed
  then have "acts (\<lambda>_ cfg. set_num_keys (?f cfg) cfg) DEFAULT_CONFIGS (apply_scale args DEFAULT_CONFIGS)"
    by (rule acts_scale)
  then obtain c0 where c0: "apply_scale args DEFAULT_CONFIGS = Inr c0" "map fst c0 = names"
    "\<And>n. map_of c0 n = map_option (\<lambda>cfg. set_num_keys (?f cfg) cfg) (map_of DEFAULT_CONFIGS n)"
    by (auto simp: acts_def)
  obtain c1 where c1: "apply_children args c0 = Inr c1" "map fst c1 = names"
    "\<And>n. map_of c1 n = map_option (\<lambda>cfg. if n \<in> set CONTAINER_TYPES
       then opt set_num_fields (ma_container_children_count args) cfg else cfg) (map_of c0 n)"
    using acts_children[OF c0(2), of args] c0(2) by (auto simp: acts_def fold_children[abs_def])
  obtain c2 where c2: "apply_enable_json args c1 = Inr c2" "map fst c2 = names"
    "\<And>n. map_of c2 n = map_option (only ''json'' (if ma_enable_json args then set_enabled True else id) n)
       (map_of c1 n)"
    using acts_enable_json[OF c1(2), of args] c1(2) by (auto simp: acts_def)
  obtain c3 where c3: "apply_key_overrides args c2 = Inr c3" "map fst c3 = names"
    "\<And>n. map_of c3 n = map_option (opt (\<lambda>k cfg. set_enabled True (set_num_keys k cfg)) (key_override args n))
       (map_of c2 n)"
    using acts_key_overrides[OF c2(2), of args] c2(2)
    unfolding acts_def fold_key_overrides[abs_def] by auto
  have "map_of c3 n = Some (stage args base n)" if "n \<in> set names" for n
    unfolding c3(3) c2(3) c1(3) c0(3) map_of_default[OF that] option.map b[OF that]
    using stage_eq[OF that, of args base] by (rule arg_cong)
  with c0(1) c1(1) c2(1) c3(1,2) that show ?thesis by blast
qed

text \<open>The passes after them.\<close>

lemma table_eq:
  assumes "n \<in> set names"
  shows "type_filter args n (opt (\<lambda>k cfg. cfg\<lparr>cfg_pipeline_batch := k\<rparr>) (ma_pipeline_batch args)
    (opt set_num_fields (field_override args n)
      (opt (\<lambda>k cfg. cfg\<lparr>cfg_value_size := k\<rparr>) (ma_value_size args)
        (json_pass args (stage args base ''json'') n
          (only ''hyperloglog'' (if ma_hll_keys args = None
              then set_num_keys (cfg_num_keys (stage args base ''strings'')) else id) n
            (stage args base n))))))
    = config_table args base n"
proof -
  have pb: "cfg_pipeline_batch (default_of n) = 5000"
    using assms by (auto simp: names_simps default_simps type_config_defaults_def json_default_def)
  have fo: "field_override args n \<noteq> None \<Longrightarrow> n \<in> set CONTAINER_TYPES"
    by (auto simp: field_override_def CONTAINER_TYPES_def split: if_splits)
  have jc: "json_pass args (stage args base ''json'') n cfg =
    (if json_split args then
       (if n \<in> {''json_flat'', ''json_medium'', ''json_deep''}
        then set_num_keys (own_keys args base ''json'') (set_enabled True cfg)
        else if n = ''json'' then set_enabled False cfg else cfg)
     else if json_on args \<and> n = ''json'' then cfg\<lparr>cfg_json_depth := ma_json_depth args\<rparr> else cfg)" for cfg
    by (simp add: json_pass_def stage_def json_split_def default_simps json_default_def)
  have tf: "type_filter args n cfg = cfg\<lparr>cfg_enabled := (case ma_types args of
      Some (t # ts) \<Rightarrow> n \<in> set (t # ts) | _ \<Rightarrow> cfg_enabled cfg)\<rparr>" for cfg
    by (simp add: type_filter_def split: option.split list.split)
  have e: "\<And>r s :: type_config. cfg_enabled r = cfg_enabled s \<Longrightarrow> cfg_num_keys r = cfg_num_keys s \<Longrightarrow>
      cfg_value_size r = cfg_value_size s \<Longrightarrow> cfg_num_fields r = cfg_num_fields s \<Longrightarrow>
      cfg_pipeline_batch r = cfg_pipeline_batch s \<Longrightarrow> cfg_json_depth r = cfg_json_depth s \<Longrightarrow> r = s"
    by (rule type_config.equality) simp_all
  have sel: "cfg_enabled (opt (\<lambda>k cfg. cfg\<lparr>cfg_pipeline_batch := k\<rparr>) x c) = cfg_enabled c"
    "cfg_num_keys (opt (\<lambda>k cfg. cfg\<lparr>cfg_pipeline_batch := k\<rparr>) x c) = cfg_num_keys c"
    "cfg_num_fields (opt (\<lambda>k cfg. cfg\<lparr>cfg_pipeline_batch := k\<rparr>) x c) = cfg_num_fields c"
    "cfg_value_size (opt (\<lambda>k cfg. cfg\<lparr>cfg_pipeline_batch := k\<rparr>) x c) = cfg_value_size c"
    "cfg_json_depth (opt (\<lambda>k cfg. cfg\<lparr>cfg_pipeline_batch := k\<rparr>) x c) = cfg_json_depth c"
    "cfg_pipeline_batch (opt (\<lambda>k cfg. cfg\<lparr>cfg_pipeline_batch := k\<rparr>) x c)
       = (case x of None \<Rightarrow> cfg_pipeline_batch c | Some k \<Rightarrow> k)"
    "cfg_enabled (opt set_num_fields y c) = cfg_enabled c"
    "cfg_num_keys (opt set_num_fields y c) = cfg_num_keys c"
    "cfg_num_fields (opt set_num_fields y c) = (case y of None \<Rightarrow> cfg_num_fields c | Some k \<Rightarrow> k)"
    "cfg_value_size (opt set_num_fields y c) = cfg_value_size c"
    "cfg_pipeline_batch (opt set_num_fields y c) = cfg_pipeline_batch c"
    "cfg_json_depth (opt set_num_fields y c) = cfg_json_depth c"
    "cfg_enabled (opt (\<lambda>k cfg. cfg\<lparr>cfg_value_size := k\<rparr>) z c) = cfg_enabled c"
    "cfg_num_keys (opt (\<lambda>k cfg. cfg\<lparr>cfg_value_size := k\<rparr>) z c) = cfg_num_keys c"
    "cfg_num_fields (opt (\<lambda>k cfg. cfg\<lparr>cfg_value_size := k\<rparr>) z c) = cfg_num_fields c"
    "cfg_value_size (opt (\<lambda>k cfg. cfg\<lparr>cfg_value_size := k\<rparr>) z c)
       = (case z of None \<Rightarrow> cfg_value_size c | Some k \<Rightarrow> k)"
    "cfg_pipeline_batch (opt (\<lambda>k cfg. cfg\<lparr>cfg_value_size := k\<rparr>) z c) = cfg_pipeline_batch c"
    "cfg_json_depth (opt (\<lambda>k cfg. cfg\<lparr>cfg_value_size := k\<rparr>) z c) = cfg_json_depth c"
    for x y z and c :: type_config
    by (simp_all split: option.split)
  show ?thesis
    unfolding jc tf
  proof (rule e, goal_cases)
    case 1
    show ?case
      unfolding config_table_def type_config.select_convs table_enabled_def
    proof (cases "ma_types args", goal_cases)
      case 1
      then show ?case by (cases "json_split args") (auto simp: sel stage_def)
    next
      case (2 ts)
      then show ?case by (cases ts; cases "json_split args") (auto simp: sel stage_def)
    qed
  next
    case 2
    show ?case by (auto simp: sel config_table_def table_keys_def stage_def)
  next
    case 3
    show ?case by (auto simp: sel config_table_def stage_def split: option.split)
  next
    case 4
    show ?case
      using fo
      by (cases "n \<in> set CONTAINER_TYPES"; cases "field_override args n";
          cases "ma_container_children_count args")
        (auto simp: sel config_table_def table_fields_def stage_def)
  next
    case 5
    have "cfg_pipeline_batch (stage args base n) = 5000" by (simp add: stage_def pb)
    then show ?case
      by (cases "ma_pipeline_batch args"; cases "ma_hll_keys args") (auto simp: sel config_table_def)
  next
    case 6
    show ?case by (cases "json_split args") (auto simp: sel config_table_def stage_def)
  qed
qed

section \<open>The configuration\<close>

lemma build_configs_eq:
  assumes "\<forall>n\<in>set names. scaled_count args (default_of n) = Inr (base n)"
  shows "build_configs args = Inr (map (\<lambda>n. (n, config_table args base n)) names)"
proof -
  have base: "\<And>n. n \<in> set names \<Longrightarrow> scaled_count args (default_of n) = Inr (base n)"
    using assms by blast
  obtain c0 c1 c2 c3 where c: "apply_scale args DEFAULT_CONFIGS = Inr c0" "apply_children args c0 = Inr c1"
    "apply_enable_json args c1 = Inr c2" "apply_key_overrides args c2 = Inr c3"
    and c3: "map fst c3 = names" "\<And>n. n \<in> set names \<Longrightarrow> map_of c3 n = Some (stage args base n)"
    using stages[where args = args and base = base, OF base] by blast
  have inn: "''strings'' \<in> set names" "''json'' \<in> set names" by (simp_all add: names_simps)
  obtain c4 where c4: "hll_tracks_strings args c3 = Inr c4" "map fst c4 = names"
    "\<And>n. map_of c4 n = map_option (only ''hyperloglog'' (if ma_hll_keys args = None
        then set_num_keys (cfg_num_keys (stage args base ''strings'')) else id) n) (map_of c3 n)"
    using acts_hll[OF c3(1) c3(2)[OF inn(1)], of args] c3(1) by (auto simp: acts_def)
  have j: "map_of c4 ''json'' = Some (stage args base ''json'')"
    by (simp add: c4(3) c3(2)[OF inn(2)])
  obtain c5 where c5: "apply_json_depth args c4 = Inr c5" "map fst c5 = names"
    "\<And>n. map_of c5 n = map_option (json_pass args (stage args base ''json'') n) (map_of c4 n)"
    using acts_json_depth[OF c4(2) j, of args] c4(2) by (auto simp: acts_def)
  have "acts (\<lambda>_. opt (\<lambda>k cfg. cfg\<lparr>cfg_value_size := k\<rparr>) (ma_value_size args)) c5
    (Inr (apply_value_size args c5))" by (rule acts_value_size)
  then obtain c6 where c6: "c6 = apply_value_size args c5" "map fst c6 = names"
    "\<And>n. map_of c6 n = map_option (opt (\<lambda>k cfg. cfg\<lparr>cfg_value_size := k\<rparr>) (ma_value_size args)) (map_of c5 n)"
    using c5(2) by (auto simp: acts_def)
  obtain c7 where c7: "apply_field_overrides args c6 = Inr c7" "map fst c7 = names"
    "\<And>n. map_of c7 n = map_option (opt set_num_fields (field_override args n)) (map_of c6 n)"
    using acts_field_overrides[OF c6(2), of args] c6(2)
    unfolding acts_def fold_field_overrides[abs_def] by auto
  obtain c8 where c8: "c8 = apply_batch args c7" "map fst c8 = names"
    "\<And>n. map_of c8 n = map_option (opt (\<lambda>k cfg. cfg\<lparr>cfg_pipeline_batch := k\<rparr>) (ma_pipeline_batch args)) (map_of c7 n)"
    using acts_batch[of args c7] c7(2) by (auto simp: acts_def)
  obtain c9 where c9: "c9 = filter_types args c8" "map fst c9 = names"
    "\<And>n. map_of c9 n = map_option (type_filter args n) (map_of c8 n)"
    using acts_filter[of args c8] c8(2) by (auto simp: acts_def)
  have at: "map_of c9 n = Some (config_table args base n)" if n: "n \<in> set names" for n
    unfolding c9(3) c8(3) c7(3) c6(3) c5(3) c4(3) c3(2)[OF n] option.map
    using table_eq[OF n, of args base] by (rule arg_cong)
  have d: "distinct names" by (simp add: names_simps)
  have "c9 = map (\<lambda>n. (n, config_table args base n)) names"
  proof (rule nth_equalityI)
    show l: "length c9 = length (map (\<lambda>n. (n, config_table args base n)) names)"
      using arg_cong[OF c9(2), of length] by simp
    fix i
    assume i: "i < length c9"
    obtain n c where nc: "c9 ! i = (n, c)" by (cases "c9 ! i")
    have n: "names ! i = n" using c9(2) nc i by (metis fst_conv nth_map)
    have "(n, c) \<in> set c9" using i nc by (metis nth_mem)
    then have "map_of c9 n = Some c" using d c9(2) by (intro map_of_is_SomeI) simp_all
    moreover have "n \<in> set names" using n i l by (metis length_map nth_mem)
    ultimately show "c9 ! i = map (\<lambda>n. (n, config_table args base n)) names ! i"
      using at n nc i l by simp
  qed
  moreover have "build_configs args = Inr c9"
    unfolding build_configs_def c bindR.simps c4(1) c5(1) c6(1)[symmetric] c7(1) c8(1)[symmetric]
      c9(1)[symmetric] ..
  ultimately show ?thesis by simp
qed

text \<open>The arguments of a plain run.\<close>

definition plain_args :: mem_args where
  "plain_args = \<lparr>ma_scale = Fin 1, ma_container_children_count = None, ma_enable_json = False,
     ma_json_depth = ''flat'', ma_string_keys = None, ma_hash_keys = None, ma_list_keys = None,
     ma_set_keys = None, ma_zset_keys = None, ma_stream_keys = None, ma_hll_keys = None,
     ma_json_keys = None, ma_value_size = None, ma_hash_fields = None, ma_list_elements = None,
     ma_set_members = None, ma_zset_members = None, ma_pipeline_batch = None, ma_types = None,
     ma_repeat = None, ma_ttl = 3600, ma_dragonfly_only = False, ma_redis_only = False,
     ma_redis_label = ''Redis/Valkey''\<rparr>"

text \<open>
  C10: Where the scaled key counts exist, the passes of the configuration yield, for every type and in
  the order of the defaults, exactly the table: each attribute is its most specific override, in the
  precedence the program documents, and nothing else.
\<close>

theorem build_configs_table:
  assumes "\<forall>n\<in>set (map fst DEFAULT_CONFIGS). scaled_count args (default_of n) = Inr (base n)"
  shows "build_configs args
    = Inr (map (\<lambda>n. (n, config_table args base n)) (map fst DEFAULT_CONFIGS))"
  using assms by (rule build_configs_eq)

theorem build_configs_table_witness:
  "build_configs (plain_args\<lparr>ma_scale := Fin 1, ma_value_size := Some 7\<rparr>)
    = Inr (map (\<lambda>n. (n, config_table (plain_args\<lparr>ma_value_size := Some 7\<rparr>)
        (\<lambda>n. cfg_num_keys (default_of n)) n)) (map fst DEFAULT_CONFIGS))"
proof -
  have e: "plain_args\<lparr>ma_scale := Fin 1, ma_value_size := Some 7\<rparr> = plain_args\<lparr>ma_value_size := Some 7\<rparr>"
    by (simp add: plain_args_def)
  show ?thesis
    unfolding e
    by (rule build_configs_table) (simp add: scaled_count_def plain_args_def)
qed

lemma scaled_keys_outcomes:
  "scaled_keys s n = (case pf_mul (Fin (of_int n)) s of
      Fin x \<Rightarrow> Inr (max 1000 (if 0 \<le> x then \<lfloor>x\<rfloor> else \<lceil>x\<rceil>))
    | NaN \<Rightarrow> Inl (ValueError ''cannot convert float NaN to integer'')
    | _ \<Rightarrow> Inl OverflowError)"
  by (simp add: scaled_keys_def split: pyfloat.split)

lemma map_of_table: "n \<in> set ns \<Longrightarrow> map_of (map (\<lambda>n. (n, f n)) ns) n = Some (f n)"
  by (induction ns) auto

lemma map_of_table_dom: "map_of (map (\<lambda>n. (n, f n)) ns) n = Some c \<Longrightarrow> n \<in> set ns"
  by (induction ns) (auto split: if_splits)

lemma enabled_types_eq:
  assumes "configs = map (\<lambda>n. (n, f n)) names"
  shows "enabled_types configs = Inr (filter (\<lambda>n. cfg_enabled (f n)) names)"
proof -
  have m: "map_of configs n = Some (f n)" if "n \<in> set names" for n
    unfolding assms by (rule map_of_table[OF that])
  have "mapR (\<lambda>t. bindR (lookupR configs t) (\<lambda>cfg. Inr (t, cfg_enabled cfg))) names
      = Inr (map (\<lambda>n. (n, cfg_enabled (f n))) names)"
    by (rule mapR_Inr) (simp add: lookupR_def m)
  then show ?thesis
    unfolding enabled_types_def by (simp add: filter_map comp_def)
qed

lemma enabled_types_distinct:
  assumes "enabled_types configs = Inr types"
  shows "distinct types"
proof -
  let ?f = "\<lambda>t. bindR (lookupR configs t) (\<lambda>cfg. Inr (t, cfg_enabled cfg))"
  obtain ts where ts: "mapR ?f names = Inr ts" "types = map fst (filter snd ts)"
    using assms by (auto simp: enabled_types_def result_simps)
  have "map fst ts = names"
  proof (rule nth_equalityI)
    show l: "length (map fst ts) = length names" using mapR_Inr_length[OF ts(1)] by simp
    fix i
    assume "i < length (map fst ts)"
    then have "?f (names ! i) = Inr (ts ! i)" using l by (intro mapR_Inr_nth[OF ts(1)]) simp
    then have "fst (ts ! i) = names ! i"
      by (metis (no_types, lifting) bindR_eq_Inr fst_conv sum.inject(2))
    then show "map fst ts ! i = names ! i" using \<open>i < length (map fst ts)\<close> by simp
  qed
  moreover have "distinct names" by (simp add: names_simps)
  ultimately have "distinct (map fst ts)" by simp
  then show ?thesis unfolding ts(2) by (rule distinct_map_filter)
qed

lemma build_configs_Inr:
  assumes "build_configs args = Inr configs"
  obtains base where "\<And>n. n \<in> set names \<Longrightarrow> scaled_count args (default_of n) = Inr (base n)"
    "configs = map (\<lambda>n. (n, config_table args base n)) names"
proof -
  obtain c0 where c0: "apply_scale args DEFAULT_CONFIGS = Inr c0"
    using assms by (auto simp: build_configs_def result_simps)
  have "\<exists>k. scaled_count args (default_of n) = Inr k" if n: "n \<in> set names" for n
  proof (cases "ma_scale args = Fin 1")
    case True
    then show ?thesis by (simp add: scaled_count_def)
  next
    case False
    obtain cfg where cfg: "(n, cfg) \<in> set DEFAULT_CONFIGS" using n by auto
    show ?thesis
    proof (cases "scaled_keys (ma_scale args) (cfg_num_keys cfg)")
      case (Inl e)
      from scale_all_Inl[OF cfg Inl] c0 False show ?thesis by (simp add: apply_scale_def)
    next
      case (Inr k)
      with False default_of_in[OF cfg] show ?thesis by (simp add: scaled_count_def)
    qed
  qed
  then have b: "scaled_count args (default_of n) = Inr (projr (scaled_count args (default_of n)))"
    if "n \<in> set names" for n using that by force
  have "build_configs args
      = Inr (map (\<lambda>n. (n, config_table args (\<lambda>n. projr (scaled_count args (default_of n))) n)) names)"
    by (rule build_configs_eq) (use b in blast)
  with assms have "configs
      = map (\<lambda>n. (n, config_table args (\<lambda>n. projr (scaled_count args (default_of n))) n)) names"
    by simp
  then show ?thesis using that[of "\<lambda>n. projr (scaled_count args (default_of n))"] b by simp
qed

text \<open>
  With \<open>--types\<close> the program runs exactly the requested types, each once and in the order of
  the defaults, whatever the other options say.
\<close>

theorem types_selects:
  assumes "build_configs args = Inr configs" "ma_types args = Some types" "types \<noteq> []"
  shows "enabled_types configs = Inr (filter (\<lambda>n. n \<in> set types) (map fst DEFAULT_CONFIGS))"
proof -
  obtain base where "configs = map (\<lambda>n. (n, config_table args base n)) names"
    using build_configs_Inr[OF assms(1)] by blast
  from enabled_types_eq[OF this] show ?thesis
    using assms(2,3) by (cases types) (simp_all add: config_table_def table_enabled_def)
qed

lemma plain_types_ok:
  "build_configs (plain_args\<lparr>ma_types := x\<rparr>)
     = Inr (map (\<lambda>n. (n, config_table (plain_args\<lparr>ma_types := x\<rparr>) (\<lambda>n. cfg_num_keys (default_of n)) n)) names)"
  by (rule build_configs_eq) (simp add: scaled_count_def plain_args_def)

theorem types_selects_witness:
  "\<exists>configs. build_configs (plain_args\<lparr>ma_types := Some [''sets'', ''json'', ''hashes'']\<rparr>) = Inr configs
    \<and> enabled_types configs = Inr [''hashes'', ''sets'', ''json'']"
proof -
  have "filter (\<lambda>n. n \<in> set [''sets'', ''json'', ''hashes'']) names = [''hashes'', ''sets'', ''json'']"
    by (simp add: names_simps)
  with plain_types_ok[of "Some [''sets'', ''json'', ''hashes'']"]
    types_selects[OF plain_types_ok[of "Some [''sets'', ''json'', ''hashes'']"], of "[''sets'', ''json'', ''hashes'']"]
  show ?thesis by (simp add: plain_args_def)
qed

text \<open>
  Without explicit key counts every type has at least 1000 keys whatever the scale factor, and
  the HyperLogLog type has as many keys as the string type, never its own default.
\<close>

theorem scaled_counts_bounded:
  assumes "build_configs args = Inr configs" "\<forall>n. key_override args n = None"
    and "map_of configs n = Some cfg"
  shows "1000 \<le> cfg_num_keys cfg
    \<and> (n = ''hyperloglog'' \<longrightarrow> map_option cfg_num_keys (map_of configs ''strings'') = Some (cfg_num_keys cfg))"
proof -
  obtain base where b: "\<And>n. n \<in> set names \<Longrightarrow> scaled_count args (default_of n) = Inr (base n)"
    and c: "configs = map (\<lambda>n. (n, config_table args base n)) names"
    using build_configs_Inr[OF assms(1)] by blast
  have big: "1000 \<le> base n" if "n \<in> set names" for n
  proof -
    have "1000 \<le> cfg_num_keys (default_of n)"
      using that by (auto simp: names_simps default_simps json_default_def)
    then show ?thesis
      using b[OF that] by (auto simp: scaled_count_def scaled_keys_def result_simps split: if_splits)
  qed
  have at: "map_of configs m = Some (config_table args base m)" if "m \<in> set names" for m
    unfolding c by (rule map_of_table[OF that])
  have n: "n \<in> set names" using assms(3) unfolding c by (rule map_of_table_dom)
  have e: "cfg_num_keys (config_table args base m) \<in> {base m, base ''strings'', base ''json''}" for m
    using assms(2) by (simp add: config_table_def table_keys_def own_keys_def)
  have i: "''strings'' \<in> set names" "''json'' \<in> set names" by (simp_all add: names_simps)
  have "1000 \<le> cfg_num_keys cfg" using e[of n] big[OF n] big[OF i(1)] big[OF i(2)] at[OF n] assms(3) by auto
  moreover have "ma_hll_keys args = None" using assms(2)[rule_format, of "''hyperloglog''"]
    by (simp add: key_override_def key_overrides_def)
  then have "n = ''hyperloglog'' \<longrightarrow> map_option cfg_num_keys (map_of configs ''strings'') = Some (cfg_num_keys cfg)"
    using at[OF i(1)] at[OF n] assms(3) by (auto simp: config_table_def table_keys_def)
  ultimately show ?thesis by blast
qed

theorem scaled_counts_bounded_witness:
  "\<exists>configs cfg. build_configs (plain_args\<lparr>ma_types := None\<rparr>) = Inr configs
    \<and> map_of configs ''hyperloglog'' = Some cfg \<and> 1000 \<le> cfg_num_keys cfg"
proof -
  let ?args = "plain_args\<lparr>ma_types := None\<rparr>"
  let ?configs = "map (\<lambda>n. (n, config_table ?args (\<lambda>n. cfg_num_keys (default_of n)) n)) names"
  have "''hyperloglog'' \<in> set names" by (simp add: names_simps)
  then have h: "map_of ?configs ''hyperloglog''
      = Some (config_table ?args (\<lambda>n. cfg_num_keys (default_of n)) ''hyperloglog'')"
    by (rule map_of_table)
  have "\<forall>n. key_override ?args n = None"
    by (simp add: key_override_def key_overrides_def plain_args_def)
  from scaled_counts_bounded[OF plain_types_ok this h] plain_types_ok h show ?thesis by blast
qed

text \<open>
  A scale factor that is infinite or not a number, both of which \<open>--scale\<close> accepts, ends the
  program with an exception, before anything is written.
\<close>

theorem scale_not_finite:
  "build_configs (args\<lparr>ma_scale := PosInf\<rparr>) = Inl OverflowError
   \<and> build_configs (args\<lparr>ma_scale := NegInf\<rparr>) = Inl OverflowError
   \<and> build_configs (args\<lparr>ma_scale := NaN\<rparr>) = Inl (ValueError ''cannot convert float NaN to integer'')"
  by (simp add: build_configs_def apply_scale_def DEFAULT_CONFIGS_def scaled_keys_def
      type_config_defaults_def)

end
