(* ===== verification/Mem_Populate_Spec.thy ===== *)
theory Mem_Populate_Spec
  imports Mem_Populate
begin

text \<open>
  What the populate functions write: the interface every per-key command group satisfies, that
  the pipeline only groups commands, which keys are written with which expiry, and the batch
  sizes on which the loop fails.
\<close>

section \<open>The pipeline groups commands\<close>

text \<open>
  What the code relies on of the client and of \<open>random\<close>: an empty pipeline does nothing, sending
  commands in two parts is sending them at once, and \<open>random.choices\<close> draws the given number of
  elements of its first argument.
\<close>

definition world_ok :: "'w mem_world \<Rightarrow> bool" where
  "world_ok W \<longleftrightarrow> (\<forall>w. w_execute W w [] = Inr w)
     \<and> (\<forall>w cs ds. w_execute W w (cs @ ds) = bindR (w_execute W w cs) (\<lambda>w'. w_execute W w' ds))
     \<and> (\<forall>w cs k. cs \<noteq> [] \<longrightarrow> length (fst (w_choices W w cs k)) = nat k
          \<and> set (fst (w_choices W w cs k)) \<subseteq> set cs)"

lemma queue_all_Inr: "queue_all W buf cs = Inr buf' \<Longrightarrow> buf' = buf @ cs"
  by (induction W buf cs rule: queue_all.induct) (auto simp: result_simps)

lemma queue_all_ok: "(\<And>c. c \<in> set cs \<Longrightarrow> w_queue W c = Inr ()) \<Longrightarrow> queue_all W buf cs = Inr (buf @ cs)"
  by (induction W buf cs rule: queue_all.induct) auto

lemma populate_loop_execute:
  assumes "world_ok W" "flush_every \<noteq> 0"
    and "\<And>i c. i \<in> set is \<Longrightarrow> c \<in> set (key_cmds i) \<Longrightarrow> w_queue W c = Inr ()"
  shows "populate_loop W key_cmds flush_every is w buf = w_execute W w (buf @ concat (map key_cmds is))"
  using assms(3)
proof (induction "is" arbitrary: w buf)
  case Nil
  then show ?case by simp
next
  case (Cons i "is")
  have q: "queue_all W buf (key_cmds i) = Inr (buf @ key_cmds i)"
    by (rule queue_all_ok) (rule Cons.prems, simp_all)
  have split: "w_execute W w (cs @ ds) = bindR (w_execute W w cs) (\<lambda>w'. w_execute W w' ds)" for w cs ds
    using assms(1) by (simp add: world_ok_def)
  have IH: "populate_loop W key_cmds flush_every is w buf = w_execute W w (buf @ concat (map key_cmds is))"
    for w buf by (rule Cons.IH) (rule Cons.prems, simp_all)
  show ?case
    using assms(2) split[of w "buf @ key_cmds i" "concat (map key_cmds is)"] by (simp add: q IH)
qed

lemma populate_loop_Inr:
  assumes "world_ok W" "populate_loop W key_cmds flush_every is w buf = Inr w'"
  shows "w_execute W w (buf @ concat (map key_cmds is)) = Inr w'"
  using assms(2)
proof (induction "is" arbitrary: w buf)
  case Nil
  then show ?case by simp
next
  case (Cons i "is")
  obtain b where b: "queue_all W buf (key_cmds i) = Inr b"
    using Cons.prems by (auto simp: result_simps)
  then have be: "b = buf @ key_cmds i" by (rule queue_all_Inr)
  have nz: "flush_every \<noteq> 0" using Cons.prems b by (auto split: if_splits)
  have split: "w_execute W w (cs @ ds) = bindR (w_execute W w cs) (\<lambda>w'. w_execute W w' ds)" for w cs ds
    using assms(1) by (simp add: world_ok_def)
  show ?case
  proof (cases "(i + 1) mod flush_every = 0")
    case True
    then obtain w1 where w1: "w_execute W w b = Inr w1"
      "populate_loop W key_cmds flush_every is w1 [] = Inr w'"
      using Cons.prems b nz by (auto simp: result_simps)
    from Cons.IH[OF w1(2)] w1(1) split[of w b "concat (map key_cmds is)"] show ?thesis by (simp add: be)
  next
    case False
    with Cons.prems b nz have "populate_loop W key_cmds flush_every is w b = Inr w'" by simp
    from Cons.IH[OF this] show ?thesis by (simp add: be)
  qed
qed

text \<open>
  The pipeline's batch size changes nothing but the number of round trips: for every non-zero
  batch size the loop has the effect of sending the commands of all keys, in order, at once.
\<close>

theorem populate_batch_irrelevant:
  assumes "world_ok W" "flush_every \<noteq> 0"
    and "\<And>i c. 0 \<le> i \<Longrightarrow> i < n_keys \<Longrightarrow> c \<in> set (key_cmds (key_of key_prefix i) i) \<Longrightarrow> w_queue W c = Inr ()"
  shows "populate_keys W key_cmds flush_every n_keys key_prefix w
    = bindR (w_execute W w (concat (map (\<lambda>i. key_cmds (key_of key_prefix i) i) [0..n_keys - 1])))
        (\<lambda>w'. Inr (n_keys, w'))"
  unfolding populate_keys_def
  by (subst populate_loop_execute[OF assms(1,2)]) (use assms(3) in auto)


section \<open>Random draws\<close>

text \<open>The worlds that random draws lead to from \<open>w\<close>.\<close>

inductive draws :: "'w mem_world \<Rightarrow> 'w \<Rightarrow> 'w \<Rightarrow> bool" for W :: "'w mem_world" and w :: 'w where
  draws_refl: "draws W w w"
| draws_step: "draws W w w1 \<Longrightarrow> draws W w (snd (w_choices W w1 cs k))"

declare draws.intros [intro]

definition sized :: "int \<Rightarrow> string \<Rightarrow> bool" where
  "sized n v \<longleftrightarrow> length v = nat n \<and> set v \<subseteq> set ALPHANUMERIC"

lemma random_value_draws [intro]: "draws W w v \<Longrightarrow> draws W w (snd (random_value W v n))"
  unfolding random_value_def by (rule draws_step)

lemma random_values_draws [intro]: "draws W w v \<Longrightarrow> draws W w (snd (random_values W n k v))"
proof (induction k arbitrary: v)
  case 0
  then show ?case by simp
next
  case (Suc k)
  from Suc.IH[OF random_value_draws[OF Suc.prems, of n]] show ?case
    by (simp add: Let_def case_prod_unfold)
qed

lemma random_value_sized: "world_ok W \<Longrightarrow> sized n (fst (random_value W v n))"
  unfolding sized_def random_value_def world_ok_def
  by (elim conjE allE[of _ v] allE[of _ ALPHANUMERIC]) (simp add: ALPHANUMERIC_def)

lemma random_values_sized:
  assumes "world_ok W"
  shows "length (fst (random_values W n k v)) = k \<and> list_all (sized n) (fst (random_values W n k v))"
proof (induction k arbitrary: v)
  case 0
  show ?case by simp
next
  case (Suc k)
  from random_value_sized[OF assms, of n v] Suc.IH[of "snd (random_value W v n)"]
  show ?case by (simp add: Let_def case_prod_unfold)
qed


section \<open>The interface of a populate function\<close>

text \<open>After random draws only, the groups of the keys 0 to n-1 of the prefix are sent, in order.\<close>

definition writes_keys ::
  "'w mem_world \<Rightarrow> (string \<Rightarrow> int \<Rightarrow> command list \<Rightarrow> bool) \<Rightarrow> string \<Rightarrow> 'w \<Rightarrow> int \<Rightarrow> 'w \<Rightarrow> bool" where
  "writes_keys W group_ok key_prefix w n w' \<longleftrightarrow> (\<exists>w1 cmds. draws W w w1
     \<and> (\<forall>i\<in>{0..<n}. group_ok (key_of key_prefix i) i (cmds i))
     \<and> w_execute W w1 (concat (map cmds [0..n - 1])) = Inr w')"

text \<open>
  The contract of a group of per-key commands: it is what its key is to be given. The loop around
  it contributes the keys, the order and the count.
\<close>

locale key_writer =
  fixes key_cmds :: "string \<Rightarrow> int \<Rightarrow> command list"
    and group_ok :: "string \<Rightarrow> int \<Rightarrow> command list \<Rightarrow> bool"
  assumes group_law: "group_ok key i (key_cmds key i)"
begin

lemma writes:
  assumes "world_ok W" "populate_keys W key_cmds flush_every n_keys key_prefix w1 = Inr (n, w')"
    and "draws W w w1" "\<And>key i cmds. 0 \<le> i \<Longrightarrow> group_ok key i cmds \<Longrightarrow> spec key i cmds"
  shows "n = n_keys \<and> writes_keys W spec key_prefix w n w'"
proof -
  let ?cmds = "\<lambda>i. key_cmds (key_of key_prefix i) i"
  let ?r = "populate_loop W ?cmds flush_every [0..n_keys - 1] w1 []"
  have r: "?r = Inr w'" and n: "n = n_keys"
    using assms(2) by (cases ?r; simp add: populate_keys_def)+
  have "w_execute W w1 (concat (map ?cmds [0..n_keys - 1])) = Inr w'"
    using populate_loop_Inr[OF assms(1) r] by simp
  moreover have "\<forall>i\<in>{0..<n}. spec (key_of key_prefix i) i (?cmds i)"
    using assms(4)[OF _ group_law] by simp
  ultimately show ?thesis
    unfolding writes_keys_def using assms(3) n by (intro conjI exI[of _ w1] exI[of _ ?cmds]) simp_all
qed

end

text \<open>What a key of each type is to hold, and the command that makes it expire.\<close>

definition expiry :: "int \<Rightarrow> string \<Rightarrow> command list" where
  "expiry ttl key = (if 0 < ttl then [CExpire key ttl] else [])"

definition string_group :: "type_config \<Rightarrow> int \<Rightarrow> string \<Rightarrow> int \<Rightarrow> command list \<Rightarrow> bool" where
  "string_group cfg ttl key i cmds \<longleftrightarrow> (\<exists>v. sized (cfg_value_size cfg) v
     \<and> cmds = [CSet key v (if 0 < ttl then Some ttl else None)])"

definition hash_group :: "type_config \<Rightarrow> int \<Rightarrow> string \<Rightarrow> int \<Rightarrow> command list \<Rightarrow> bool" where
  "hash_group cfg ttl key i cmds \<longleftrightarrow> (\<exists>m. map fst m = map (\<lambda>j. ''f'' @ py_str j) [0..cfg_num_fields cfg - 1]
     \<and> list_all (sized (cfg_value_size cfg)) (map snd m) \<and> cmds = CHset key m # expiry ttl key)"

definition elements_group ::
  "(string \<Rightarrow> string list \<Rightarrow> command) \<Rightarrow> int \<Rightarrow> int \<Rightarrow> int \<Rightarrow> string \<Rightarrow> int \<Rightarrow> command list \<Rightarrow> bool" where
  "elements_group cmd num_elements num_chars ttl key i cmds \<longleftrightarrow> (\<exists>xs. length xs = nat num_elements
     \<and> list_all (sized num_chars) xs \<and> cmds = cmd key xs # expiry ttl key)"

definition zset_group :: "type_config \<Rightarrow> int \<Rightarrow> string \<Rightarrow> int \<Rightarrow> command list \<Rightarrow> bool" where
  "zset_group cfg ttl key i cmds \<longleftrightarrow> (\<exists>xs. length xs = nat (cfg_num_fields cfg)
     \<and> list_all (sized (cfg_value_size cfg)) xs
     \<and> (\<exists>m. distinct (map fst m) \<and> set (map fst m) = set xs
         \<and> (\<forall>j<length xs. (\<forall>l<length xs. j < l \<longrightarrow> xs ! l \<noteq> xs ! j) \<longrightarrow> map_of m (xs ! j) = Some (int j))
         \<and> cmds = CZadd key m # expiry ttl key))"

definition stream_group :: "type_config \<Rightarrow> int \<Rightarrow> string \<Rightarrow> int \<Rightarrow> command list \<Rightarrow> bool" where
  "stream_group cfg ttl key i cmds \<longleftrightarrow> (\<exists>v1 v2. sized (cfg_value_size cfg) v1 \<and> sized (cfg_value_size cfg) v2
     \<and> cmds = replicate (nat (cfg_num_fields cfg)) (CXadd key [(''field1'', v1), (''field2'', v2)])
         @ expiry ttl key)"

definition json_group :: "type_config \<Rightarrow> int \<Rightarrow> string \<Rightarrow> int \<Rightarrow> command list \<Rightarrow> bool" where
  "json_group cfg ttl key i cmds \<longleftrightarrow> (\<exists>doc.
     (if cfg_json_depth cfg = ''medium'' then doc = make_medium_doc 0
      else if cfg_json_depth cfg = ''deep'' then doc = make_deep_doc (i mod 5)
      else \<exists>vs. length vs = nat (cfg_num_fields cfg) \<and> list_all (sized (cfg_value_size cfg)) vs
        \<and> doc = flat_doc vs)
     \<and> cmds = CJsonSet key ''$'' (json_dumps doc) # expiry ttl key)"

text \<open>The shapes of the groups the populate functions queue, as interpretations of the contract.\<close>

interpretation string_w: key_writer "set_key ttl v"
  "\<lambda>key i cmds. cmds = [CSet key v (if 0 < ttl then Some ttl else None)]" for ttl v
  by unfold_locales (simp add: set_key_def)

interpretation hash_w: key_writer "hash_key ttl m" "\<lambda>key i cmds. cmds = CHset key m # expiry ttl key" for ttl m
  by unfold_locales (simp add: hash_key_def with_ttl_def expiry_def)

interpretation list_w: key_writer "list_key ttl xs" "\<lambda>key i cmds. cmds = CRpush key xs # expiry ttl key" for ttl xs
  by unfold_locales (simp add: list_key_def with_ttl_def expiry_def)

interpretation set_w: key_writer "set_key_members ttl xs"
  "\<lambda>key i cmds. cmds = CSadd key xs # expiry ttl key" for ttl xs
  by unfold_locales (simp add: set_key_members_def with_ttl_def expiry_def)

interpretation zset_w: key_writer "zset_key ttl m" "\<lambda>key i cmds. cmds = CZadd key m # expiry ttl key" for ttl m
  by unfold_locales (simp add: zset_key_def with_ttl_def expiry_def)

interpretation stream_w: key_writer "stream_key ttl n fs"
  "\<lambda>key i cmds. cmds = replicate (nat n) (CXadd key fs) @ expiry ttl key" for ttl n fs
  by unfold_locales (simp add: stream_key_def with_ttl_def expiry_def)

interpretation hll_w: key_writer "hll_key ttl xs" "\<lambda>key i cmds. cmds = CPfadd key xs # expiry ttl key" for ttl xs
  by unfold_locales (simp add: hll_key_def with_ttl_def expiry_def)

interpretation json_w: key_writer "json_key ttl docs"
  "\<lambda>key i cmds. cmds = CJsonSet key ''$'' (docs ! nat (i mod int (length docs))) # expiry ttl key" for ttl docs
  by unfold_locales (simp add: json_key_def with_ttl_def expiry_def)


section \<open>What each populate function writes\<close>

lemma pipelined_set_writes:
  assumes "world_ok W" "pipelined_set W cfg p ttl w = Inr (n, w')"
  shows "n = cfg_num_keys cfg \<and> writes_keys W (string_group cfg ttl) p w n w'"
  by (rule string_w.writes[OF assms(1) assms(2)[unfolded pipelined_set_def Let_def case_prod_unfold]
        random_value_draws[OF draws_refl]])
    (use random_value_sized[OF assms(1)] in \<open>auto simp: string_group_def\<close>)

lemma hashes_write:
  assumes "world_ok W" "populate_hashes W cfg p ttl w = Inr (n, w')"
  shows "n = cfg_num_keys cfg \<and> writes_keys W (hash_group cfg ttl) p w n w'"
proof (rule hash_w.writes[OF assms(1) assms(2)[unfolded populate_hashes_def Let_def case_prod_unfold]])
  let ?vs = "fst (random_values W (cfg_value_size cfg) (nat (cfg_num_fields cfg)) w)"
  let ?m = "zip (map (\<lambda>j. ''f'' @ py_str j) [0..cfg_num_fields cfg - 1]) ?vs"
  note r = random_values_sized[OF assms(1), of "cfg_value_size cfg" "nat (cfg_num_fields cfg)" w]
  have "map fst ?m = map (\<lambda>j. ''f'' @ py_str j) [0..cfg_num_fields cfg - 1]" "map snd ?m = ?vs"
    using r by simp_all
  then show "hash_group cfg ttl key i cmds" if "cmds = CHset key ?m # expiry ttl key" for key i cmds
    unfolding hash_group_def using that r by metis
qed blast

lemma elements_group_I:
  assumes "world_ok W" "cmds = cmd key (fst (random_values W num_chars (nat num_elements) w)) # expiry ttl key"
  shows "elements_group cmd num_elements num_chars ttl key i cmds"
  unfolding elements_group_def using random_values_sized[OF assms(1)] assms(2) by blast

lemma lists_write:
  assumes "world_ok W" "populate_lists W cfg p ttl w = Inr (n, w')"
  shows "n = cfg_num_keys cfg
    \<and> writes_keys W (elements_group CRpush (cfg_num_fields cfg) (cfg_value_size cfg) ttl) p w n w'"
  by (rule list_w.writes[OF assms(1) assms(2)[unfolded populate_lists_def Let_def case_prod_unfold]
        random_values_draws[OF draws_refl] elements_group_I[OF assms(1)]])

lemma sets_write:
  assumes "world_ok W" "populate_sets W cfg p ttl w = Inr (n, w')"
  shows "n = cfg_num_keys cfg
    \<and> writes_keys W (elements_group CSadd (cfg_num_fields cfg) (cfg_value_size cfg) ttl) p w n w'"
  by (rule set_w.writes[OF assms(1) assms(2)[unfolded populate_sets_def Let_def case_prod_unfold]
        random_values_draws[OF draws_refl] elements_group_I[OF assms(1)]])

lemma hyperloglog_write:
  assumes "world_ok W" "populate_hyperloglog W cfg p ttl w = Inr (n, w')"
  shows "n = cfg_num_keys cfg
    \<and> writes_keys W (elements_group CPfadd (hll_fields_per_key cfg) 16 ttl) p w n w'"
  by (rule hll_w.writes[OF assms(1) assms(2)[unfolded populate_hyperloglog_def Let_def case_prod_unfold]
        random_values_draws[OF draws_refl] elements_group_I[OF assms(1)]])

lemma streams_write:
  assumes "world_ok W" "populate_streams W cfg p ttl w = Inr (n, w')"
  shows "n = cfg_num_keys cfg \<and> writes_keys W (stream_group cfg ttl) p w n w'"
  by (rule stream_w.writes[OF assms(1) assms(2)[unfolded populate_streams_def Let_def case_prod_unfold]
        random_value_draws[OF random_value_draws[OF draws_refl]]])
    (use random_value_sized[OF assms(1)] in \<open>auto simp: stream_group_def\<close>)

lemma updates_set:
  "length vs = length ks \<Longrightarrow> fst ` set (AList.updates ks vs []) = set ks"
  using dom_map_of_conv_image_fst[of "AList.updates ks vs []"] by (simp add: updates_conv' dom_map_upds)

lemma map_of_updates_last:
  assumes "length vs = length ks" "j < length ks" "\<forall>l<length ks. j < l \<longrightarrow> ks ! l \<noteq> ks ! j"
  shows "map_of (AList.updates ks vs al) (ks ! j) = Some (vs ! j)"
  using assms
proof (induction ks arbitrary: vs al j)
  case Nil
  then show ?case by simp
next
  case (Cons k ks)
  then obtain v vs' where vs: "vs = v # vs'" by (cases vs) auto
  show ?case
  proof (cases j)
    case 0
    have "k \<notin> set ks"
      using Cons.prems(3) 0 by (auto simp: in_set_conv_nth)
    then show ?thesis using 0 vs Cons.prems(1)
      by (simp add: updates_twist update_conv)
  next
    case (Suc j')
    have "\<forall>l<length ks. j' < l \<longrightarrow> ks ! l \<noteq> ks ! j'"
      using Cons.prems(3) Suc by (metis Suc_less_eq length_Cons nth_Cons_Suc)
    with Cons.IH[of vs' j' "AList.update k v al"] Cons.prems(1,2) vs Suc show ?thesis by simp
  qed
qed

lemma sorted_sets_write:
  assumes "world_ok W" "populate_sorted_sets W cfg p ttl w = Inr (n, w')"
  shows "n = cfg_num_keys cfg \<and> writes_keys W (zset_group cfg ttl) p w n w'"
proof (rule zset_w.writes[OF assms(1) assms(2)[unfolded populate_sorted_sets_def Let_def case_prod_unfold]
      random_values_draws[OF draws_refl]])
  let ?xs = "fst (random_values W (cfg_value_size cfg) (nat (cfg_num_fields cfg)) w)"
  fix key i cmds
  assume c: "cmds = CZadd key (scored_members ?xs) # expiry ttl key"
  have "distinct (map fst (scored_members ?xs))" "set (map fst (scored_members ?xs)) = set ?xs"
    by (simp_all add: scored_members_def distinct_updates updates_set)
  moreover have "map_of (scored_members ?xs) (?xs ! j) = Some (int j)"
    if "j < length ?xs" "\<forall>l<length ?xs. j < l \<longrightarrow> ?xs ! l \<noteq> ?xs ! j" for j
    using map_of_updates_last[of "[0..int (length ?xs) - 1]" ?xs j "[]"] that
    by (simp add: scored_members_def)
  ultimately show "zset_group cfg ttl key i cmds"
    unfolding zset_group_def using c random_values_sized[OF assms(1)] by blast
qed

lemma json_docs_group:
  assumes "world_ok W" "0 \<le> i"
    and "cmds = CJsonSet key ''$'' (fst (json_docs W cfg w) ! nat (i mod int (length (fst (json_docs W cfg w)))))
      # expiry ttl key"
  shows "json_group cfg ttl key i cmds"
proof -
  have d: "map (\<lambda>idx. json_dumps (make_deep_doc idx)) [0..4] ! nat (i mod 5) = json_dumps (make_deep_doc (i mod 5))"
    by (subst nth_map) (simp_all add: nat_less_iff)
  show ?thesis
    using assms(3) random_values_sized[OF assms(1), of "cfg_value_size cfg" "nat (cfg_num_fields cfg)" w] d
    by (auto simp: json_group_def json_docs_def Let_def case_prod_unfold split: if_splits)
qed

lemma json_write:
  assumes "world_ok W" "populate_json W cfg p ttl w = Inr (n, w')"
  shows "n = cfg_num_keys cfg
    \<and> writes_keys W (json_group cfg ttl) (if p = [] then ''json_'' @ cfg_json_depth cfg else p) w n w'"
proof (rule json_w.writes[OF assms(1) assms(2)[unfolded populate_json_def Let_def case_prod_unfold]])
  show "draws W w (snd (json_docs W cfg w))"
    using random_values_draws[OF draws_refl] by (auto simp: json_docs_def Let_def case_prod_unfold)
qed (rule json_docs_group[OF assms(1)])

text \<open>The prefix and the contents of the keys of a type.\<close>

definition default_prefix :: "string \<Rightarrow> type_config \<Rightarrow> string" where
  "default_prefix name cfg =
     (if name = ''strings'' then ''str'' else if name = ''hashes'' then ''hash''
      else if name = ''lists'' then ''list'' else if name = ''sets'' then ''set''
      else if name = ''sorted_sets'' then ''zset'' else if name = ''streams'' then ''stream''
      else if name = ''hyperloglog'' then ''hll'' else ''json_'' @ cfg_json_depth cfg)"

definition type_group :: "string \<Rightarrow> type_config \<Rightarrow> int \<Rightarrow> string \<Rightarrow> int \<Rightarrow> command list \<Rightarrow> bool" where
  "type_group name cfg ttl =
     (if name = ''strings'' then string_group cfg ttl
      else if name = ''hashes'' then hash_group cfg ttl
      else if name = ''lists'' then elements_group CRpush (cfg_num_fields cfg) (cfg_value_size cfg) ttl
      else if name = ''sets'' then elements_group CSadd (cfg_num_fields cfg) (cfg_value_size cfg) ttl
      else if name = ''sorted_sets'' then zset_group cfg ttl
      else if name = ''streams'' then stream_group cfg ttl
      else if name = ''hyperloglog'' then elements_group CPfadd (hll_fields_per_key cfg) 16 ttl
      else json_group cfg ttl)"

text \<open>
  C8: Every populate function that returns reports the configured number of keys and, after drawing
  its random values, has sent exactly the commands of the keys \<open>prefix:0\<close> to \<open>prefix:n-1\<close>, in
  order: the configured number of fields, elements, members or entries, each of the configured
  size, or the JSON document of the configured depth, followed by the expiry exactly when there is
  a time to live. For strings this covers the fallback when DEBUG POPULATE is refused; where it
  works the server does the writing.
\<close>

theorem populators_write:
  assumes "world_ok W" "(name, populate) \<in> set (POPULATORS W)" "name \<noteq> ''strings'' \<or> 0 < ttl \<or>
      w_debug_populate W w (cfg_num_keys cfg) ''str'' (cfg_value_size cfg) = Inl e"
    and "populate cfg ttl w = Inr (n, w')"
  shows "n = cfg_num_keys cfg \<and> writes_keys W (type_group name cfg ttl) (default_prefix name cfg) w n w'"
  using assms(2-4)
  unfolding POPULATORS_def set_simps insert_iff empty_iff prod.inject default_prefix_def type_group_def
  by (elim disjE conjE)
    (use hashes_write[OF assms(1)] lists_write[OF assms(1)] sets_write[OF assms(1)] hyperloglog_write[OF assms(1)]
      sorted_sets_write[OF assms(1)] streams_write[OF assms(1)]
      json_write[OF assms(1), where p = "[]"] pipelined_set_writes[OF assms(1)]
     in \<open>simp_all add: populate_strings_def split: if_splits py_error.splits\<close>)

text \<open>A world that records the commands it is sent and refuses DEBUG POPULATE.\<close>

definition record_world :: "command list mem_world" where
  "record_world =
     \<lparr>w_choices = (\<lambda>w cs k. (replicate (nat k) (hd cs), w)),
      w_queue = (\<lambda>c. Inr ()),
      w_execute = (\<lambda>w cs. Inr (w @ cs)),
      w_debug_populate = (\<lambda>w n p v. Inl (ResponseError ''unknown command'')),
      w_info_server = (\<lambda>w. Inr ()),
      w_module_names = (\<lambda>w. Inr [''rejson'']),
      w_flushall = (\<lambda>w. Inr []),
      w_used_memory = (\<lambda>w. Inr (int (length w) * 100)),
      w_time = (\<lambda>w. (0, w))\<rparr>"

lemma record_world_ok: "world_ok record_world"
  by (auto simp: world_ok_def record_world_def)

theorem populate_batch_irrelevant_witness:
  "populate_keys record_world (list_key 60 [''a'', ''b'']) 2 3 ''list'' []
   = Inr (3, [CRpush ''list:0'' [''a'', ''b''], CExpire ''list:0'' 60, CRpush ''list:1'' [''a'', ''b''],
       CExpire ''list:1'' 60, CRpush ''list:2'' [''a'', ''b''], CExpire ''list:2'' 60])"
proof -
  have "concat (map (\<lambda>i. list_key 60 [''a'', ''b''] (key_of ''list'' i) i) [0..3 - 1])
    = [CRpush ''list:0'' [''a'', ''b''], CExpire ''list:0'' 60, CRpush ''list:1'' [''a'', ''b''],
       CExpire ''list:1'' 60, CRpush ''list:2'' [''a'', ''b''], CExpire ''list:2'' 60]"
    by code_simp
  moreover have "w_queue record_world c = Inr ()" "w_execute record_world w cs = Inr (w @ cs)" for c w cs
    by (simp_all add: record_world_def)
  ultimately show ?thesis
    using populate_batch_irrelevant[OF record_world_ok, of 2 3 "list_key 60 [''a'', ''b'']" "''list''" "[]"]
    by simp
qed

definition small_config :: type_config where
  "small_config = type_config_defaults\<lparr>cfg_num_keys := 2, cfg_value_size := 1, cfg_num_fields := 2\<rparr>"

lemma small_streams:
  "populate_streams record_world small_config ''stream'' 60 []
     = Inr (2, [CXadd ''stream:0'' [(''field1'', ''a''), (''field2'', ''a'')],
         CXadd ''stream:0'' [(''field1'', ''a''), (''field2'', ''a'')], CExpire ''stream:0'' 60,
         CXadd ''stream:1'' [(''field1'', ''a''), (''field2'', ''a'')],
         CXadd ''stream:1'' [(''field1'', ''a''), (''field2'', ''a'')], CExpire ''stream:1'' 60])"
  by code_simp

theorem populators_write_witness:
  "writes_keys record_world (type_group ''streams'' small_config 60) (default_prefix ''streams'' small_config) [] 2
     [CXadd ''stream:0'' [(''field1'', ''a''), (''field2'', ''a'')],
      CXadd ''stream:0'' [(''field1'', ''a''), (''field2'', ''a'')], CExpire ''stream:0'' 60,
      CXadd ''stream:1'' [(''field1'', ''a''), (''field2'', ''a'')],
      CXadd ''stream:1'' [(''field1'', ''a''), (''field2'', ''a'')], CExpire ''stream:1'' 60]"
proof -
  have "(''streams'', \<lambda>cfg. populate_streams record_world cfg ''stream'') \<in> set (POPULATORS record_world)"
    by (simp add: POPULATORS_def)
  from populators_write[OF record_world_ok this _ small_streams] show ?thesis by simp
qed


section \<open>Bounds and failures of the loop\<close>

text \<open>A world that keeps the batches apart.\<close>

definition batch_world :: "command list list mem_world" where
  "batch_world =
     \<lparr>w_choices = (\<lambda>w cs k. (replicate (nat k) (hd cs), w)),
      w_queue = (\<lambda>c. Inr ()),
      w_execute = (\<lambda>w cs. Inr (w @ [cs])),
      w_debug_populate = (\<lambda>w n p v. Inl (ResponseError ''unknown command'')),
      w_info_server = (\<lambda>w. Inr ()),
      w_module_names = (\<lambda>w. Inr []),
      w_flushall = (\<lambda>w. Inr []),
      w_used_memory = (\<lambda>w. Inr 0),
      w_time = (\<lambda>w. (0, w))\<rparr>"

lemma queue_all_batch: "queue_all batch_world buf cs = Inr (buf @ cs)"
  by (rule queue_all_ok) (simp add: batch_world_def)

lemma execute_batch: "w_execute batch_world w cs = Inr (w @ [cs])"
  by (simp add: batch_world_def)

lemma populate_loop_batches:
  assumes "0 < flush_every" "\<And>i. int (length (key_cmds i)) = per_key" "0 \<le> lo" "0 \<le> per_key"
    and "\<forall>b\<in>set w. int (length b) \<le> flush_every * per_key"
    and "int (length buf) = lo mod flush_every * per_key"
    and "populate_loop batch_world key_cmds flush_every [lo..hi] w buf = Inr w'"
  shows "\<forall>b\<in>set w'. int (length b) \<le> flush_every * per_key"
  using assms(3,5-7)
proof (induction "nat (hi + 1 - lo)" arbitrary: lo w buf)
  case 0
  have "lo mod flush_every * per_key \<le> flush_every * per_key"
    using assms(1,4) by (intro mult_right_mono) (simp_all add: less_imp_le pos_mod_bound)
  with 0 show ?case by (auto simp: execute_batch)
next
  case (Suc k)
  then have lh: "lo \<le> hi" and k: "k = nat (hi + 1 - (lo + 1))" by auto
  let ?buf = "buf @ key_cmds lo"
  have len: "int (length ?buf) = (lo mod flush_every + 1) * per_key"
    using Suc.prems(3) assms(2) by (simp add: distrib_right)
  have le: "int (length ?buf) \<le> flush_every * per_key"
    unfolding len using assms(1,4) by (intro mult_right_mono) (simp_all add: pos_mod_bound zless_imp_add1_zle)
  have step: "populate_loop batch_world key_cmds flush_every [lo..hi] w buf =
      (if (lo + 1) mod flush_every = 0
       then populate_loop batch_world key_cmds flush_every [lo + 1..hi] (w @ [?buf]) []
       else populate_loop batch_world key_cmds flush_every [lo + 1..hi] w ?buf)"
    using assms(1) lh by (simp add: upto_rec1 queue_all_batch execute_batch)
  show ?case
  proof (cases "(lo + 1) mod flush_every = 0")
    case True
    show ?thesis
      by (rule Suc.hyps(1)[OF k, where w = "w @ [?buf]" and buf = "[]"])
        (use Suc.prems(1,2,4) step True le in auto)
  next
    case False
    then have "(lo + 1) mod flush_every = lo mod flush_every + 1"
      using mod_add_left_eq[of lo flush_every 1] assms(1) pos_mod_bound[OF assms(1), of lo]
      by (smt (verit) mod_pos_pos_trivial pos_mod_sign mod_self)
    then show ?thesis
      by (intro Suc.hyps(1)[OF k, where w = w and buf = "?buf"])
        (use Suc.prems(1,2,4) step False len in auto)
  qed
qed

text \<open>
  Where every key takes the same number of commands, no pipeline flush carries more than the
  batch size times that number: the client never buffers more, however many keys there are.
\<close>

theorem pipeline_bounded:
  assumes "0 < flush_every" "\<And>i. int (length (key_cmds (key_of key_prefix i) i)) = per_key"
    and "populate_keys batch_world key_cmds flush_every n_keys key_prefix [] = Inr (n, batches)"
  shows "\<forall>b\<in>set batches. int (length b) \<le> flush_every * per_key"
proof -
  have p: "0 \<le> per_key" using assms(2)[of 0] by linarith
  show ?thesis
    by (rule populate_loop_batches[where key_cmds = "\<lambda>i. key_cmds (key_of key_prefix i) i" and lo = 0
          and hi = "n_keys - 1" and w = "[]" and buf = "[]", OF assms(1,2) _ p])
      (use assms(3) in \<open>auto simp: populate_keys_def result_simps\<close>)
qed

theorem pipeline_bounded_witness:
  "list_all (\<lambda>b. int (length b) \<le> 2 * 2) [[CRpush ''k:0'' [], CExpire ''k:0'' 5, CRpush ''k:1'' [],
       CExpire ''k:1'' 5], [CRpush ''k:2'' [], CExpire ''k:2'' 5]]"
  unfolding list_all_iff
proof (rule pipeline_bounded[where key_cmds = "list_key 5 []" and key_prefix = "''k''"])
  show "populate_keys batch_world (list_key 5 []) 2 3 ''k'' []
    = Inr (3, [[CRpush ''k:0'' [], CExpire ''k:0'' 5, CRpush ''k:1'' [], CExpire ''k:1'' 5],
       [CRpush ''k:2'' [], CExpire ''k:2'' 5]])"
    by code_simp
  show "int (length (list_key 5 [] (key_of ''k'' i) i)) = 2" for i
    by (simp add: list_key_def with_ttl_def)
qed simp

lemma populate_loop_zero:
  assumes "\<And>c. c \<in> set (key_cmds i) \<Longrightarrow> w_queue W c = Inr ()"
  shows "populate_loop W key_cmds 0 (i # is) w buf = Inl ZeroDivisionError"
  using queue_all_ok[of "key_cmds i" W buf] assms by simp

text \<open>
  The stream loop divides the batch size by the number of entries: with more entries per stream
  than the batch size the quotient is zero and the first key ends the run with ZeroDivisionError,
  so a children count above the default batch of 5000 cannot be benchmarked on streams.
\<close>

theorem streams_batch_too_small:
  assumes "0 < cfg_num_keys cfg" "0 \<le> cfg_pipeline_batch cfg" "cfg_pipeline_batch cfg < cfg_num_fields cfg"
    and "\<And>key m t. m \<noteq> [] \<Longrightarrow> w_queue W (CXadd key m) = Inr () \<and> w_queue W (CExpire key t) = Inr ()"
  shows "populate_streams W cfg key_prefix ttl w = Inl ZeroDivisionError"
proof -
  have z: "cfg_pipeline_batch cfg div max (cfg_num_fields cfg) 1 = 0"
    using assms(2,3) by (simp add: div_pos_pos_trivial max_def)
  have r: "[0..cfg_num_keys cfg - 1] = 0 # [1..cfg_num_keys cfg - 1]"
    using assms(1) by (simp add: upto_rec1)
  have q: "w_queue W c = Inr ()" if "c \<in> set (stream_key ttl n [(''field1'', a), (''field2'', b)] key i)" for c n a b key i
    using that assms(4)[of "[(''field1'', a), (''field2'', b)]"]
    by (auto simp: stream_key_def with_ttl_def split: if_splits)
  show ?thesis
    unfolding populate_streams_def Let_def case_prod_unfold populate_keys_def z r
    by (subst populate_loop_zero[OF q]) simp_all
qed

theorem streams_batch_too_small_witness:
  "populate_streams record_world (type_config_defaults\<lparr>cfg_num_fields := 5001\<rparr>) ''stream'' 3600 []
     = Inl ZeroDivisionError"
  by (rule streams_batch_too_small) (simp_all add: type_config_defaults_def record_world_def)

text \<open>
  The types "json" and "json_flat" have the same default configuration and the same populate
  function with the same keys: when both are selected the second overwrites the first.
\<close>

theorem json_types_collide:
  "map_of DEFAULT_CONFIGS ''json'' = map_of DEFAULT_CONFIGS ''json_flat''
   \<and> map_option (\<lambda>populate. populate cfg ttl w) (map_of (POPULATORS W) ''json'')
     = map_option (\<lambda>populate. populate cfg ttl w) (map_of (POPULATORS W) ''json_flat'')"
  by (simp add: DEFAULT_CONFIGS_def POPULATORS_def)

end
