(* ===== verification/Mem_Bench_Spec.thy ===== *)
theory Mem_Bench_Spec
  imports Mem_Bench Mem_Config_Spec Mem_Populate_Spec
begin

text \<open>
  What the memory benchmark reports: the accounting of the memory differences, which types are
  skipped and why, and that a sweep records every step for every server.
\<close>

section \<open>Loops over a list, and dicts filled by them\<close>

lemma foldR_invariant:
  assumes "foldR f xs s = Inr s'" "P [] s"
    and "\<And>before x rest t t'. xs = before @ x # rest \<Longrightarrow> P before t \<Longrightarrow> f x t = Inr t' \<Longrightarrow> P (before @ [x]) t'"
  shows "P xs s'"
proof -
  have "foldR f ys t = Inr s' \<Longrightarrow> P before t \<Longrightarrow> xs = before @ ys \<Longrightarrow> P xs s'" for ys before t
  proof (induction ys arbitrary: before t)
    case Nil
    then show ?case by simp
  next
    case (Cons y ys)
    then obtain t' where t': "f y t = Inr t'" "foldR f ys t' = Inr s'" by (auto simp: result_simps)
    have "P (before @ [y]) t'" by (rule assms(3)[OF Cons.prems(3) Cons.prems(2) t'(1)])
    from Cons.IH[OF t'(2) this] Cons.prems(3) show ?case by simp
  qed
  from this[OF assms(1,2)] show ?thesis by simp
qed

lemma updates_new:
  "length ks = length vs \<Longrightarrow> distinct (map fst m @ ks) \<Longrightarrow> AList.updates ks vs m = m @ zip ks vs"
proof (induction ks vs arbitrary: m rule: list_induct2)
  case Nil
  show ?case by simp
next
  case (Cons k ks v vs)
  have "AList.update k v m = m @ [(k, v)]" using Cons.prems by (intro update_new) auto
  moreover have "AList.updates ks vs (m @ [(k, v)]) = (m @ [(k, v)]) @ zip ks vs"
    using Cons.prems by (intro Cons.IH) auto
  ultimately show ?case by simp
qed


section \<open>One type\<close>

text \<open>Why a type is skipped; empty when it is run.\<close>

definition skip_reason :: "configs \<Rightarrow> bool \<Rightarrow> string \<Rightarrow> string" where
  "skip_reason configs has_json t =
     (case map_of configs t of
        None \<Rightarrow> ''disabled''
      | Some cfg \<Rightarrow> if \<not> cfg_enabled cfg then ''disabled''
          else if t = ''json'' \<and> \<not> has_json then ''no module'' else [])"

lemma type_result_init_simps [simp]:
  "tr_type_name (type_result_init t n e m s k r) = t"
  "tr_num_keys (type_result_init t n e m s k r) = n"
  "tr_memory_bytes (type_result_init t n e m s k r) = m"
  "tr_skipped (type_result_init t n e m s k r) = k"
  "tr_skip_reason (type_result_init t n e m s k r) = r"
  "tr_total_elements (type_result_init t n e m s k r) = e"
  by (simp_all add: type_result_init_def Let_def)

lemma bench_type_Inr:
  assumes "bench_type W configs ttl has_json t s = Inr s'"
    and "w_used_memory W (bs_world s) = Inr (bs_prev_mem s)"
  obtains r where "tr_type_name r = t" "bs_results s' = AList.update t r (bs_results s)"
    "tr_skipped r \<longleftrightarrow> skip_reason configs has_json t \<noteq> []"
    "tr_skip_reason r = skip_reason configs has_json t"
    "bs_prev_mem s' = bs_prev_mem s + tr_memory_bytes r"
    "w_used_memory W (bs_world s') = Inr (bs_prev_mem s')"
proof -
  define reason where "reason = skip_reason configs has_json t"
  show ?thesis
  proof (cases "reason = []")
    case False
    have "s' = put_result (skipped_result t reason) s"
      using assms(1) False unfolding bench_type_def reason_def skip_reason_def
      by (auto split: option.splits if_splits)
    then show ?thesis
      using False assms(2) that[of "skipped_result t reason"]
      by (simp add: put_result_def reason_def)
  next
    case True
    obtain cfg where cfg: "map_of configs t = Some cfg" "cfg_enabled cfg" "t = ''json'' \<longrightarrow> has_json"
      using True unfolding reason_def skip_reason_def by (auto split: option.splits if_splits)
    obtain t0 w0 where c0: "w_time W (bs_world s) = (t0, w0)" by (cases "w_time W (bs_world s)")
    obtain populate where p: "lookupR (POPULATORS W) t = Inr populate"
      using assms(1) cfg c0 by (auto simp: bench_type_def result_simps)
    obtain n_keys w1 where n: "populate cfg ttl w0 = Inr (n_keys, w1)"
      using assms(1) cfg c0 p by (auto simp: bench_type_def result_simps)
    obtain t1 w2 where c1: "w_time W w1 = (t1, w2)" by (cases "w_time W w1")
    obtain m where m: "w_used_memory W w2 = Inr m"
      using assms(1) cfg c0 p n c1 by (auto simp: bench_type_def result_simps)
    let ?r = "type_result_init t n_keys (if t \<noteq> ''strings'' then n_keys * cfg_num_fields cfg else n_keys)
      (m - bs_prev_mem s) (fsub t1 t0) False []"
    have "s' = put_result ?r (s\<lparr>bs_world := w2, bs_prev_mem := m\<rparr>)"
      using assms(1) unfolding bench_type_def cfg(1) option.case c0 prod.case p bindR.simps n c1 Let_def m
      using cfg(2,3) by (auto split: if_splits)
    then show ?thesis
      using True m that[of ?r] by (simp add: put_result_def reason_def)
  qed
qed


section \<open>One instance\<close>

lemma benchmark_names_memory:
  assumes "distinct type_order" "w_info_server W w = Inr u" "w_flushall W w = Inr w0"
    and "w_used_memory W w0 = Inr m0" "benchmark_instance W configs type_order ttl w = Inr (results, w')"
  shows "map fst results = type_order
    \<and> w_used_memory W w' = Inr (m0 + sum_list (map (tr_memory_bytes \<circ> snd) results))
    \<and> (\<forall>t r. (t, r) \<in> set results \<longrightarrow> tr_type_name r = t
         \<and> tr_skip_reason r = skip_reason configs (check_module W w ''ReJSON'' \<or> check_module W w ''rejson'') t
         \<and> (tr_skipped r \<longleftrightarrow> tr_skip_reason r \<noteq> []))"
proof -
  let ?j = "check_module W w ''ReJSON'' \<or> check_module W w ''rejson''"
  let ?start = "\<lparr>bs_world = w0, bs_prev_mem = m0, bs_results = []\<rparr>"
  let ?ok = "\<lambda>results. \<forall>t r. (t, r) \<in> set results \<longrightarrow> tr_type_name r = t
         \<and> tr_skip_reason r = skip_reason configs ?j t \<and> (tr_skipped r \<longleftrightarrow> tr_skip_reason r \<noteq> [])"
  let ?P = "\<lambda>before s. map fst (bs_results s) = before \<and> w_used_memory W (bs_world s) = Inr (bs_prev_mem s)
    \<and> bs_prev_mem s = m0 + sum_list (map (tr_memory_bytes \<circ> snd) (bs_results s)) \<and> ?ok (bs_results s)"
  obtain s where s: "foldR (bench_type W configs ttl ?j) type_order ?start = Inr s"
    "results = bs_results s" "w' = bs_world s"
    using assms(2-5) by (auto simp: benchmark_instance_def result_simps)
  have "?P type_order s"
  proof (rule foldR_invariant[OF s(1), where P = ?P])
    show "?P [] ?start" using assms(4) by simp
  next
    fix before x rest t t'
    assume x: "type_order = before @ x # rest" and P: "?P before t"
      and step: "bench_type W configs ttl ?j x t = Inr t'"
    obtain r where r: "tr_type_name r = x" "bs_results t' = AList.update x r (bs_results t)"
      "tr_skipped r \<longleftrightarrow> skip_reason configs ?j x \<noteq> []" "tr_skip_reason r = skip_reason configs ?j x"
      "bs_prev_mem t' = bs_prev_mem t + tr_memory_bytes r" "w_used_memory W (bs_world t') = Inr (bs_prev_mem t')"
      using bench_type_Inr[OF step] P by blast
    have "x \<notin> set before" using x assms(1) by simp
    then have "x \<notin> fst ` set (bs_results t)" using P by (metis set_map)
    then have u: "bs_results t' = bs_results t @ [(x, r)]" using r(2) update_new by metis
    show "?P (before @ [x]) t'"
      using P r(1,3-6) unfolding u by simp
  qed
  with s(2,3) show ?thesis by simp
qed

text \<open>
  C11: One run accounts for all memory it saw: it reports every type once, in order, the types that
  are disabled, or JSON without the module, as skipped with that reason, and the memory used at the
  end is the memory after the flush plus the sum of the reported differences.
\<close>

theorem benchmark_accounts:
  assumes "distinct type_order" "w_info_server W w = Inr u" "w_flushall W w = Inr w0"
    and "w_used_memory W w0 = Inr m0" "benchmark_instance W configs type_order ttl w = Inr (results, w')"
  shows "map fst results = type_order
    \<and> w_used_memory W w' = Inr (m0 + sum_list (map (tr_memory_bytes \<circ> snd) results))
    \<and> (\<forall>t r. (t, r) \<in> set results \<longrightarrow> tr_type_name r = t
         \<and> tr_skip_reason r = skip_reason configs (check_module W w ''ReJSON'' \<or> check_module W w ''rejson'') t
         \<and> (tr_skipped r \<longleftrightarrow> tr_skip_reason r \<noteq> []))"
  using assms by (rule benchmark_names_memory)

lemma small_run:
  "benchmark_instance record_world
     [(''strings'', small_config), (''lists'', small_config\<lparr>cfg_enabled := False\<rparr>)]
     [''strings'', ''lists''] 60 []
   = Inr ([(''strings'', type_result_init ''strings'' 2 2 200 0 False []),
           (''lists'', skipped_result ''lists'' ''disabled'')],
         [CSet ''str:0'' ''a'' (Some 60), CSet ''str:1'' ''a'' (Some 60)])"
  by code_simp

theorem benchmark_accounts_witness:
  "w_used_memory record_world [CSet ''str:0'' ''a'' (Some 60), CSet ''str:1'' ''a'' (Some 60)]
     = Inr (0 + (200 + 0))"
proof -
  have "w_info_server record_world [] = Inr ()" "w_flushall record_world [] = Inr []"
    "w_used_memory record_world [] = Inr 0"
    by (simp_all add: record_world_def)
  from benchmark_accounts[OF _ this small_run] show ?thesis by simp
qed

text \<open>
  Where the server cannot be reached nothing is written and every type is reported as skipped
  because the connection failed; the program goes on to its report.
\<close>

theorem connection_failure_skips_all:
  assumes "distinct type_order" "w_info_server W w = Inl e"
  shows "benchmark_instance W configs type_order ttl w
    = Inr (map (\<lambda>t. (t, skipped_result t ''connection failed'')) type_order, w)"
  using assms by (simp add: benchmark_instance_def updates_new zip_map2 zip_same_conv_map comp_def)


section \<open>The sweep\<close>

lemma benchmark_names:
  assumes "distinct type_order" "benchmark_instance W configs type_order ttl w = Inr (results, w')"
  shows "map fst results = type_order"
proof (cases "w_info_server W w")
  case (Inl e)
  from connection_failure_skips_all[OF assms(1) Inl] assms(2) show ?thesis by (auto simp: comp_def)
next
  case (Inr u)
  obtain w0 m0 where "w_flushall W w = Inr w0" "w_used_memory W w0 = Inr m0"
    using assms(2) Inr by (auto simp: benchmark_instance_def result_simps)
  from benchmark_names_memory[OF assms(1) Inr this assms(2)] show ?thesis by blast
qed

text \<open>The results of the labels: which children counts they have, each with every type.\<close>

definition recorded ::
  "string list \<Rightarrow> string list \<Rightarrow> (string \<Rightarrow> int list) \<Rightarrow> (string \<times> (int \<times> results) list) list \<Rightarrow> bool" where
  "recorded labels type_order counts m \<longleftrightarrow> map fst m = labels
     \<and> (\<forall>l\<in>set labels. \<exists>bc. map_of m l = Some bc \<and> map fst bc = counts l
          \<and> (\<forall>c r. (c, r) \<in> set bc \<longrightarrow> map fst r = type_order))"

lemma sweep_server_recorded:
  assumes "distinct type_order" "label \<in> set labels" "children \<notin> set (counts label)"
    and "recorded labels type_order counts (ss_results s)"
    and "sweep_server configs type_order ttl children (label, W) s = Inr s'"
  shows "recorded labels type_order (counts(label := counts label @ [children])) (ss_results s')"
proof -
  obtain bc where bc: "map_of (ss_results s) label = Some bc" "map fst bc = counts label"
    "\<forall>c r. (c, r) \<in> set bc \<longrightarrow> map fst r = type_order"
    using assms(2,4) unfolding recorded_def by blast
  obtain results w where b: "benchmark_instance W configs type_order ttl (ss_world s) = Inr (results, w)"
    and s': "ss_results s' = AList.update label (AList.update children results bc) (ss_results s)"
    using assms(5) bc(1) by (auto simp: sweep_server_def result_simps lookupR_def)
  have names: "map fst results = type_order" by (rule benchmark_names[OF assms(1) b])
  have "children \<notin> fst ` set bc" using assms(3) bc(2) by (metis set_map)
  then have u: "AList.update children results bc = bc @ [(children, results)]" by (rule update_new)
  have "label \<in> fst ` set (ss_results s)" using bc(1) by (metis domI dom_map_of_conv_image_fst)
  then have k: "map fst (ss_results s') = labels"
    using assms(4) assms(2) unfolding s' recorded_def by (simp add: AList.update_keys)
  show ?thesis
    unfolding recorded_def
  proof (intro conjI ballI)
    show "map fst (ss_results s') = labels" by (rule k)
    fix l
    assume l: "l \<in> set labels"
    show "\<exists>bc. map_of (ss_results s') l = Some bc \<and> map fst bc = (counts(label := counts label @ [children])) l
        \<and> (\<forall>c r. (c, r) \<in> set bc \<longrightarrow> map fst r = type_order)"
    proof (cases "l = label")
      case True
      with bc names show ?thesis unfolding s' u by (auto simp: AList.update_conv')
    next
      case False
      with assms(4) l show ?thesis unfolding s' recorded_def by (simp add: AList.update_conv')
    qed
  qed
qed

lemma sweep_step_recorded:
  assumes "distinct type_order" "distinct (map fst servers)" "children \<notin> set before"
    and "recorded (map fst servers) type_order (\<lambda>_. before) (ss_results s)"
    and "sweep_step configs type_order ttl servers children s = Inr s'"
  shows "recorded (map fst servers) type_order (\<lambda>_. before @ [children]) (ss_results s')"
proof -
  let ?labels = "map fst servers"
  let ?c = "\<lambda>ran l. if l \<in> fst ` set ran then before @ [children] else before"
  have "recorded ?labels type_order (?c servers) (ss_results s')"
  proof (rule foldR_invariant[where P = "\<lambda>ran s. recorded ?labels type_order (?c ran) (ss_results s)"])
    show "foldR (sweep_server (children_configs children configs) type_order ttl children) servers s = Inr s'"
      using assms(5) by (simp add: sweep_step_def)
    show "recorded ?labels type_order (?c []) (ss_results s)" using assms(4) by simp
  next
    fix ran srv rest t t'
    assume x: "servers = ran @ srv # rest" and P: "recorded ?labels type_order (?c ran) (ss_results t)"
      and step: "sweep_server (children_configs children configs) type_order ttl children srv t = Inr t'"
    obtain l W where srv: "srv = (l, W)" by (cases srv)
    have l: "l \<in> set ?labels" "l \<notin> fst ` set ran" using x assms(2) by (auto simp: srv)
    have "recorded ?labels type_order ((?c ran)(l := ?c ran l @ [children])) (ss_results t')"
      by (rule sweep_server_recorded[OF assms(1) l(1) _ P step[unfolded srv]]) (use l(2) assms(3) in simp)
    moreover have "(?c ran)(l := ?c ran l @ [children]) = ?c (ran @ [srv])"
      using l(2) by (auto simp: fun_eq_iff srv)
    ultimately show "recorded ?labels type_order (?c (ran @ [srv])) (ss_results t')" by simp
  qed
  then show ?thesis unfolding recorded_def by auto
qed

text \<open>
  C28: A sweep that ends with a report, over servers with different labels, has a result for every
  server, under its label, for every children count of the sequence, in the order of the sequence,
  and in each of them one result per enabled type.
\<close>

theorem sweep_records_all:
  assumes "run_children_sweep args dragonfly redis max_children repeats w = Inr (Some out, w')"
    and "ma_redis_label args \<noteq> ''Dragonfly''" "1 \<le> max_children" "max_children < 2 ^ 53"
  shows "recorded (map fst (sweep_servers args dragonfly redis)) (so_types out) (\<lambda>_. so_sequence out)
    (so_results out)"
proof -
  let ?servers = "sweep_servers args dragonfly redis"
  obtain sequence configs type_order s where
    seq: "compute_children_sequence max_children (repeats ! 0)
       (if 1 < length repeats then Some (repeats ! 1) else None) = Inr sequence"
    and types: "enabled_types configs = Inr type_order"
    and loop: "foldR (sweep_step configs type_order (ma_ttl args) ?servers) sequence
       \<lparr>ss_world = w, ss_results = empty_sweep ?servers, ss_totals = []\<rparr> = Inr s"
    and out: "so_sequence out = sequence" "so_types out = type_order" "so_results out = ss_results s"
    using assms(1) unfolding run_children_sweep_def by (auto simp: result_simps Let_def split: if_splits)
  obtain s' where "compute_children_sequence max_children (repeats ! 0)
       (if 1 < length repeats then Some (repeats ! 1) else None) = Inr s'" "sorted_wrt (<) s'"
    using sequence_wellformed[OF assms(3,4)] by blast
  with seq have "distinct sequence" using strict_sorted_iff by auto
  have labels: "distinct (map fst ?servers)" using assms(2) by (simp add: sweep_servers_def)
  have dt: "distinct type_order" by (rule enabled_types_distinct[OF types])
  have start: "recorded (map fst ?servers) type_order (\<lambda>_. []) (empty_sweep ?servers)"
    using assms(2) by (simp add: recorded_def empty_sweep_def sweep_servers_def)
  have "recorded (map fst ?servers) type_order (\<lambda>_. sequence) (ss_results s)"
  proof (rule foldR_invariant[OF loop, where P = "\<lambda>before s. recorded (map fst ?servers) type_order
        (\<lambda>_. before) (ss_results s)"])
    show "recorded (map fst ?servers) type_order (\<lambda>_. [])
       (ss_results \<lparr>ss_world = w, ss_results = empty_sweep ?servers, ss_totals = []\<rparr>)"
      using start by simp
  next
    fix before x rest t t'
    assume x: "sequence = before @ x # rest"
      and P: "recorded (map fst ?servers) type_order (\<lambda>_. before) (ss_results t)"
      and step: "sweep_step configs type_order (ma_ttl args) ?servers x t = Inr t'"
    show "recorded (map fst ?servers) type_order (\<lambda>_. before @ [x]) (ss_results t')"
      by (rule sweep_step_recorded[OF dt labels _ P step]) (use x \<open>distinct sequence\<close> in simp)
  qed
  with out show ?thesis by simp
qed

definition sweep_args :: mem_args where
  "sweep_args = plain_args\<lparr>ma_types := Some [''lists''], ma_list_keys := Some 1\<rparr>"

lemma small_sweep:
  "case run_children_sweep sweep_args record_world record_world 2 [2] [] of
     Inr (Some out, w) \<Rightarrow> so_sequence out = [1, 2] \<and> so_types out = [''lists'']
   | _ \<Rightarrow> False"
  by code_simp

theorem sweep_records_all_witness:
  "\<exists>out w'. run_children_sweep sweep_args record_world record_world 2 [2] [] = Inr (Some out, w')
    \<and> recorded [''Dragonfly'', ''Redis/Valkey''] [''lists''] (\<lambda>_. [1, 2]) (so_results out)"
proof -
  obtain out w' where o: "run_children_sweep sweep_args record_world record_world 2 [2] [] = Inr (Some out, w')"
    "so_sequence out = [1, 2]" "so_types out = [''lists'']"
    using small_sweep by (auto split: sum.splits option.splits prod.splits)
  have "ma_redis_label sweep_args \<noteq> ''Dragonfly''"
    "map fst (sweep_servers sweep_args record_world record_world) = [''Dragonfly'', ''Redis/Valkey'']"
    by (simp_all add: sweep_servers_def sweep_args_def plain_args_def)
  with sweep_records_all[OF o(1)] o show ?thesis by simp
qed

text \<open>
  With both \<open>--dragonfly-only\<close> and \<open>--redis-only\<close> no server is left and the sweep ends with an
  IndexError where it picks the label of the first.
\<close>

lemma sweep_without_servers:
  assumes "ma_redis_only args" "ma_dragonfly_only args" "build_configs (args\<lparr>ma_container_children_count := None\<rparr>) = Inr configs"
    and "enabled_types configs = Inr types" "types \<noteq> []" "1 \<le> max_children" "max_children < 2 ^ 53" "repeats \<noteq> []"
  shows "run_children_sweep args dragonfly redis max_children repeats w = Inl IndexError"
proof -
  obtain s where "compute_children_sequence max_children (repeats ! 0)
       (if 1 < length repeats then Some (repeats ! 1) else None) = Inr s"
    using sequence_wellformed[OF assms(6,7)] by blast
  moreover have "foldR (sweep_step configs types ttl []) s t = Inr t" for t :: "'a sweep_state" and ttl s
    by (induction s) (simp_all add: sweep_step_def)
  ultimately show ?thesis
    using assms by (simp add: run_children_sweep_def sweep_servers_def Let_def)
qed

end
