(* ===== verification/Mem_Report_Spec.thy ===== *)
theory Mem_Report_Spec
  imports Mem_Report Mem_Bench_Spec
begin

text \<open>
  Facts about the reports: the sign of the savings, the shape and the totals of the comparison,
  the rows of a sweep, the digit groups, the progress bar, and which report the main flow prints.
\<close>

section \<open>Savings\<close>

lemma round64_neg:
  assumes "x < 0"
  shows "round64 x < 0"
proof -
  let ?u = "two_pow (expo x - 52)"
  have "?u \<le> two_pow (expo x)" by (rule two_pow_mono) simp
  also have "\<dots> \<le> \<bar>x\<bar>" using expo_bounds(1)[of x] assms by simp
  finally have "?u \<le> - x" using assms by simp
  then have "x / ?u \<le> - 1" by (simp add: pos_divide_le_eq)
  from round_half_even_mono[OF this] have "round_half_even (x / ?u) \<le> - 1"
    using round_half_even_of_int[of "- 1"] by simp
  then have "of_int (round_half_even (x / ?u)) * ?u < 0" by (intro mult_neg_pos) simp_all
  then show ?thesis using assms by (simp add: round64_def Let_def)
qed

lemma round64_pos: "0 < x \<Longrightarrow> 0 < round64 x"
  using round64_bounds(1)[of x] two_pow_pos[of "expo x"] by linarith

lemma round64_sign: "(0 < round64 x \<longleftrightarrow> 0 < x) \<and> (round64 x < 0 \<longleftrightarrow> x < 0)"
  using round64_pos[of x] round64_neg[of x]
  by (cases x "0 :: rat" rule: linorder_cases) (simp_all add: less_imp_not_less)

text \<open>
  The savings column has the sign of the true difference: it is positive exactly when the first
  server uses less memory and negative exactly when it uses more, however close the two are; the
  two float operations never round a difference away.
\<close>

theorem savings_sign:
  assumes "0 < a" "a < 2 ^ 53" "0 < b" "b < 2 ^ 53"
  shows "(0 < savings_pct a b \<longleftrightarrow> a < b) \<and> (savings_pct a b < 0 \<longleftrightarrow> b < a)"
proof -
  let ?q = "fdiv (of_int a) (of_int b)"
  have bp: "(0::rat) < of_int b" using assms(3) by simp
  have lt: "?q < 1" if "a < b"
    using quotient_gap(2)[of b a 1] assms that by simp
  have gt: "1 < ?q" if "b < a"
    using quotient_gap(1)[of b a 1] assms that by simp
  have eq: "?q = 1" if "a = b"
    using that assms(3) round64_of_int[of 1] by simp
  have s: "(0 < savings_pct a b \<longleftrightarrow> ?q < 1) \<and> (savings_pct a b < 0 \<longleftrightarrow> 1 < ?q)"
    using round64_sign[of "round64 (1 - ?q) * 100"] round64_sign[of "1 - ?q"]
    by (simp add: savings_pct_def zero_less_mult_iff mult_less_0_iff)
  from lt gt eq s show ?thesis by (cases a b rule: linorder_cases) auto
qed

theorem savings_sign_witness: "0 < savings_pct 9007199254740990 9007199254740991"
  using savings_sign[of 9007199254740990 9007199254740991] by simp


section \<open>The comparison\<close>

definition both_measured :: "results \<Rightarrow> results \<Rightarrow> string \<Rightarrow> bool" where
  "both_measured ra rb t = (case (map_of ra t, map_of rb t) of
     (Some a, Some b) \<Rightarrow> \<not> tr_skipped a \<and> \<not> tr_skipped b | _ \<Rightarrow> False)"

definition memory_of :: "results \<Rightarrow> string \<Rightarrow> int" where
  "memory_of r t = (case map_of r t of None \<Rightarrow> 0 | Some x \<Rightarrow> tr_memory_bytes x)"

definition total_of :: "results \<Rightarrow> results \<Rightarrow> results \<Rightarrow> string list \<Rightarrow> int" where
  "total_of r ra rb ts = sum_list (map (memory_of r) (filter (both_measured ra rb) ts))"

lemma row_shapes:
  "hd (compared_row t a b) = Txt t \<and> length (compared_row t a b) = 8"
  "hd (skipped_row t x y) = Txt t \<and> length (skipped_row t x y) = 8"
  by (simp_all add: compared_row_def skipped_row_def Let_def split: prod.split)

text \<open>The row of one type, and what the loop collects.\<close>

definition row_of :: "results \<Rightarrow> results \<Rightarrow> string \<Rightarrow> cell list" where
  "row_of ra rb t = (if both_measured ra rb t then compared_row t (the (map_of ra t)) (the (map_of rb t))
     else skipped_row t (map_of ra t) (map_of rb t))"

lemma compare_types_rows:
  "compare_types ra rb ts rows ta tb
     = (rows @ map (row_of ra rb) ts, ta + total_of ra ra rb ts, tb + total_of rb ra rb ts)"
proof (induction ts arbitrary: rows ta tb)
  case Nil
  show ?case by (simp add: total_of_def)
next
  case (Cons t ts)
  show ?case
  proof (cases "both_measured ra rb t")
    case True
    then obtain a b where "map_of ra t = Some a" "map_of rb t = Some b" "\<not> tr_skipped a" "\<not> tr_skipped b"
      by (auto simp: both_measured_def split: option.splits)
    with Cons True show ?thesis by (simp add: row_of_def total_of_def memory_of_def)
  next
    case False
    then have "compare_types ra rb (t # ts) rows ta tb
        = compare_types ra rb ts (rows @ [skipped_row t (map_of ra t) (map_of rb t)]) ta tb"
      by (auto simp: both_measured_def split: option.splits)
    with Cons False show ?thesis by (simp add: row_of_def total_of_def)
  qed
qed

lemma row_of_shape: "hd (row_of ra rb t) = Txt t \<and> length (row_of ra rb t) = 8"
  by (simp add: row_of_def row_shapes)

text \<open>
  The comparison has one row of eight cells per type, in the order of the types, and after them
  a totals row exactly when both totals are positive; the totals are the sums over the types that
  both servers measured, so a type only one of them measured never shifts the ratio.
\<close>

theorem comparison_shape:
  "(let total_a = total_of ra ra rb ts; total_b = total_of rb ra rb ts; rows = print_comparison ra rb ts
    in list_all (\<lambda>r. length r = 8) rows
       \<and> map hd rows = map Txt ts @ (if 0 < total_a \<and> 0 < total_b then [Txt ''TOTAL''] else [])
       \<and> (if 0 < total_a \<and> 0 < total_b
          then last rows ! 2 = Txt (mem_human_bytes total_a) \<and> last rows ! 4 = Txt (mem_human_bytes total_b)
            \<and> last rows ! 6 = Txt (signed_point 1 (savings_pct total_a total_b) @ ''%'')
          else length rows = length ts))"
  using row_of_shape[of ra rb]
  by (simp add: print_comparison_def compare_types_rows Let_def list_all_iff comp_def)


section \<open>The sweep\<close>

lemma progression_rows_append:
  "progression_rows data t cs p m rows = rows @ progression_rows data t cs p m []"
proof (induction cs arbitrary: p m rows)
  case Nil
  show ?case by simp
next
  case (Cons c cs)
  show ?case
    unfolding progression_rows.simps Let_def
    by (subst (1 2) Cons.IH) (subst (2 4) Cons.IH, simp)
qed

lemma progression_rows_nth:
  "length (progression_rows data t cs p m []) = length cs
   \<and> (\<forall>i<length cs. progression_rows data t cs p m [] ! i ! 0 = Txt (thousands (cs ! i))
        \<and> length (progression_rows data t cs p m [] ! i) = 5
        \<and> (progression_rows data t cs p m [] ! i = missing_row (cs ! i)
            \<longleftrightarrow> \<not> measured (sweep_result data t (cs ! i))))"
proof (induction cs arbitrary: p m)
  case Nil
  show ?case by simp
next
  case (Cons c cs)
  obtain row p' m' where e: "progression_rows data t (c # cs) p m []
      = row # progression_rows data t cs p' m' []"
    and row: "row ! 0 = Txt (thousands c)" "length row = 5"
      "row = missing_row c \<longleftrightarrow> \<not> measured (sweep_result data t c)"
  proof (cases "measured (sweep_result data t c)")
    case False
    then have "progression_rows data t (c # cs) p m []
        = missing_row c # progression_rows data t cs None m []"
      using progression_rows_append[of data t cs None m "[missing_row c]"] by simp
    with False that show ?thesis by (simp add: missing_row_def)
  next
    case True
    let ?r = "the (sweep_result data t c)"
    let ?m = "case m of None \<Rightarrow> tr_memory_bytes ?r | Some k \<Rightarrow> k"
    let ?M = "tr_memory_bytes ?r"
    let ?new = "\<lambda>x y. [Txt (thousands c), Txt (mem_human_bytes ?M),
           Txt (fixed_point 1 (tr_bytes_per_key ?r)), x, y]"
    have "\<exists>x y. progression_rows data t (c # cs) p m []
        = progression_rows data t cs (Some ?M) (Some ?m) [?new x y]"
      using True
      by (simp only: progression_rows.simps Let_def not_True_eq_False if_False append_Nil)
        (intro exI, rule refl)
    then obtain x y where "progression_rows data t (c # cs) p m []
        = progression_rows data t cs (Some ?M) (Some ?m) [?new x y]" by blast
    then have "progression_rows data t (c # cs) p m []
        = ?new x y # progression_rows data t cs (Some ?M) (Some ?m) []"
      using progression_rows_append[of data t cs "Some ?M" "Some ?m" "[?new x y]"] by simp
    with True that show ?thesis by (simp add: missing_row_def)
  qed
  show ?case
    unfolding e using row Cons.IH[of p' m'] by (auto simp: nth_Cons split: nat.splits)
qed

text \<open>
  The progression table of a type has one row of five cells for every children count, in order,
  labelled with the count, and a row is all dashes exactly for a count without a positive
  measurement.
\<close>

theorem progression_shape:
  "length (progression_rows data t sequence None None []) = length sequence
   \<and> (\<forall>i<length sequence. progression_rows data t sequence None None [] ! i ! 0 = Txt (thousands (sequence ! i))
        \<and> length (progression_rows data t sequence None None [] ! i) = 5
        \<and> (progression_rows data t sequence None None [] ! i = missing_row (sequence ! i)
            \<longleftrightarrow> \<not> measured (sweep_result data t (sequence ! i))))"
  by (rule progression_rows_nth)


section \<open>Digit groups and the progress bar\<close>

lemma group_digits_filter: "CHR '','' \<notin> set s \<Longrightarrow> filter (\<lambda>c. c \<noteq> CHR '','') (group_digits s) = s"
  by (induction s rule: group_digits.induct) auto

text \<open>
  Removing the commas from a number printed with thousands separators gives the number back.
\<close>

theorem thousands_roundtrip:
  "py_int (filter (\<lambda>c. c \<noteq> CHR '','') (thousands n)) = Inr n"
proof -
  have nc: "CHR '','' \<notin> set (py_str k)" for k by (rule py_str_no) (simp_all add: is_digit_def)
  have "filter (\<lambda>c. c \<noteq> CHR '','') (rev (group_digits (rev (py_str \<bar>n\<bar>)))) = py_str \<bar>n\<bar>"
    using group_digits_filter[of "rev (py_str \<bar>n\<bar>)"] nc[of "\<bar>n\<bar>"] by (simp add: rev_filter[symmetric])
  then have "filter (\<lambda>c. c \<noteq> CHR '','') (thousands n) = py_str n"
    by (simp add: thousands_def py_str_def)
  then show ?thesis by simp
qed

text \<open>
  The progress bar never leaves its width: between nothing and everything done, the filled cells
  lie between zero and the width.
\<close>

theorem progress_bar_bounds:
  assumes "0 \<le> current" "current \<le> n_total" "n_total < 2 ^ 53" "0 \<le> width" "width < 2 ^ 53"
  shows "0 \<le> fst (progress_bar current n_total width)
    \<and> fst (progress_bar current n_total width) \<le> width"
proof -
  let ?pct = "if n_total \<noteq> 0 then fdiv (of_int current) (of_int n_total) else 1 :: rat"
  have p: "0 \<le> ?pct" "?pct \<le> 1"
  proof -
    have q: "0 \<le> of_int current / (of_int n_total :: rat)" "of_int current / (of_int n_total :: rat) \<le> 1" if "n_total \<noteq> 0"
      using assms(1,2) that by (simp_all add: divide_le_eq_1)
    show "0 \<le> ?pct" using q(1) by (simp add: round64_nonneg)
    show "?pct \<le> 1" using q round64_le_int[of "of_int current / of_int n_total" 1] by simp
  qed
  let ?x = "fmul (of_int width) ?pct"
  have wp: "0 \<le> (of_int width :: rat) * ?pct"
    using p(1) assms(4) by (intro mult_nonneg_nonneg) simp_all
  have "of_int width * ?pct \<le> of_int width * 1"
    using p(2) assms(4) by (intro mult_left_mono) simp_all
  then have "?x \<le> of_int width"
    by (intro round64_le_int[OF wp]) (use assms(4,5) in simp_all)
  then have "\<lfloor>?x\<rfloor> \<le> width" by (simp add: floor_le_iff)
  moreover have "0 \<le> ?x" by (rule round64_nonneg[OF wp])
  ultimately show ?thesis by (simp add: progress_bar_def Let_def)
qed

theorem progress_bar_bounds_witness: "fst (progress_bar 3 7 40) \<le> 40"
  using progress_bar_bounds[of 3 7 40] by simp


section \<open>The main flow\<close>

text \<open>
  With both \<open>--dragonfly-only\<close> and \<open>--redis-only\<close> the program benchmarks nothing, leaves every
  server untouched and ends without a report and without an error.
\<close>

theorem both_only_flags:
  assumes "ma_dragonfly_only args" "ma_redis_only args" "ma_repeat args = None"
    and "build_configs args = Inr configs" "enabled_types configs = Inr types" "types \<noteq> []"
  shows "mem_main args dragonfly redis w = Inr (NoReport, w)"
  using assms by (simp add: mem_main_def)

text \<open>
  What a reader takes from the comparison. The savings cell has a minus sign exactly when the first server uses
  more memory. A row of a type shows the number of keys and the memory of both servers, or why it was skipped,
  and no ratio where a server has not measured a positive amount.
\<close>

definition sign_right :: "int \<Rightarrow> int \<Rightarrow> cell \<Rightarrow> bool" where
  "sign_right a b cell \<longleftrightarrow> (\<exists>s. cell = Txt (s @ ''%'') \<and> s \<noteq> [] \<and> (hd s = CHR ''-'' \<longleftrightarrow> b < a))"

definition row_right :: "string \<Rightarrow> type_result \<Rightarrow> type_result \<Rightarrow> cell list \<Rightarrow> bool" where
  "row_right t a b row \<longleftrightarrow> length row = 8 \<and> row ! 0 = Txt t
     \<and> (if tr_skipped a \<or> tr_skipped b
        then row ! 6 = Txt (''skipped ('' @ (if tr_skipped a then tr_skip_reason a else tr_skip_reason b) @ '')'')
        else (\<exists>s. row ! 1 = Txt s \<and> py_int (filter (\<lambda>c. c \<noteq> CHR '','') s) = Inr (tr_num_keys a))
          \<and> (0 \<le> tr_memory_bytes a \<longrightarrow> row ! 2 = Txt (mem_human_bytes (tr_memory_bytes a)))
          \<and> (0 \<le> tr_memory_bytes b \<longrightarrow> row ! 4 = Txt (mem_human_bytes (tr_memory_bytes b)))
          \<and> (if 0 < tr_memory_bytes a \<and> 0 < tr_memory_bytes b
             then tr_memory_bytes a < 2 ^ 53 \<and> tr_memory_bytes b < 2 ^ 53
               \<longrightarrow> sign_right (tr_memory_bytes a) (tr_memory_bytes b) (row ! 6)
             else row ! 7 = Txt ''N/A''))"

lemma signed_point_right:
  assumes "0 < a" "a < 2 ^ 53" "0 < b" "b < 2 ^ 53"
  shows "sign_right a b (Txt (signed_point 1 (savings_pct a b) @ ''%''))"
  using savings_sign[OF assms] by (auto simp: sign_right_def signed_point_def intro!: exI[of _ "signed_point 1 (savings_pct a b)"])

lemma row_of_right:
  assumes "map_of ra t = Some a" "map_of rb t = Some b"
  shows "row_right t a b (row_of ra rb t)"
proof (cases "tr_skipped a \<or> tr_skipped b")
  case True
  then have "row_of ra rb t = skipped_row t (Some a) (Some b)" using assms by (auto simp: row_of_def both_measured_def)
  with True show ?thesis by (auto simp: row_right_def skipped_row_def Let_def)
next
  case False
  then have r: "row_of ra rb t = compared_row t a b" using assms by (simp add: row_of_def both_measured_def)
  have k: "\<exists>s. Txt (thousands n) = Txt s \<and> py_int (filter (\<lambda>c. c \<noteq> CHR '','') s) = Inr n" for n
    by (intro exI[of _ "thousands n"] conjI refl thousands_roundtrip)
  show ?thesis
    using False k[of "tr_num_keys a"] signed_point_right[of "tr_memory_bytes a" "tr_memory_bytes b"]
    unfolding r row_right_def compared_row_def Let_def by auto
qed

text \<open>The growth of a server's memory over its run, when it could be reached.\<close>

definition grew_by :: "'w mem_world \<Rightarrow> 'w \<Rightarrow> 'w \<Rightarrow> int \<Rightarrow> bool" where
  "grew_by W w w' n \<longleftrightarrow> (\<forall>u w0 m0. w_info_server W w = Inr u \<and> w_flushall W w = Inr w0 \<and> w_used_memory W w0 = Inr m0
     \<longrightarrow> w_used_memory W w' = Inr (m0 + n))"

lemma run_grew_by:
  assumes "distinct types" "benchmark_instance W configs types ttl w = Inr (results, w')"
    and "list_all (both_measured ra rb) types" "results = ra \<or> results = rb"
  shows "grew_by W w w' (total_of results ra rb types)"
  unfolding grew_by_def
proof (intro allI impI)
  fix u w0 m0
  assume "w_info_server W w = Inr u \<and> w_flushall W w = Inr w0 \<and> w_used_memory W w0 = Inr m0"
  then have B: "map fst results = types" "w_used_memory W w' = Inr (m0 + sum_list (map (tr_memory_bytes \<circ> snd) results))"
    using benchmark_names_memory[OF assms(1) _ _ _ assms(2)] by blast+
  have "memory_of results t = tr_memory_bytes r" if "(t, r) \<in> set results" for t r
    using that assms(1) unfolding B(1)[symmetric] by (simp add: memory_of_def)
  then have "map (memory_of results) types = map (tr_memory_bytes \<circ> snd) results"
    unfolding B(1)[symmetric] by (auto simp: comp_def)
  moreover have "filter (both_measured ra rb) types = types" using assms(3) by (simp add: list_all_iff)
  ultimately show "w_used_memory W w' = Inr (m0 + total_of results ra rb types)" using B(2) by (simp add: total_of_def)
qed

lemma mem_main_both:
  assumes "\<not> ma_dragonfly_only args" "\<not> ma_redis_only args" "ma_repeat args = None"
    and "mem_main args dragonfly redis w = Inr (rep, w')" "\<forall>msg. rep \<noteq> ExitError msg"
  shows "\<exists>configs types a w1 b. build_configs args = Inr configs \<and> enabled_types configs = Inr types
    \<and> benchmark_instance dragonfly configs types (ma_ttl args) w = Inr (a, w1)
    \<and> benchmark_instance redis configs types (ma_ttl args) w1 = Inr (b, w')
    \<and> rep = Comparison (print_comparison a b types)"
  using assms by (auto simp: mem_main_def result_simps split: if_splits)

text \<open>
  C37: A run against both servers that ends normally compares them truly. The second server is measured after
  the first, in the world it left; the report has one row per enabled type, in order, with the figures both servers
  measured for it and a savings cell whose sign is that of the exact difference; the totals row is there exactly when both
  totals are positive and has their figures and sign. Where no type was skipped the totals are the growth of each server's
  memory from its flush to the end of its run.
\<close>

theorem both_servers_compared:
  assumes "\<not> ma_dragonfly_only args" "\<not> ma_redis_only args" "ma_repeat args = None"
    and "mem_main args dragonfly redis w = Inr (rep, w')" "\<forall>msg. rep \<noteq> ExitError msg"
  shows "\<exists>configs types a w1 b rows total_row. build_configs args = Inr configs \<and> enabled_types configs = Inr types
    \<and> benchmark_instance dragonfly configs types (ma_ttl args) w = Inr (a, w1)
    \<and> benchmark_instance redis configs types (ma_ttl args) w1 = Inr (b, w')
    \<and> rep = Comparison (rows @ total_row)
    \<and> list_all2 (\<lambda>t row. \<exists>ra rb. map_of a t = Some ra \<and> map_of b t = Some rb \<and> row_right t ra rb row) types rows
    \<and> (let total_a = total_of a a b types; total_b = total_of b a b types
       in (if 0 < total_a \<and> 0 < total_b
           then \<exists>row. total_row = [row] \<and> row ! 0 = Txt ''TOTAL'' \<and> row ! 2 = Txt (mem_human_bytes total_a)
             \<and> row ! 4 = Txt (mem_human_bytes total_b)
             \<and> (total_a < 2 ^ 53 \<and> total_b < 2 ^ 53 \<longrightarrow> sign_right total_a total_b (row ! 6))
           else total_row = [])
          \<and> (list_all (both_measured a b) types \<longrightarrow> grew_by dragonfly w w1 total_a \<and> grew_by redis w1 w' total_b))"
proof -
  obtain configs types a w1 b where run: "build_configs args = Inr configs" "enabled_types configs = Inr types"
    "benchmark_instance dragonfly configs types (ma_ttl args) w = Inr (a, w1)"
    "benchmark_instance redis configs types (ma_ttl args) w1 = Inr (b, w')"
    "rep = Comparison (print_comparison a b types)" using mem_main_both[OF assms] by blast
  have dt: "distinct types" by (rule enabled_types_distinct[OF run(2)])
  note names = benchmark_names[OF dt run(3)] benchmark_names[OF dt run(4)]
  let ?rows = "map (row_of a b) types" and ?ta = "total_of a a b types" and ?tb = "total_of b a b types"
  let ?tot = "if 0 < ?ta \<and> 0 < ?tb then [[Txt ''TOTAL'', Dash, Txt (mem_human_bytes ?ta), Dash, Txt (mem_human_bytes ?tb), Dash,
    Txt (signed_point 1 (savings_pct ?ta ?tb) @ ''%''), Txt (fixed_point 2 (memory_ratio ?ta ?tb) @ ''x'')]] else []"
  have "\<exists>ra rb. map_of a t = Some ra \<and> map_of b t = Some rb \<and> row_right t ra rb (row_of a b t)" if "t \<in> set types" for t
  proof -
    obtain ra rb where "map_of a t = Some ra" "map_of b t = Some rb"
      using \<open>t \<in> set types\<close> names by (metis map_of_eq_None_iff not_None_eq set_map)
    then show ?thesis using row_of_right by blast
  qed
  then have rows: "list_all2 (\<lambda>t row. \<exists>ra rb. map_of a t = Some ra \<and> map_of b t = Some rb \<and> row_right t ra rb row) types ?rows"
    by (simp add: list_all2_conv_all_nth)
  have rep: "rep = Comparison (?rows @ ?tot)" by (simp add: run(5) print_comparison_def compare_types_rows)
  have "list_all (both_measured a b) types \<Longrightarrow> grew_by dragonfly w w1 ?ta \<and> grew_by redis w1 w' ?tb"
    using run_grew_by[OF dt run(3)] run_grew_by[OF dt run(4)] by blast
  moreover have "if 0 < ?ta \<and> 0 < ?tb
      then \<exists>row. ?tot = [row] \<and> row ! 0 = Txt ''TOTAL'' \<and> row ! 2 = Txt (mem_human_bytes ?ta)
        \<and> row ! 4 = Txt (mem_human_bytes ?tb) \<and> (?ta < 2 ^ 53 \<and> ?tb < 2 ^ 53 \<longrightarrow> sign_right ?ta ?tb (row ! 6))
      else ?tot = []"
    using signed_point_right[of ?ta ?tb] by (simp del: One_nat_def)
  ultimately show ?thesis
    unfolding Let_def using run(1-4) rep rows
    by (rule_tac exI[of _ configs], rule_tac exI[of _ types], rule_tac exI[of _ a], rule_tac exI[of _ w1], rule_tac exI[of _ b],
      rule_tac exI[of _ ?rows], rule_tac exI[of _ ?tot]) blast
qed

definition both_args :: mem_args where
  "both_args = plain_args\<lparr>ma_types := Some [''lists''], ma_list_keys := Some 1, ma_list_elements := Some 1\<rparr>"

lemma both_run:
  "case mem_main both_args record_world record_world [] of
     Inr (Comparison rows, w) \<Rightarrow> length rows = 2
   | _ \<Rightarrow> False"
  by code_simp

theorem both_servers_compared_witness:
  "\<exists>row total_row w' ra rb. mem_main both_args record_world record_world [] = Inr (Comparison [row, total_row], w')
    \<and> row_right ''lists'' ra rb row \<and> total_row ! 0 = Txt ''TOTAL''"
proof -
  obtain rows w' where r: "mem_main both_args record_world record_world [] = Inr (Comparison rows, w')" "length rows = 2"
    using both_run by (auto split: sum.splits prod.splits report.splits)
  have f: "\<not> ma_dragonfly_only both_args" "\<not> ma_redis_only both_args" "ma_repeat both_args = None"
    by (simp_all add: both_args_def plain_args_def)
  have "\<forall>msg. Comparison rows \<noteq> ExitError msg" by simp
  from both_servers_compared[OF f r(1) this] obtain configs types a b rs tot where t:
    "build_configs both_args = Inr configs" "enabled_types configs = Inr types" "Comparison rows = Comparison (rs @ tot)"
    "list_all2 (\<lambda>t row. \<exists>ra rb. map_of a t = Some ra \<and> map_of b t = Some rb \<and> row_right t ra rb row) types rs"
    "tot = [] \<or> (\<exists>row. tot = [row] \<and> row ! 0 = Txt ''TOTAL'')"
    unfolding Let_def by (elim exE conjE) (rule that, assumption+, metis)
  have "bindR (build_configs both_args) enabled_types = Inr [''lists'']" by code_simp
  then have "types = [''lists'']" using t(1,2) by simp
  with t(4) obtain row ra rb where "rs = [row]" "row_right ''lists'' ra rb row" by (auto simp: list_all2_Cons1)
  moreover from this t(3,5) r(2) obtain total_row where "tot = [total_row]" "total_row ! 0 = Txt ''TOTAL''" by auto
  ultimately show ?thesis using r(1) t(3) by auto
qed

theorem both_only_flags_witness:
  "mem_main (plain_args\<lparr>ma_types := Some [''lists''], ma_dragonfly_only := True, ma_redis_only := True\<rparr>)
     record_world record_world [] = Inr (NoReport, [])"
proof -
  let ?args = "plain_args\<lparr>ma_types := Some [''lists''], ma_dragonfly_only := True, ma_redis_only := True\<rparr>"
  have b: "build_configs ?args
      = Inr (map (\<lambda>n. (n, config_table ?args (\<lambda>n. cfg_num_keys (default_of n)) n)) names)"
    by (rule build_configs_eq) (simp add: scaled_count_def plain_args_def)
  have t: "enabled_types (map (\<lambda>n. (n, config_table ?args (\<lambda>n. cfg_num_keys (default_of n)) n)) names)
      = Inr [''lists'']"
    unfolding enabled_types_eq[OF refl]
    by (simp add: names_simps config_table_def table_enabled_def plain_args_def)
  show ?thesis
    by (rule both_only_flags[OF _ _ _ b t]) (simp_all add: plain_args_def)
qed

end
