(* ===== verification/Snack_Bar.thy ===== *)
theory Snack_Bar
  imports Float64
begin

text \<open>
  \<open>fast_api_snack_bar/app\<close>: the leaderboard (\<open>leaderboard.py\<close>), the rate-limited sale and the
  other handlers (\<open>main.py\<close>) and the background worker (\<open>worker.py\<close>).

  The sorted set, the rate limiter and the clock belong to the server and to packages outside the
  repository. \<open>snack_api\<close> has the operations the code calls, over a state \<open>'w\<close>; \<open>snack_laws\<close> is what
  it relies on. The web framework hands a request to its handler and is not modelled.
\<close>

section \<open>The interface\<close>

record rate =
  rate_limit :: int
  rate_window :: int

record 'w snack_api =
  sb_per_second :: "int \<Rightarrow> rate"
  sb_hit :: "'w \<Rightarrow> string \<Rightarrow> int \<Rightarrow> int \<Rightarrow> string \<Rightarrow> (bool \<times> int) \<times> 'w"
  sb_zincrby :: "'w \<Rightarrow> string \<Rightarrow> int \<Rightarrow> string \<Rightarrow> 'w"
  sb_zmscore :: "'w \<Rightarrow> string \<Rightarrow> string list \<Rightarrow> int option list"
  sb_sleep :: "'w \<Rightarrow> rat \<Rightarrow> 'w"

text \<open>An answer, or the \<open>HTTPException\<close> with its status and the snack its detail names.\<close>

datatype 'a http = HttpOk 'a | HttpError int string


section \<open>leaderboard.py\<close>

definition LEADERBOARD_KEY :: string where
  "LEADERBOARD_KEY = ''snacks_sold''"

definition SNACK_RATES :: "'w snack_api \<Rightarrow> (string \<times> rate) list" where
  "SNACK_RATES api =
     [(''Apples'', sb_per_second api 1), (''Bananas'', sb_per_second api 2),
      (''Ice-Cream'', sb_per_second api 10)]"

definition record_sale :: "'w snack_api \<Rightarrow> 'w \<Rightarrow> string \<Rightarrow> 'w" where
  "record_sale api w snack = sb_zincrby api w LEADERBOARD_KEY 1 snack"

text \<open>\<open>rows.sort(key=..., reverse=True)\<close> keeps the order of equal rows.\<close>

definition read_leaderboard :: "'w snack_api \<Rightarrow> 'w \<Rightarrow> (string \<times> int) list" where
  "read_leaderboard api w =
     (let snacks = map fst (SNACK_RATES api);
          scores = sb_zmscore api w LEADERBOARD_KEY snacks;
          rows = map (\<lambda>(snack, score). (snack, case score of None \<Rightarrow> 0 | Some n \<Rightarrow> n)) (zip snacks scores)
      in sort_key (\<lambda>row. - snd row) rows)"


section \<open>main.py\<close>

record sale =
  sale_snack :: string
  sale_sold :: bool
  sale_remaining :: int

definition sell :: "'w snack_api \<Rightarrow> string \<Rightarrow> 'w \<Rightarrow> sale http \<times> 'w" where
  "sell api snack w =
     (case map_of (SNACK_RATES api) snack of
        None \<Rightarrow> (HttpError 404 snack, w)
      | Some rate \<Rightarrow>
          (let ((allowed, remaining), w1) =
                 sb_hit api w ''worker'' (rate_limit rate) (rate_window rate) (''sell:'' @ snack);
               w2 = (if allowed then record_sale api w1 snack else w1)
           in (HttpOk \<lparr>sale_snack = snack, sale_sold = allowed, sale_remaining = remaining\<rparr>, w2)))"

definition get_leaderboard :: "'w snack_api \<Rightarrow> 'w \<Rightarrow> (string \<times> int) list" where
  "get_leaderboard api w = read_leaderboard api w"

text \<open>
  \<open>_apply_uri_arg\<close>: \<open>uri\<close> is the parsed \<open>-uri\<close> option, \<open>scheme\<close> is \<open>urlparse(uri).scheme\<close> and
  the environment a map.
\<close>

definition apply_uri_arg ::
  "(string \<Rightarrow> string) \<Rightarrow> string option \<Rightarrow> (string \<rightharpoonup> string) \<Rightarrow> (string \<rightharpoonup> string)" where
  "apply_uri_arg scheme uri env =
     (case uri of
        None \<Rightarrow> env
      | Some u \<Rightarrow>
          if u = [] then env
          else (let env1 = env(''REDIS_URL'' \<mapsto> u)
                in if scheme u = ''rediss'' then env1(''REDIS_SSL'' \<mapsto> ''true'') else env1))"


section \<open>worker.py\<close>

definition TICK_SECONDS :: rat where
  "TICK_SECONDS = round64 (5 / 100)"

text \<open>What the worker and other clients do to the state, one event at a time.\<close>

datatype sb_event = ESell string | ESleep rat

fun sb_step :: "'w snack_api \<Rightarrow> sb_event \<Rightarrow> 'w \<Rightarrow> 'w" where
  "sb_step api (ESell snack) w = snd (sell api snack w)"
| "sb_step api (ESleep d) w = sb_sleep api w d"

fun sb_run :: "'w snack_api \<Rightarrow> sb_event list \<Rightarrow> 'w \<Rightarrow> 'w" where
  "sb_run api [] w = w"
| "sb_run api (e # es) w = sb_run api es (sb_step api e w)"

definition worker_tick :: "'w snack_api \<Rightarrow> sb_event list" where
  "worker_tick api = map (\<lambda>(snack, _). ESell snack) (SNACK_RATES api) @ [ESleep TICK_SECONDS]"

text \<open>The first \<open>k\<close> turns of the worker's endless loop.\<close>

fun run_worker :: "'w snack_api \<Rightarrow> nat \<Rightarrow> 'w \<Rightarrow> 'w" where
  "run_worker api 0 w = w"
| "run_worker api (Suc k) w = run_worker api k (sb_run api (worker_tick api) w)"

text \<open>How many of the sales of a snack were answered with \<open>sold\<close>.\<close>

fun sales :: "'w snack_api \<Rightarrow> string \<Rightarrow> sb_event list \<Rightarrow> 'w \<Rightarrow> int" where
  "sales api snack [] w = 0"
| "sales api snack (e # es) w =
     (case e of
        ESell s \<Rightarrow> (case fst (sell api s w) of
            HttpOk r \<Rightarrow> if s = snack \<and> sale_sold r then 1 else 0
          | HttpError _ _ \<Rightarrow> 0)
      | ESleep _ \<Rightarrow> 0) + sales api snack es (sb_step api e w)"


section \<open>What the code relies on\<close>

text \<open>
  Documented behaviour of the sorted set and of a limiter with fixed windows, seen through
  the score of a member, the hits a scope has used up in the current window, and the clock: a hit
  is allowed while the scope has used less than its limit and then uses one up; a pause lasts at
  least as long as asked and the used-up hits are forgotten when it ends in another window. Windows are the
  whole seconds of the clock, and hits are counted by scope alone: the program uses a single identifier.
\<close>

definition snack_laws ::
  "'w snack_api \<Rightarrow> ('w \<Rightarrow> string \<Rightarrow> int) \<Rightarrow> ('w \<Rightarrow> string \<Rightarrow> int) \<Rightarrow> ('w \<Rightarrow> rat) \<Rightarrow> bool" where
  "snack_laws api score used now \<longleftrightarrow>
     (\<forall>n. sb_per_second api n = \<lparr>rate_limit = n, rate_window = 1\<rparr>)
     \<and> (\<forall>w ms. map (\<lambda>x. case x of None \<Rightarrow> 0 | Some n \<Rightarrow> n) (sb_zmscore api w LEADERBOARD_KEY ms) = map (score w) ms)
     \<and> (\<forall>w d m. score (sb_zincrby api w LEADERBOARD_KEY d m) = (score w)(m := score w m + d)
          \<and> used (sb_zincrby api w LEADERBOARD_KEY d m) = used w
          \<and> now (sb_zincrby api w LEADERBOARD_KEY d m) = now w)
     \<and> (\<forall>w i l s. let ((ok, remaining), w') = sb_hit api w i l 1 s
          in (ok \<longleftrightarrow> used w s < l) \<and> used w' = (used w)(s := used w s + (if ok then 1 else 0))
             \<and> score w' = score w \<and> now w' = now w)
     \<and> (\<forall>w d. 0 \<le> d \<longrightarrow> score (sb_sleep api w d) = score w \<and> now w + d \<le> now (sb_sleep api w d)
          \<and> used (sb_sleep api w d) = (if \<lfloor>now (sb_sleep api w d)\<rfloor> = \<lfloor>now w\<rfloor> then used w else (\<lambda>_. 0)))"

lemma snack_lawsD:
  assumes "snack_laws api score used now"
  shows "sb_per_second api n = \<lparr>rate_limit = n, rate_window = 1\<rparr>"
    and "map (\<lambda>x. case x of None \<Rightarrow> 0 | Some n \<Rightarrow> n) (sb_zmscore api w LEADERBOARD_KEY ms) = map (score w) ms"
    and "score (sb_zincrby api w LEADERBOARD_KEY d m) = (score w)(m := score w m + d)"
    and "used (sb_zincrby api w LEADERBOARD_KEY d m) = used w"
    and "now (sb_zincrby api w LEADERBOARD_KEY d m) = now w"
    and "sb_hit api w i l 1 s = ((ok, remaining), w') \<Longrightarrow> ok \<longleftrightarrow> used w s < l"
    and "sb_hit api w i l 1 s = ((ok, remaining), w') \<Longrightarrow>
      used w' = (used w)(s := used w s + (if ok then 1 else 0))"
    and "sb_hit api w i l 1 s = ((ok, remaining), w') \<Longrightarrow> score w' = score w"
    and "sb_hit api w i l 1 s = ((ok, remaining), w') \<Longrightarrow> now w' = now w"
    and "0 \<le> q \<Longrightarrow> score (sb_sleep api w q) = score w"
    and "0 \<le> q \<Longrightarrow> now w + q \<le> now (sb_sleep api w q)"
    and "0 \<le> q \<Longrightarrow> used (sb_sleep api w q) = (if \<lfloor>now (sb_sleep api w q)\<rfloor> = \<lfloor>now w\<rfloor> then used w else (\<lambda>_. 0))"
proof -
  note L = assms[unfolded snack_laws_def]
  from L show "sb_per_second api n = \<lparr>rate_limit = n, rate_window = 1\<rparr>" by blast
  from L show "map (\<lambda>x. case x of None \<Rightarrow> 0 | Some n \<Rightarrow> n) (sb_zmscore api w LEADERBOARD_KEY ms) = map (score w) ms"
    by (elim conjE allE)
  from L show "score (sb_zincrby api w LEADERBOARD_KEY d m) = (score w)(m := score w m + d)"
    "used (sb_zincrby api w LEADERBOARD_KEY d m) = used w" "now (sb_zincrby api w LEADERBOARD_KEY d m) = now w"
    by blast+
  from L have hit: "let ((ok, remaining), w') = sb_hit api w i l 1 s
      in (ok \<longleftrightarrow> used w s < l) \<and> used w' = (used w)(s := used w s + (if ok then 1 else 0))
         \<and> score w' = score w \<and> now w' = now w" by blast
  show "ok \<longleftrightarrow> used w s < l" "used w' = (used w)(s := used w s + (if ok then 1 else 0))"
    "score w' = score w" "now w' = now w" if "sb_hit api w i l 1 s = ((ok, remaining), w')"
    using hit unfolding that by simp_all
  from L have "0 \<le> q \<longrightarrow> score (sb_sleep api w q) = score w \<and> now w + q \<le> now (sb_sleep api w q)
      \<and> used (sb_sleep api w q) = (if \<lfloor>now (sb_sleep api w q)\<rfloor> = \<lfloor>now w\<rfloor> then used w else (\<lambda>_. 0))"
    by blast
  then show "score (sb_sleep api w q) = score w" "now w + q \<le> now (sb_sleep api w q)"
    "used (sb_sleep api w q) = (if \<lfloor>now (sb_sleep api w q)\<rfloor> = \<lfloor>now w\<rfloor> then used w else (\<lambda>_. 0))" if "0 \<le> q"
    using that by blast+
qed

text \<open>The limit of a snack; a snack that is not in the registry has none.\<close>

definition snack_limit :: "string \<Rightarrow> int option" where
  "snack_limit snack = map_of [(''Apples'', 1), (''Bananas'', 2), (''Ice-Cream'', 10)] snack"

definition scope_of :: "string \<Rightarrow> string" where
  "scope_of snack = ''sell:'' @ snack"

lemma scope_of_inject [simp]: "scope_of a = scope_of b \<longleftrightarrow> a = b"
  by (simp add: scope_of_def)

text \<open>One sale, on every branch.\<close>

lemma sell_cases:
  assumes "snack_laws api score used now"
  obtains (unknown) "snack_limit snack = None" "sell api snack w = (HttpError 404 snack, w)"
    | (sold) limit remaining w' where "snack_limit snack = Some limit" "used w (scope_of snack) < limit"
        "sell api snack w = (HttpOk \<lparr>sale_snack = snack, sale_sold = True, sale_remaining = remaining\<rparr>, w')"
        "score w' = (score w)(snack := score w snack + 1)"
        "used w' = (used w)(scope_of snack := used w (scope_of snack) + 1)" "now w' = now w"
    | (refused) limit remaining w' where "snack_limit snack = Some limit" "limit \<le> used w (scope_of snack)"
        "sell api snack w = (HttpOk \<lparr>sale_snack = snack, sale_sold = False, sale_remaining = remaining\<rparr>, w')"
        "score w' = score w" "used w' = used w" "now w' = now w"
proof -
  note L = snack_lawsD[OF assms]
  have m: "map_of (SNACK_RATES api) snack = map_option (\<lambda>n. \<lparr>rate_limit = n, rate_window = 1\<rparr>) (snack_limit snack)"
    by (simp add: SNACK_RATES_def snack_limit_def L(1))
  show ?thesis
  proof (cases "snack_limit snack")
    case None
    then show ?thesis using m unknown by (simp add: sell_def)
  next
    case (Some limit)
    obtain ok remaining w1 where h: "sb_hit api w ''worker'' limit 1 (''sell:'' @ snack) = ((ok, remaining), w1)"
      by (metis prod.collapse)
    note H = L(6-9)[OF h]
    show ?thesis
    proof (cases ok)
      case True
      then show ?thesis using m Some h H sold[of limit remaining "record_sale api w1 snack"]
        by (simp add: sell_def record_sale_def scope_of_def L(3-5))
    next
      case False
      then show ?thesis using m Some h H refused[of limit remaining w1]
        by (simp add: sell_def scope_of_def fun_upd_idem)
    qed
  qed
qed

definition pauses_ok :: "sb_event list \<Rightarrow> bool" where
  "pauses_ok es \<longleftrightarrow> list_all (\<lambda>e. case e of ESell _ \<Rightarrow> True | ESleep d \<Rightarrow> 0 \<le> d) es"

lemma pauses_ok_simps [simp]:
  "pauses_ok []"
  "pauses_ok (ESell s # es) \<longleftrightarrow> pauses_ok es"
  "pauses_ok (ESleep d # es) \<longleftrightarrow> 0 \<le> d \<and> pauses_ok es"
  by (simp_all add: pauses_ok_def)


section \<open>Sales and the leaderboard\<close>

lemma score_counts_sales:
  assumes "snack_laws api score used now" "pauses_ok es"
  shows "score (sb_run api es w) snack = score w snack + sales api snack es w"
  using assms(2)
proof (induction es arbitrary: w)
  case Nil
  show ?case by simp
next
  case (Cons e es)
  show ?case
  proof (cases e)
    case (ESell s)
    with Cons.prems have IH: "score (sb_run api es (snd (sell api s w))) snack
        = score (snd (sell api s w)) snack + sales api snack es (snd (sell api s w))"
      by (intro Cons.IH) simp
    show ?thesis
      by (cases rule: sell_cases[OF assms(1), of s w]) (use ESell IH in auto)
  next
    case (ESleep d)
    with Cons show ?thesis using snack_lawsD(10)[OF assms(1), of d w] by simp
  qed
qed

lemma leaderboard_scores:
  assumes "snack_laws api score used now"
  shows "read_leaderboard api w = sort_key (\<lambda>row. - snd row)
    (map (\<lambda>snack. (snack, score w snack)) [''Apples'', ''Bananas'', ''Ice-Cream''])"
proof -
  let ?snacks = "[''Apples'', ''Bananas'', ''Ice-Cream'']"
  have keys: "map fst (SNACK_RATES api) = ?snacks" by (simp add: SNACK_RATES_def)
  have zip: "map (\<lambda>(snack, score). (snack, f score)) (zip xs ys) = zip xs (map f ys)"
    for f :: "int option \<Rightarrow> int" and xs :: "string list" and ys
    by (simp add: zip_map2 split_def)
  have "read_leaderboard api w = sort_key (\<lambda>row. - snd row) (zip ?snacks (map (score w) ?snacks))"
    unfolding read_leaderboard_def Let_def keys zip snack_lawsD(2)[OF assms] ..
  then show ?thesis by simp
qed

text \<open>
  C13: The leaderboard counts the sales that were let through and nothing else: after any sequence of
  requests and pauses the score of a snack has grown by exactly the number of its sales answered
  with \<open>sold\<close>, and the listing names every registered snack once with that score, highest first,
  equal scores in the order of the registry.
\<close>

theorem leaderboard_counts_sales:
  assumes "snack_laws api score used now" "pauses_ok es"
  shows "read_leaderboard api (sb_run api es w)
    = sort_key (\<lambda>row. - snd row)
        (map (\<lambda>snack. (snack, score w snack + sales api snack es w)) [''Apples'', ''Bananas'', ''Ice-Cream''])"
  by (simp only: leaderboard_scores[OF assms(1)] score_counts_sales[OF assms])


section \<open>The rate limit\<close>

lemma rate_potential:
  assumes "snack_laws api score used now" "pauses_ok es" "snack_limit snack = Some limit"
    and "used w (scope_of snack) \<le> limit"
  shows "used (sb_run api es w) (scope_of snack) \<le> limit
    \<and> score (sb_run api es w) snack + limit * \<lfloor>now w\<rfloor> + used w (scope_of snack)
      \<le> score w snack + limit * \<lfloor>now (sb_run api es w)\<rfloor> + used (sb_run api es w) (scope_of snack)"
  using assms(2,4)
proof (induction es arbitrary: w)
  case Nil
  then show ?case by simp
next
  case (Cons e es)
  have lim: "0 < limit" using assms(3) by (auto simp: snack_limit_def split: if_splits)
  let ?w = "sb_step api e w"
  have step: "used ?w (scope_of snack) \<le> limit
    \<and> score ?w snack + limit * \<lfloor>now w\<rfloor> + used w (scope_of snack)
      \<le> score w snack + limit * \<lfloor>now ?w\<rfloor> + used ?w (scope_of snack)"
  proof (cases e)
    case (ESell s)
    show ?thesis
      by (cases rule: sell_cases[OF assms(1), of s w])
        (use ESell Cons.prems(2) assms(3) in \<open>auto split: if_splits\<close>)
  next
    case (ESleep d)
    with Cons.prems have d: "0 \<le> d" by simp
    note S = snack_lawsD(10-12)[OF assms(1) d, of w]
    show ?thesis
    proof (cases "\<lfloor>now (sb_sleep api w d)\<rfloor> = \<lfloor>now w\<rfloor>")
      case True
      then show ?thesis using S ESleep Cons.prems(2) by simp
    next
      case False
      have "\<lfloor>now w\<rfloor> \<le> \<lfloor>now (sb_sleep api w d)\<rfloor>" using S(2) d by (intro floor_mono) simp
      with False have "limit * (\<lfloor>now w\<rfloor> + 1) \<le> limit * \<lfloor>now (sb_sleep api w d)\<rfloor>"
        using lim by (intro mult_left_mono) simp_all
      then show ?thesis using False S ESleep Cons.prems(2) lim by (simp add: distrib_left)
    qed
  qed
  have "pauses_ok es" using Cons.prems(1) by (cases e) simp_all
  from Cons.IH[OF this conjunct1[OF step]] step show ?case by simp
qed

text \<open>
  Nobody can push a snack's count above its rate, however often and in whatever order the worker
  and other clients ask: over any sequence of requests and pauses the count grows by at most the
  rate for every one-second window the sequence touches.
\<close>

theorem rate_enforced:
  assumes "snack_laws api score used now" "pauses_ok es" "snack_limit snack = Some limit"
    and "0 \<le> used w (scope_of snack)" "used w (scope_of snack) \<le> limit"
  shows "score (sb_run api es w) snack
    \<le> score w snack + limit * (\<lfloor>now (sb_run api es w)\<rfloor> - \<lfloor>now w\<rfloor> + 1)"
  using rate_potential[OF assms(1-3,5)] assms(4) by (simp add: algebra_simps)


section \<open>The worker\<close>

lemma sells_effect:
  assumes "snack_laws api score used now"
  shows "now (sb_run api (map ESell ss) w) = now w
    \<and> score w snack \<le> score (sb_run api (map ESell ss) w) snack
    \<and> (snack \<in> set ss \<and> snack_limit snack = Some limit \<and> used w (scope_of snack) < limit
        \<longrightarrow> score w snack < score (sb_run api (map ESell ss) w) snack)"
proof (induction ss arbitrary: w)
  case Nil
  show ?case by simp
next
  case (Cons s ss)
  note IH = Cons.IH[of "snd (sell api s w)"]
  show ?case
    by (cases rule: sell_cases[OF assms, of s w]) (use IH in \<open>auto split: if_splits\<close>)
qed

lemma sb_run_append: "sb_run api (es @ fs) w = sb_run api fs (sb_run api es w)"
  by (induction es arbitrary: w) simp_all

lemma tick_seconds: "1 / 20 \<le> TICK_SECONDS"
  unfolding TICK_SECONDS_def by code_simp

lemma tick_effect:
  fixes w :: 'w
  assumes "snack_laws api score used now"
  defines "w' \<equiv> sb_run api (worker_tick api) w"
  shows "now w + 1 / 20 \<le> now w'" "score w snack \<le> score w' snack"
    and "snack_limit snack = Some limit \<Longrightarrow> used w (scope_of snack) < limit \<Longrightarrow> score w snack < score w' snack"
    and "\<lfloor>now w'\<rfloor> \<noteq> \<lfloor>now w\<rfloor> \<Longrightarrow> used w' (scope_of snack) = 0"
proof -
  let ?ss = "[''Apples'', ''Bananas'', ''Ice-Cream'']"
  let ?v = "sb_run api (map ESell ?ss) w"
  have t: "0 \<le> TICK_SECONDS" using tick_seconds by linarith
  have w': "w' = sb_sleep api ?v TICK_SECONDS"
    unfolding w'_def worker_tick_def sb_run_append by (simp add: SNACK_RATES_def)
  note S = snack_lawsD(10-12)[OF assms(1) t, of ?v, folded w']
  note E = sells_effect[OF assms(1), of ?ss w snack]
  show "now w + 1 / 20 \<le> now w'" using S(2) conjunct1[OF E] tick_seconds by linarith
  show "score w snack \<le> score w' snack" using S(1) E by simp
  show "score w snack < score w' snack" if "snack_limit snack = Some limit" "used w (scope_of snack) < limit"
  proof -
    have "snack \<in> set ?ss" using that(1) by (auto simp: snack_limit_def split: if_splits)
    then show ?thesis using S(1) E that by simp
  qed
  show "used w' (scope_of snack) = 0" if "\<lfloor>now w'\<rfloor> \<noteq> \<lfloor>now w\<rfloor>"
    using S(3) that E by simp
qed

lemma run_worker_add: "run_worker api (j + k) w = run_worker api k (run_worker api j w)"
  by (induction j arbitrary: w) simp_all

lemma run_worker_Suc: "run_worker api (Suc k) w = sb_run api (worker_tick api) (run_worker api k w)"
  using run_worker_add[of api k 1 w] by simp

declare run_worker.simps(2) [simp del]

lemma run_worker_mono:
  assumes "snack_laws api score used now"
  shows "score w snack \<le> score (run_worker api k w) snack \<and> now w + of_nat k / 20 \<le> now (run_worker api k w)"
proof (induction k)
  case 0
  show ?case by simp
next
  case (Suc k)
  with tick_effect(1)[OF assms, of "run_worker api k w"] tick_effect(2)[OF assms, of "run_worker api k w" snack]
  show ?case
    by (auto simp: run_worker_Suc add_divide_distrib)
qed

lemma worker_sells_soon:
  assumes "snack_laws api score used now" "snack_limit snack = Some limit"
  shows "score w snack < score (run_worker api 21 w) snack"
proof (rule ccontr)
  let ?s = "\<lambda>k. run_worker api k w"
  assume "\<not> score w snack < score (?s 21) snack"
  have same: "score (?s k) snack = score w snack" if "k \<le> 21" for k
  proof -
    have "score (?s k) snack \<le> score (?s 21) snack"
      using run_worker_mono[OF assms(1), of "?s k" snack "21 - k"] that by (simp flip: run_worker_add)
    with \<open>\<not> score w snack < score (?s 21) snack\<close> run_worker_mono[OF assms(1), of w snack k]
    show ?thesis by simp
  qed
  have lim: "0 < limit" using assms(2) by (auto simp: snack_limit_def split: if_splits)
  have full: "limit \<le> used (?s k) (scope_of snack)" if "k \<le> 20" for k
  proof (rule ccontr)
    assume "\<not> limit \<le> used (?s k) (scope_of snack)"
    then have "score (?s k) snack < score (?s (Suc k)) snack"
      using tick_effect(3)[OF assms(1,2), of "?s k"] by (simp add: run_worker_Suc)
    with same[of k] same[of "Suc k"] that show False by simp
  qed
  have "\<lfloor>now (?s k)\<rfloor> = \<lfloor>now w\<rfloor>" if "k \<le> 20" for k
    using that
  proof (induction k)
    case 0
    show ?case by simp
  next
    case (Suc k)
    then show ?case
      using tick_effect(4)[OF assms(1), where w = "?s k" and snack = snack] full[of "Suc k"] lim
      by (force simp: run_worker_Suc)
  qed
  then have "\<lfloor>now (?s 20)\<rfloor> = \<lfloor>now w\<rfloor>" by simp
  moreover have "now w + 1 \<le> now (?s 20)" using run_worker_mono[OF assms(1), of w snack 20] by simp
  ultimately show False by linarith
qed

text \<open>
  C22: The worker keeps selling: from every state, whatever the limiter has used up, the score of each
  registered snack grows past every bound, by at least one sale in every 21 turns of the loop.
\<close>

theorem worker_makes_progress:
  assumes "snack_laws api score used now" "snack_limit snack = Some limit"
  shows "score w snack + int n \<le> score (run_worker api (21 * n) w) snack"
proof (induction n)
  case 0
  show ?case by simp
next
  case (Suc n)
  have "21 * Suc n = 21 * n + 21" by simp
  then have "run_worker api (21 * Suc n) w = run_worker api 21 (run_worker api (21 * n) w)"
    by (simp only: run_worker_add)
  then show ?case
    using Suc worker_sells_soon[OF assms, of "run_worker api (21 * n) w"] by simp
qed


section \<open>A server that satisfies the laws\<close>

record toy_server =
  ts_scores :: "string \<Rightarrow> int"
  ts_used :: "string \<Rightarrow> int"
  ts_now :: rat

definition toy_api :: "toy_server snack_api" where
  "toy_api =
     \<lparr>sb_per_second = (\<lambda>n. \<lparr>rate_limit = n, rate_window = 1\<rparr>),
      sb_hit = (\<lambda>w i l win s.
        if ts_used w s < l
        then ((True, l - ts_used w s - 1), w\<lparr>ts_used := (ts_used w)(s := ts_used w s + 1)\<rparr>)
        else ((False, 0), w)),
      sb_zincrby = (\<lambda>w k d m. w\<lparr>ts_scores := (ts_scores w)(m := ts_scores w m + d)\<rparr>),
      sb_zmscore = (\<lambda>w k ms. map (\<lambda>m. if ts_scores w m = 0 then None else Some (ts_scores w m)) ms),
      sb_sleep = (\<lambda>w d. w\<lparr>ts_now := ts_now w + d,
        ts_used := (if \<lfloor>ts_now w + d\<rfloor> = \<lfloor>ts_now w\<rfloor> then ts_used w else (\<lambda>_. 0))\<rparr>)\<rparr>"

definition toy_start :: toy_server where
  "toy_start = \<lparr>ts_scores = (\<lambda>_. 0), ts_used = (\<lambda>_. 0), ts_now = 0\<rparr>"

lemma toy_laws: "snack_laws toy_api ts_scores ts_used ts_now"
  by (auto simp: snack_laws_def toy_api_def fun_eq_iff)

theorem leaderboard_counts_sales_witness:
  "read_leaderboard toy_api (sb_run toy_api [ESell ''Apples'', ESell ''Ice-Cream'', ESell ''Apples'',
      ESell ''Pears'', ESell ''Ice-Cream''] toy_start)
   = [(''Ice-Cream'', 2), (''Apples'', 1), (''Bananas'', 0)]"
proof -
  let ?es = "[ESell ''Apples'', ESell ''Ice-Cream'', ESell ''Apples'', ESell ''Pears'', ESell ''Ice-Cream'']"
  have "sales toy_api ''Apples'' ?es toy_start = 1" "sales toy_api ''Bananas'' ?es toy_start = 0"
    "sales toy_api ''Ice-Cream'' ?es toy_start = 2" by code_simp+
  then show ?thesis
    using leaderboard_counts_sales[OF toy_laws, of ?es toy_start] by (simp add: toy_start_def)
qed

theorem rate_enforced_witness:
  "ts_scores (sb_run toy_api [ESell ''Bananas'', ESell ''Bananas'', ESell ''Bananas''] toy_start) ''Bananas'' \<le> 0 + 2 * (0 - 0 + 1)"
proof -
  let ?es = "[ESell ''Bananas'', ESell ''Bananas'', ESell ''Bananas'']"
  have "ts_now (sb_run toy_api ?es toy_start) = 0" by code_simp
  then show ?thesis
    using rate_enforced[OF toy_laws, of ?es "''Bananas''" 2 toy_start]
    by (simp add: toy_start_def snack_limit_def)
qed

theorem worker_makes_progress_witness: "3 \<le> ts_scores (run_worker toy_api 63 toy_start) ''Apples''"
  using worker_makes_progress[OF toy_laws, of "''Apples''" 1 toy_start 3]
  by (simp add: toy_start_def snack_limit_def)

text \<open>A snack that is not registered is answered with 404 and changes nothing.\<close>

lemma unknown_snack_rejected:
  "snack_laws api score used now \<Longrightarrow> snack_limit snack = None \<Longrightarrow> sell api snack w = (HttpError 404 snack, w)"
  by (cases rule: sell_cases[of api score used now snack w]) auto

end
