(* ===== verification/Slots_Golden.thy ===== *)
theory Slots_Golden
  imports Fqdn_Slots Mem_Json "HOL-Library.List_Lexorder" "HOL-Library.Char_ord"
begin

text \<open>
  The golden files: \<open>json.dumps(..., indent=2)\<close> with and without \<open>sort_keys\<close>, and \<open>_emit_golden\<close> of
  \<open>fqdnrules/fqdn_slots.py\<close>, which writes the bucket tables the Go port is compared with.
\<close>

section \<open>Indented JSON\<close>

definition newline_indent :: "nat \<Rightarrow> string" where
  "newline_indent level = CHR 0x0A # replicate (2 * level) (CHR '' '')"

definition bracketed :: "string \<Rightarrow> string \<Rightarrow> nat \<Rightarrow> string list \<Rightarrow> string" where
  "bracketed opening closing level items =
     (if items = [] then opening @ closing
      else opening @ newline_indent (Suc level) @ join ('','' @ newline_indent (Suc level)) items
        @ newline_indent level @ closing)"

fun json_indent :: "nat \<Rightarrow> json \<Rightarrow> string" where
  "json_indent level JNull = ''null''"
| "json_indent level (JBool b) = (if b then ''true'' else ''false'')"
| "json_indent level (JStr s) = json_string s"
| "json_indent level (JInt n) = py_str n"
| "json_indent level (JArr xs) = bracketed ''['' '']'' level (map (json_indent (Suc level)) xs)"
| "json_indent level (JObj kvs) =
     bracketed ''{'' ''}'' level
       (map (\<lambda>kv. json_string (fst kv) @ '': '' @ json_indent (Suc level) (snd kv)) kvs)"

text \<open>\<open>sort_keys=True\<close>.\<close>

fun json_sort_keys :: "json \<Rightarrow> json" where
  "json_sort_keys (JArr xs) = JArr (map json_sort_keys xs)"
| "json_sort_keys (JObj kvs) = JObj (sort_key fst (map (\<lambda>kv. (fst kv, json_sort_keys (snd kv))) kvs))"
| "json_sort_keys j = j"


text \<open>\<open>f"{s:<30}"\<close> pads on the right, \<open>f"{n:5d}"\<close> on the left.\<close>

definition pad_right :: "nat \<Rightarrow> string \<Rightarrow> string" where
  "pad_right width s = s @ replicate (width - length s) (CHR '' '')"

definition pad_left :: "nat \<Rightarrow> string \<Rightarrow> string" where
  "pad_left width s = replicate (width - length s) (CHR '' '') @ s"


section \<open>The golden bucket tables\<close>

definition GOLDEN_NUM_BUCKETS :: "int list" where
  "GOLDEN_NUM_BUCKETS = [1, 2, 7, 8, 12, 16, 37, 64, 128, 129, 192]"

definition hex_upper :: "nat \<Rightarrow> char" where
  "hex_upper d = (if d < 10 then chr (48 + d) else chr (55 + d))"

text \<open>\<open>f"0x{n:04X}"\<close> of a number below 65536.\<close>

definition hex4 :: "int \<Rightarrow> string" where
  "hex4 n = ''0x'' @ map (\<lambda>i. hex_upper (nat (n div 16 ^ i mod 16))) [3, 2, 1, 0]"

definition table_json :: "bucket_table \<Rightarrow> json" where
  "table_json t =
     JObj [(''tokens'', JArr (map JStr (tokens t))), (''slots'', JArr (map JInt (slots t))),
           (''modulo_safe'', JBool (modulo_safe t))]"

definition golden_payload :: "(int \<times> bucket_table) list \<Rightarrow> json" where
  "golden_payload tables =
     (let known_answer = crc16 (encode ''123456789'')
      in JObj
        [(''crc16_known_answer'', JObj
            [(''input'', JStr ''123456789''), (''crc16'', JInt known_answer),
             (''crc16_hex'', JStr (hex4 known_answer))]),
         (''num_buckets'', JObj (map (\<lambda>(n, t). (py_str n, table_json t)) tables))])"

definition golden_tables :: "int list \<Rightarrow> (int \<times> bucket_table) list result" where
  "golden_tables = mapR (\<lambda>n. bindR (compute_bucket_table n) (\<lambda>table. Inr (n, table)))"

text \<open>The contents of the golden file.\<close>

definition emit_golden :: "string result" where
  "emit_golden =
     bindR (golden_tables GOLDEN_NUM_BUCKETS) (\<lambda>tables.
       Inr (json_indent 0 (json_sort_keys (golden_payload tables)) @ [CHR 0x0A]))"

text \<open>
  The known answer of CRC16/XMODEM, the order of the tables in the file (of the numbers as texts), and
  what each written table satisfies: one token per bucket, and the slot written beside a token is the
  slot the server computes for it.
\<close>

lemma golden_known_answer:
  "crc16 (encode ''123456789'') = 0x31C3" "hex4 (crc16 (encode ''123456789'')) = ''0x31C3''"
  by code_simp+

lemma golden_order:
  "sort (map py_str GOLDEN_NUM_BUCKETS)
    = [''1'', ''12'', ''128'', ''129'', ''16'', ''192'', ''2'', ''37'', ''64'', ''7'', ''8'']"
  by code_simp

lemma golden_tables_slots:
  assumes "golden_tables ns = Inr ts" "(n, t) \<in> set ts" "i < nat n"
  shows "length (tokens t) = nat n \<and> slots t ! i = slot (encode (tokens t ! i))"
proof -
  obtain j where j: "j < length ts" "ts ! j = (n, t)" using assms(2) by (auto simp: in_set_conv_nth)
  with assms(1) have "compute_bucket_table n = Inr t"
    using mapR_Inr_nth[OF assms(1)[unfolded golden_tables_def], of j]
      mapR_Inr_length[OF assms(1)[unfolded golden_tables_def]] by (auto simp: result_simps)
  then have wf: "table_wf n t" by (rule compute_bucket_table_Inr)
  obtain k where "tokens t ! i = py_str k" "slots t ! i = slot (encode (py_str k))"
    using table_wf_first_fit[OF wf assms(3)] by blast
  with wf show ?thesis by (simp add: table_wf_def)
qed

end
