(* ===== verification/Router_Crosscheck.thy ===== *)
theory Router_Crosscheck
  imports Router_Slots Slots_Golden
begin

text \<open>
  \<open>fqdnrules/go-benchmark/crosscheck_python.py\<close>, the generator of the golden results the Go port is
  compared with, and the reference it rests on: \<open>ref_lookup\<close> scans the rules one by one, without keys,
  tags, replicas or a server, and a store that was loaded in bulk answers like it.
\<close>

section \<open>A reference for the lookup\<close>

text \<open>The rules that apply to a query.\<close>

definition ref_hits :: "rule list \<Rightarrow> match_mode \<Rightarrow> string \<Rightarrow> int \<Rightarrow> string \<Rightarrow> rule list" where
  "ref_hits rules mode q1 port q2 =
     filter (\<lambda>r. r_port r = port \<and> pattern_matches mode (r_fqdn1 r) q1 \<and> pattern_matches mode (r_fqdn2 r) q2
       \<and> visible (r_scope r) (rank_of (r_fqdn1 r) q1) (rank_of (r_fqdn2 r) q2)) rules"

definition ref_rank :: "string \<Rightarrow> string \<Rightarrow> rule \<Rightarrow> nat \<times> nat" where
  "ref_rank q1 q2 r = (rank_of (r_fqdn1 r) q1, rank_of (r_fqdn2 r) q2)"

definition ref_match :: "string \<Rightarrow> string \<Rightarrow> rule \<Rightarrow> rule_match" where
  "ref_match q1 q2 r =
     \<lparr>m_rule_id = r_rule_id r, m_fqdn1_pattern = r_fqdn1 r, m_port = r_port r,
      m_fqdn2_pattern = r_fqdn2 r, m_specificity = ref_rank q1 q2 r\<rparr>"

definition ref_lookup :: "rule list \<Rightarrow> match_mode \<Rightarrow> string \<Rightarrow> int \<Rightarrow> string \<Rightarrow> rule_match option" where
  "ref_lookup rules mode q1 port q2 =
     (let hs = ref_hits rules mode q1 port q2
      in if hs = [] then None else Some (ref_match q1 q2 (arg_min_list (ref_rank q1 q2) hs)))"

lemma ref_hits_applies:
  assumes "distinct (map rule_key rules)"
  shows "applies (foldl table_put no_rules rules) mode q1 port q2 p1 p2 rid
    \<longleftrightarrow> (\<exists>r\<in>set (ref_hits rules mode q1 port q2). r_fqdn1 r = p1 \<and> r_fqdn2 r = p2 \<and> r_rule_id r = rid)"
proof -
  let ?m = "map (\<lambda>r. (rule_key r, (r_scope r, r_rule_id r))) rules"
  have "map fst ?m = map rule_key rules" by simp
  then have d: "distinct (map fst ?m)" using assms by (simp only:)
  have eq: "foldl table_put no_rules rules key = map_of ?m key" for key
    by (simp add: foldl_table_put[OF assms] no_rules_def split: option.split)
  have t: "foldl table_put no_rules rules (p1, port, p2) = Some (scope, rid)
      \<longleftrightarrow> (\<exists>r\<in>set rules. r_fqdn1 r = p1 \<and> r_port r = port \<and> r_fqdn2 r = p2 \<and> r_scope r = scope \<and> r_rule_id r = rid)"
    for scope
    unfolding eq map_of_eq_Some_iff[OF d] by (auto simp: rule_key_def image_iff)
  show ?thesis unfolding applies_def t ref_hits_def by auto
qed

text \<open>Two rules that both apply with the same ranks have the same patterns.\<close>

lemma same_rank_same_pattern:
  assumes "clean q" "pattern_matches mode p q" "pattern_matches mode p' q" "rank_of p q = rank_of p' q"
  shows "p = p'"
proof -
  obtain r r' where "r \<in> set (ranks mode (num_labels q))" "p = pattern_at q r"
    "r' \<in> set (ranks mode (num_labels q))" "p' = pattern_at q r'"
    using matches_pattern_at[OF assms(1)] assms(2,3) by blast
  with rank_of_pattern_at[OF assms(1)] assms(4) show ?thesis by metis
qed

lemma best_match_ref_lookup:
  assumes "distinct (map rule_key rules)" "clean q1" "clean q2"
    and "best_match (foldl table_put no_rules rules) mode q1 port q2 res"
  shows "res = ref_lookup rules mode q1 port q2"
proof -
  let ?A = "foldl table_put no_rules rules"
  let ?hs = "ref_hits rules mode q1 port q2"
  note ap = ref_hits_applies[OF assms(1), of mode q1 port q2]
  show ?thesis
  proof (cases "?hs = []")
    case True
    then have "\<not> applies ?A mode q1 port q2 p1 p2 rid" for p1 p2 rid by (simp add: ap)
    then have "res = None" using assms(4) by (cases res) (auto simp: best_match_def)
    with True show ?thesis by (simp add: ref_lookup_def)
  next
    case False
    let ?r = "arg_min_list (ref_rank q1 q2) ?hs"
    have r: "?r \<in> set ?hs" by (rule arg_min_list_in[OF False])
    have least: "ref_rank q1 q2 ?r \<le> ref_rank q1 q2 x" if "x \<in> set ?hs" for x
      using f_arg_min_list_f[OF False, of "ref_rank q1 q2"] that by (simp add: Min_le)
    have ar: "applies ?A mode q1 port q2 (r_fqdn1 ?r) (r_fqdn2 ?r) (r_rule_id ?r)"
      using ap r by blast
    with assms(4) obtain m where m: "res = Some m" by (cases res) (auto simp: best_match_def)
    note b = best_matchD[OF assms(4)[unfolded m]]
    obtain x where x: "x \<in> set ?hs" "r_fqdn1 x = m_fqdn1_pattern m" "r_fqdn2 x = m_fqdn2_pattern m"
      "r_rule_id x = m_rule_id m"
      using b(1) ap by blast
    have "m_specificity m \<le> ref_rank q1 q2 ?r"
      using best_match_le[OF assms(4)[unfolded m] ar] by (simp add: ref_rank_def)
    moreover have "m_specificity m = ref_rank q1 q2 x" using b(3) x by (simp add: ref_rank_def)
    ultimately have eq: "ref_rank q1 q2 x = ref_rank q1 q2 ?r" using least[OF x(1)] by simp
    have hits: "pattern_matches mode (r_fqdn1 z) q1" "pattern_matches mode (r_fqdn2 z) q2" "r_port z = port"
      "z \<in> set rules" if "z \<in> set ?hs" for z using that by (auto simp: ref_hits_def)
    have "r_fqdn1 x = r_fqdn1 ?r" "r_fqdn2 x = r_fqdn2 ?r"
      using same_rank_same_pattern[OF assms(2) hits(1)[OF x(1)] hits(1)[OF r]]
        same_rank_same_pattern[OF assms(3) hits(2)[OF x(1)] hits(2)[OF r]] eq
      by (simp_all add: ref_rank_def)
    then have "rule_key x = rule_key ?r" using hits(3)[OF x(1)] hits(3)[OF r] by (simp add: rule_key_def)
    then have "x = ?r"
      using assms(1) hits(4)[OF x(1)] hits(4)[OF r] by (auto simp: distinct_map dest: inj_onD)
    moreover have "m = ref_match q1 q2 x"
      using x b(2,3) hits(3)[OF x(1)] by (simp add: ref_match_def ref_rank_def)
    ultimately show ?thesis using False m by (simp add: ref_lookup_def Let_def)
  qed
qed

lemma bulk_load_answers:
  assumes "redis_laws api" "store_ok st" "represents api st db no_rules"
    and "list_all rule_ok rules" "distinct (map rule_key rules)"
  shows "\<exists>db'. rs_put_many api st db rules = Inr db'
    \<and> (\<forall>f1 q1 port f2 q2 mode. normalize_fqdn f1 = Inr q1 \<longrightarrow> CHR '':'' \<notin> set q1 \<longrightarrow> normalize_fqdn f2 = Inr q2
        \<longrightarrow> 0 < port \<longrightarrow> port < 65536
        \<longrightarrow> rs_lookup api st db' f1 port f2 mode = Inr (ref_lookup rules mode q1 port q2))"
proof -
  obtain db' where db': "rs_put_many api st db rules = Inr db'"
    "represents api st db' (foldl table_put no_rules rules)"
    using put_many_represents[OF assms(1-4)] by blast
  have "rs_lookup api st db' f1 port f2 mode = Inr (ref_lookup rules mode q1 port q2)"
    if q: "normalize_fqdn f1 = Inr q1" "CHR '':'' \<notin> set q1" "normalize_fqdn f2 = Inr q2" "0 < port" "port < 65536"
    for f1 q1 port f2 q2 mode
  proof -
    obtain res where res: "rs_lookup api st db' f1 port f2 mode = Inr res"
      "best_match (foldl table_put no_rules rules) mode q1 port q2 res"
      using lookup_least[OF assms(1,2) db'(2) q] by blast
    have "clean q1" "clean q2" using q(1,3) unfolding normalize_fqdn_Inr by blast+
    from best_match_ref_lookup[OF assms(5) this res(2)] res(1) show ?thesis by simp
  qed
  with db'(1) show ?thesis by blast
qed

text \<open>
  C12: A store loaded in bulk answers every query like the reference that scans the rules: the keys, the
  hash tags, the replicas and their number, the grouping into script calls and the Lua program change
  nothing about the answer.
\<close>

theorem lookup_is_reference:
  assumes "redis_laws api" "store_ok st" "represents api st db no_rules"
    and "list_all rule_ok rules" "distinct (map rule_key rules)"
    and "normalize_fqdn f1 = Inr q1" "CHR '':'' \<notin> set q1" "normalize_fqdn f2 = Inr q2" "0 < port" "port < 65536"
  shows "\<exists>db'. rs_put_many api st db rules = Inr db'
    \<and> rs_lookup api st db' f1 port f2 mode = Inr (ref_lookup rules mode q1 port q2)"
  using bulk_load_answers[OF assms(1-5)] assms(6-10) by blast

theorem lookup_is_reference_witness:
  "\<exists>db'. rs_put_many mem_api store4 mem_empty [rule_any, rule_sub] = Inr db'
    \<and> rs_lookup mem_api store4 db' ''x.b.com'' 443 ''A.com.'' SINGLE_LEVEL
      = Inr (Some (ref_match ''x.b.com'' ''a.com'' rule_sub))"
proof -
  have "list_all rule_ok [rule_any, rule_sub]" "distinct (map rule_key [rule_any, rule_sub])"
    "normalize_fqdn ''x.b.com'' = Inr ''x.b.com''" "CHR '':'' \<notin> set ''x.b.com''"
    "normalize_fqdn ''A.com.'' = Inr ''a.com''" "(0::int) < 443" "(443::int) < 65536"
    by code_simp+
  note lookup_is_reference[OF mem_laws store4_ok mem_represents this, of SINGLE_LEVEL]
  moreover have "ref_lookup [rule_any, rule_sub] SINGLE_LEVEL ''x.b.com'' 443 ''a.com''
      = Some (ref_match ''x.b.com'' ''a.com'' rule_sub)" by code_simp
  ultimately show ?thesis by simp
qed


section \<open>The golden rules and queries\<close>

definition CROSS_DB :: int where
  "CROSS_DB = 12"

definition CROSS_NAMESPACE :: string where
  "CROSS_NAMESPACE = ''xpy''"

text \<open>\<open>int(os.environ.get("FQDN_NUM_BUCKETS", "4"))\<close>.\<close>

definition cross_num_buckets :: "string option \<Rightarrow> int result" where
  "cross_num_buckets env = py_int (case env of None \<Rightarrow> ''4'' | Some s \<Rightarrow> s)"

definition CROSS_RULES :: "rule list" where
  "CROSS_RULES =
     [mk_rule ''api.foo.com'' 443 ''backend-api.foo.com'' ''r-exact'' BOTH,
      mk_rule ''api.foo.com'' 443 ''*'' ''r-exact-any'' BOTH,
      mk_rule ''*.corp.dragonfly.com'' 443 ''retailer.com'' ''r-corp-exact'' BOTH,
      mk_rule ''*.corp.dragonfly.com'' 443 ''*.com'' ''r-corp-wild'' BOTH,
      mk_rule ''*.dragonfly.com'' 443 ''retailer.com'' ''r-broad'' BOTH,
      mk_rule ''*.dragonfly.com'' 443 ''*'' ''r-tls-strict'' SINGLE,
      mk_rule ''*.deep.example.org'' 443 ''*'' ''r-deep-only'' MULTI,
      mk_rule ''*.com'' 8443 ''*.net'' ''r-tld'' BOTH,
      mk_rule ''*'' 443 ''catch-all.example.com'' ''r-global'' BOTH,
      mk_rule ''*'' 80 ''*'' ''r-global-any'' BOTH,
      mk_rule ''host1.beta.co'' 8443 ''*.beta.co'' ''r-beta'' BOTH,
      mk_rule ''host9.gamma.io'' 8443 ''backend9.gamma.io'' ''r-exact-multi-scope'' MULTI]"

definition BUCKET_PROBES :: "string list" where
  "BUCKET_PROBES = [''shop.omega.com'', ''api.omega.net'', ''www.kappa.org'', ''portal.sigma.dev'', ''mail.lambda.io'']"

definition CROSS_QUERIES :: "(string \<times> int \<times> string \<times> string) list" where
  "CROSS_QUERIES =
     [(''api.foo.com'', 443, ''backend-api.foo.com'', ''single''),
      (''api.foo.com'', 443, ''backend-api.foo.com'', ''multi''),
      (''api.foo.com'', 443, ''whatever.xyz'', ''multi''),
      (''api.foo.com'', 8080, ''backend-api.foo.com'', ''multi''),
      (''console.corp.dragonfly.com'', 443, ''retailer.com'', ''single''),
      (''console.corp.dragonfly.com'', 443, ''shop.com'', ''single''),
      (''console.corp.dragonfly.com'', 443, ''retailer.com'', ''multi''),
      (''a.console.corp.dragonfly.com'', 443, ''retailer.com'', ''single''),
      (''a.console.corp.dragonfly.com'', 443, ''retailer.com'', ''multi''),
      (''host1.dragonfly.com'', 443, ''anything.net'', ''multi''),
      (''host1.dragonfly.com'', 443, ''anything.net'', ''single''),
      (''a.b.dragonfly.com'', 443, ''anything.net'', ''multi''),
      (''x.deep.example.org'', 443, ''zzz.net'', ''multi''),
      (''a.x.deep.example.org'', 443, ''zzz.net'', ''multi''),
      (''a.x.deep.example.org'', 443, ''zzz.net'', ''single''),
      (''shop.omega.com'', 8443, ''mail.gamma.net'', ''multi''),
      (''shop.omega.com'', 8443, ''mail.gamma.net'', ''single''),
      (''anything.invalid'', 443, ''catch-all.example.com'', ''multi''),
      (''localhost'', 443, ''catch-all.example.com'', ''multi''),
      (''host1.beta.co'', 8443, ''www.beta.co'', ''multi''),
      (''host1.beta.co'', 8443, ''host1.beta.co'', ''multi''),
      (''nomatch1.unknown.invalid'', 8080, ''nomatch1.invalid'', ''multi''),
      (''API.FOO.COM.'', 443, ''Backend-Api.Foo.Com'', ''multi''),
      (''host9.gamma.io'', 8443, ''backend9.gamma.io'', ''multi'')]
     @ map (\<lambda>probe. (probe, 80, ''anything.at.all'', ''multi'')) BUCKET_PROBES"

definition MODES :: "(string \<times> match_mode) list" where
  "MODES = [(''single'', SINGLE_LEVEL), (''multi'', MULTI_LEVEL)]"

text \<open>
  \<open>conn.keys(pattern)\<close> and \<open>conn.delete(key)\<close> belong to the server. \<open>scan_laws\<close>: a pattern that ends in
  the star and has no other special character finds every hash whose key starts with the rest, and
  only such keys; a deleted key has no fields and the others keep theirs.
\<close>

record 'db scan_api =
  sc_keys :: "'db \<Rightarrow> string \<Rightarrow> string list"
  sc_delete :: "'db \<Rightarrow> string \<Rightarrow> 'db"

definition glob_free :: "string \<Rightarrow> bool" where
  "glob_free s \<longleftrightarrow> list_all (\<lambda>c. c \<notin> set ''*?[]^'' \<and> c \<noteq> CHR 0x5C) s"

definition scan_laws :: "'db redis_api \<Rightarrow> 'db scan_api \<Rightarrow> bool" where
  "scan_laws api scan \<longleftrightarrow>
     (\<forall>db pre k. glob_free pre \<longrightarrow>
        ((\<exists>f. hget api db k f \<noteq> None) \<and> starts_with pre k \<longrightarrow> k \<in> set (sc_keys scan db (pre @ ''*'')))
        \<and> (k \<in> set (sc_keys scan db (pre @ ''*'')) \<longrightarrow> starts_with pre k))
     \<and> (\<forall>db k k' f. hget api (sc_delete scan db k) k' f = (if k' = k then None else hget api db k' f))"

definition purge_patterns :: "string list" where
  "purge_patterns = [''r:{'' @ CROSS_NAMESPACE @ '':*'', ''r:'' @ CROSS_NAMESPACE @ '':*'']"

fun purge :: "'db scan_api \<Rightarrow> string list \<Rightarrow> 'db \<Rightarrow> 'db" where
  "purge scan [] db = db"
| "purge scan (pattern # patterns) db =
     purge scan patterns (foldl (sc_delete scan) db (sc_keys scan db pattern))"

definition crosscheck ::
  "'db redis_api \<Rightarrow> 'db scan_api \<Rightarrow> 'db \<Rightarrow> int \<Rightarrow> (rule_match option list \<times> 'db) result" where
  "crosscheck api scan db num_buckets =
     (let db1 = purge scan purge_patterns db
      in bindR (rule_store_init api db1 CROSS_NAMESPACE num_buckets) (\<lambda>st.
         bindR (rs_put_many api st db1 CROSS_RULES) (\<lambda>db2.
         bindR (mapR (\<lambda>(fqdn1, port, fqdn2, mode).
             case map_of MODES mode of
               None \<Rightarrow> Inl KeyError
             | Some m \<Rightarrow> rs_lookup api st db2 fqdn1 port fqdn2 m) CROSS_QUERIES) (\<lambda>results.
         Inr (results, db2)))))"

text \<open>The document that is written.\<close>

definition expected_json :: "rule_match option \<Rightarrow> json" where
  "expected_json m =
     (case m of
        None \<Rightarrow> JNull
      | Some m \<Rightarrow> JObj
          [(''rule_id'', JStr (m_rule_id m)), (''fqdn1_pattern'', JStr (m_fqdn1_pattern m)),
           (''port'', JInt (m_port m)), (''fqdn2_pattern'', JStr (m_fqdn2_pattern m)),
           (''rank1'', JInt (int (fst (m_specificity m)))), (''rank2'', JInt (int (snd (m_specificity m))))])"

definition crosscheck_payload :: "int \<Rightarrow> rule_match option list \<Rightarrow> json" where
  "crosscheck_payload num_buckets results =
     JObj
       [(''db'', JInt CROSS_DB), (''num_buckets'', JInt num_buckets),
        (''rules'', JArr (map (\<lambda>r. JObj
           [(''fqdn1'', JStr (r_fqdn1 r)), (''port'', JInt (r_port r)), (''fqdn2'', JStr (r_fqdn2 r)),
            (''rule_id'', JStr (r_rule_id r)), (''scope'', JStr (scope_value (r_scope r)))]) CROSS_RULES)),
        (''queries'', JArr (map (\<lambda>(f1, port, f2, mode). JObj
           [(''fqdn1'', JStr f1), (''port'', JInt port), (''fqdn2'', JStr f2), (''mode'', JStr mode)])
           CROSS_QUERIES)),
        (''expected'', JArr (map expected_json results))]"

text \<open>The line that counts the answers, and one line per query.\<close>

definition crosscheck_line :: "string \<times> int \<times> string \<times> string \<Rightarrow> rule_match option \<Rightarrow> string" where
  "crosscheck_line q r =
     (case q of (fqdn1, port, fqdn2, mode) \<Rightarrow>
        ''  '' @ pad_right 6 mode @ '' '' @ pad_right 30 fqdn1 @ '' '' @ pad_left 5 (py_str port) @ '' ''
        @ pad_right 25 fqdn2 @ '' -> ''
        @ (case r of
             None \<Rightarrow> ''MISS''
           | Some m \<Rightarrow> m_rule_id m @ '' ('' @ py_str (int (fst (m_specificity m))) @ '', ''
               @ py_str (int (snd (m_specificity m))) @ '')''))"

definition crosscheck_report :: "string \<Rightarrow> rule_match option list \<Rightarrow> string list" where
  "crosscheck_report out results =
     (let hits = length (filter (\<lambda>r. r \<noteq> None) results)
      in (''wrote '' @ out @ '' with '' @ py_str (int (length CROSS_RULES)) @ '' rules, ''
          @ py_str (int (length CROSS_QUERIES)) @ '' queries, '' @ py_str (int hits) @ '' hits, ''
          @ py_str (int (length CROSS_QUERIES) - int hits) @ '' misses'')
         # map (\<lambda>(q, r). crosscheck_line q r) (zip CROSS_QUERIES results))"

text \<open>
  \<open>main\<close>: the text of the file \<open>out\<close>, the printed lines and the database.  The replica count is read
  when the module is loaded.
\<close>

definition crosscheck_main ::
  "'db redis_api \<Rightarrow> 'db scan_api \<Rightarrow> 'db \<Rightarrow> string option \<Rightarrow> string
    \<Rightarrow> (string \<times> string list \<times> 'db) result" where
  "crosscheck_main api scan db env out =
     bindR (cross_num_buckets env) (\<lambda>num_buckets.
     bindR (crosscheck api scan db num_buckets) (\<lambda>(results, db').
       Inr (json_indent 0 (crosscheck_payload num_buckets results), crosscheck_report out results, db')))"


section \<open>The purge\<close>

lemma delete_all_hget:
  assumes "scan_laws api scan"
  shows "hget api (foldl (sc_delete scan) db ks) k f = (if k \<in> set ks then None else hget api db k f)"
  using assms by (induction ks arbitrary: db) (auto simp: scan_laws_def)

lemma purge_hget:
  assumes "scan_laws api scan" "list_all glob_free pres"
  shows "hget api (purge scan (map (\<lambda>p. p @ ''*'') pres) db) k f
    = (if list_ex (\<lambda>p. starts_with p k) pres then None else hget api db k f)"
  using assms(2)
proof (induction pres arbitrary: db)
  case Nil
  show ?case by simp
next
  case (Cons p pres)
  let ?keys = "sc_keys scan db (p @ ''*'')"
  have keys: "(\<exists>f. hget api db k f \<noteq> None) \<and> starts_with p k \<longrightarrow> k \<in> set ?keys" "k \<in> set ?keys \<longrightarrow> starts_with p k"
    using assms(1) Cons.prems unfolding scan_laws_def by simp_all
  have "hget api (foldl (sc_delete scan) db ?keys) k f = (if starts_with p k then None else hget api db k f)"
    using keys unfolding delete_all_hget[OF assms(1)] by auto
  with Cons show ?case by simp
qed

definition purge_prefixes :: "string list" where
  "purge_prefixes = [''r:{'' @ CROSS_NAMESPACE @ '':'', ''r:'' @ CROSS_NAMESPACE @ '':'']"

lemma purge_patterns_prefixes: "purge_patterns = map (\<lambda>p. p @ ''*'') purge_prefixes"
  by (simp add: purge_patterns_def purge_prefixes_def)

lemma purge_prefixes_free: "list_all glob_free purge_prefixes"
  by code_simp

lemma purged_hget:
  "scan_laws api scan \<Longrightarrow> hget api (purge scan purge_patterns db) k f
    = (if list_ex (\<lambda>p. starts_with p k) purge_prefixes then None else hget api db k f)"
  unfolding purge_patterns_prefixes by (rule purge_hget[OF _ purge_prefixes_free])

lemma rs_key_prefix:
  assumes "rs_key st tag i p port = Inr k" "rs_namespace st = CROSS_NAMESPACE"
  shows "list_ex (\<lambda>p. starts_with p k) purge_prefixes"
  using assms by (auto simp: rs_key_def purge_prefixes_def CROSS_NAMESPACE_def result_simps split: if_splits)

lemma meta_key_prefix: "list_ex (\<lambda>p. starts_with p (bucketing_meta_key CROSS_NAMESPACE)) purge_prefixes"
  by code_simp

lemma purge_represents:
  assumes "scan_laws api scan" "rs_namespace st = CROSS_NAMESPACE"
  shows "represents api st (purge scan purge_patterns db) no_rules"
  unfolding represents_def no_rules_def value_of_def
  using keys_of_mem rs_key_prefix[OF _ assms(2)] purged_hget[OF assms(1)] by fastforce

lemma purge_init:
  "scan_laws api scan \<Longrightarrow> rule_store_init api (purge scan purge_patterns db) CROSS_NAMESPACE n
    = Inr \<lparr>rs_namespace = CROSS_NAMESPACE, rs_num_buckets = n\<rparr>"
  by (simp add: rule_store_init_def purged_hget meta_key_prefix)

text \<open>A server whose database is a finite list of entries, the newest first, and that can list its keys.\<close>

definition list_api :: "((string \<times> string) \<times> string) list redis_api" where
  "list_api =
     \<lparr>hset = (\<lambda>db k f v. ((k, f), v) # db),
      hget = (\<lambda>db k f. map_of db (k, f)),
      hmget = (\<lambda>db k fs. map (\<lambda>f. map_of db (k, f)) fs),
      hdel = (\<lambda>db k f. filter (\<lambda>e. fst e \<noteq> (k, f)) db),
      hdel_count = (\<lambda>db k f. if map_of db (k, f) = None then 0 else 1)\<rparr>"

definition list_scan :: "((string \<times> string) \<times> string) list scan_api" where
  "list_scan =
     \<lparr>sc_keys = (\<lambda>db pattern. filter (starts_with (butlast pattern)) (map (\<lambda>e. fst (fst e)) db)),
      sc_delete = (\<lambda>db k. filter (\<lambda>e. fst (fst e) \<noteq> k) db)\<rparr>"

lemma map_of_filter_fst:
  "map_of (filter (\<lambda>e. P (fst e)) kvs) k = (if P k then map_of kvs k else None)"
  by (induction kvs) auto

lemma list_laws: "redis_laws list_api"
  unfolding redis_laws_def list_api_def
  by (auto simp: map_of_filter_fst[of "\<lambda>x. x \<noteq> (k, f)" for k f])

lemma list_scan_laws: "scan_laws list_api list_scan"
  unfolding scan_laws_def list_api_def list_scan_def
  by (auto simp: map_of_filter_fst[of "\<lambda>x. fst x \<noteq> k" for k] image_iff dest!: map_of_SomeD)
    (metis fst_conv)

text \<open>
  The two scan patterns find all of a namespace and nothing of another: after the purge no rule of any
  store on the namespace is left, whatever its replica count was, nor the record of that count, so a
  store with any other count can be opened; keys with other prefixes keep their fields.
\<close>

theorem purge_clears_namespace:
  assumes "scan_laws api scan" "rs_namespace st = CROSS_NAMESPACE"
  shows "represents api st (purge scan purge_patterns db) no_rules
    \<and> rule_store_init api (purge scan purge_patterns db) CROSS_NAMESPACE n
      = Inr \<lparr>rs_namespace = CROSS_NAMESPACE, rs_num_buckets = n\<rparr>
    \<and> (\<not> list_ex (\<lambda>p. starts_with p k) purge_prefixes
        \<longrightarrow> hget api (purge scan purge_patterns db) k f = hget api db k f)"
  by (intro conjI impI purge_represents[OF assms] purge_init[OF assms(1)]) (simp add: purged_hget[OF assms(1)])

text \<open>Two stores with other replica counts share the namespace, next to a key of another tool.\<close>

theorem purge_clears_namespace_witness:
  "rule_store_init list_api
      (purge list_scan purge_patterns [((bucketing_meta_key ''xpy'', ''num_buckets''), ''8''), ((''bench:1'', ''f''), ''x'')])
      CROSS_NAMESPACE 4 = Inr \<lparr>rs_namespace = CROSS_NAMESPACE, rs_num_buckets = 4\<rparr>
    \<and> rule_store_init list_api [((bucketing_meta_key ''xpy'', ''num_buckets''), ''8'')] CROSS_NAMESPACE 4
      = Inl (ValueError ''num_buckets'')"
proof
  show "rule_store_init list_api
      (purge list_scan purge_patterns [((bucketing_meta_key ''xpy'', ''num_buckets''), ''8''), ((''bench:1'', ''f''), ''x'')])
      CROSS_NAMESPACE 4 = Inr \<lparr>rs_namespace = CROSS_NAMESPACE, rs_num_buckets = 4\<rparr>"
    using purge_clears_namespace[OF list_scan_laws,
        of "\<lparr>rs_namespace = CROSS_NAMESPACE, rs_num_buckets = 4\<rparr>"] by simp
qed code_simp


section \<open>The golden answers\<close>

definition cross_answer :: "string \<times> int \<times> string \<times> string \<Rightarrow> rule_match option" where
  "cross_answer q =
     (case q of (f1, port, f2, mode) \<Rightarrow>
       (case (normalize_fqdn f1, normalize_fqdn f2, map_of MODES mode) of
          (Inr q1, Inr q2, Some m) \<Rightarrow> ref_lookup CROSS_RULES m q1 port q2
        | _ \<Rightarrow> None))"

definition cross_query_ok :: "string \<times> int \<times> string \<times> string \<Rightarrow> bool" where
  "cross_query_ok q =
     (case q of (f1, port, f2, mode) \<Rightarrow>
       (case (normalize_fqdn f1, normalize_fqdn f2, map_of MODES mode) of
          (Inr q1, Inr q2, Some m) \<Rightarrow> CHR '':'' \<notin> set q1 \<and> 0 < port \<and> port < 65536
        | _ \<Rightarrow> False))"

lemma cross_queries_ok: "list_all cross_query_ok CROSS_QUERIES"
  by code_simp

lemma cross_rules_ok: "list_all rule_ok CROSS_RULES" "distinct (map rule_key CROSS_RULES)"
  by code_simp+

lemma crosscheck_answers:
  assumes "redis_laws api" "scan_laws api scan"
    and "store_ok \<lparr>rs_namespace = CROSS_NAMESPACE, rs_num_buckets = n\<rparr>"
  shows "\<exists>db'. crosscheck api scan db n = Inr (map cross_answer CROSS_QUERIES, db')"
proof -
  let ?st = "\<lparr>rs_namespace = CROSS_NAMESPACE, rs_num_buckets = n\<rparr>"
  let ?db1 = "purge scan purge_patterns db"
  have "represents api ?st ?db1 no_rules" by (rule purge_represents[OF assms(2)]) simp
  from bulk_load_answers[OF assms(1,3) this cross_rules_ok]
  obtain db' where put: "rs_put_many api ?st ?db1 CROSS_RULES = Inr db'"
    and look: "\<And>f1 q1 port f2 q2 mode. normalize_fqdn f1 = Inr q1 \<Longrightarrow> CHR '':'' \<notin> set q1
      \<Longrightarrow> normalize_fqdn f2 = Inr q2 \<Longrightarrow> 0 < port \<Longrightarrow> port < 65536
      \<Longrightarrow> rs_lookup api ?st db' f1 port f2 mode = Inr (ref_lookup CROSS_RULES mode q1 port q2)"
    by blast
  have "mapR (\<lambda>(fqdn1, port, fqdn2, mode).
      case map_of MODES mode of
        None \<Rightarrow> Inl KeyError
      | Some m \<Rightarrow> rs_lookup api ?st db' fqdn1 port fqdn2 m) CROSS_QUERIES
    = Inr (map cross_answer CROSS_QUERIES)"
  proof (rule mapR_Inr)
    fix q assume "q \<in> set CROSS_QUERIES"
    with cross_queries_ok have "cross_query_ok q" by (simp add: list_all_iff)
    then show "(case q of (fqdn1, port, fqdn2, mode) \<Rightarrow>
        case map_of MODES mode of None \<Rightarrow> Inl KeyError
        | Some m \<Rightarrow> rs_lookup api ?st db' fqdn1 port fqdn2 m) = Inr (cross_answer q)"
      by (auto simp: cross_query_ok_def cross_answer_def look split: prod.splits sum.splits option.splits)
  qed
  then show ?thesis unfolding crosscheck_def Let_def purge_init[OF assms(2)] by (simp add: put)
qed

text \<open>The rule and the ranks each query has to get, in the order of the queries.\<close>

definition cross_golden :: "(string \<times> nat \<times> nat) option list" where
  "cross_golden =
     [Some (''r-exact'', 0, 0), Some (''r-exact'', 0, 0), Some (''r-exact-any'', 0, 255), None,
      Some (''r-corp-exact'', 1, 0), Some (''r-corp-wild'', 1, 1), Some (''r-corp-exact'', 1, 0), None,
      Some (''r-corp-exact'', 2, 0), Some (''r-tls-strict'', 1, 255), Some (''r-tls-strict'', 1, 255),
      None, None, Some (''r-deep-only'', 2, 255), None, Some (''r-tld'', 2, 2), None,
      Some (''r-global'', 255, 0), Some (''r-global'', 255, 0), Some (''r-beta'', 0, 1),
      Some (''r-beta'', 0, 1), None, Some (''r-exact'', 0, 0), Some (''r-exact-multi-scope'', 0, 0)]
     @ replicate 5 (Some (''r-global-any'', 255, 255))"

text \<open>
  C30: The golden file does not depend on the server's earlier contents or on the number of replicas: on
  every such store the 29 queries get the same answers, 22 of them hits.
\<close>

theorem crosscheck_golden:
  assumes "redis_laws api" "scan_laws api scan"
    and "store_ok \<lparr>rs_namespace = CROSS_NAMESPACE, rs_num_buckets = n\<rparr>"
  shows "\<exists>results db'. crosscheck api scan db n = Inr (results, db')
    \<and> map (map_option (\<lambda>m. (m_rule_id m, m_specificity m))) results = cross_golden
    \<and> hd (crosscheck_report out results)
      = ''wrote '' @ out @ '' with 12 rules, 29 queries, 22 hits, 7 misses''"
proof -
  let ?rs = "map cross_answer CROSS_QUERIES"
  have answers: "map (map_option (\<lambda>m. (m_rule_id m, m_specificity m))) ?rs
      = cross_golden" by code_simp
  have counts: "length (filter (\<lambda>r. r \<noteq> None) ?rs) = 22" "length CROSS_RULES = 12" "length CROSS_QUERIES = 29"
    by code_simp+
  have strs: "py_str 12 = ''12''" "py_str 29 = ''29''" "py_str 22 = ''22''" "py_str 7 = ''7''"
    by code_simp+
  have "hd (crosscheck_report out ?rs) = ''wrote '' @ out @ '' with 12 rules, 29 queries, 22 hits, 7 misses''"
    unfolding crosscheck_report_def Let_def counts list.sel by (simp add: strs)
  with answers crosscheck_answers[OF assms, of db] show ?thesis by blast
qed

theorem crosscheck_golden_witness:
  "\<exists>results db'. crosscheck list_api list_scan [] 4 = Inr (results, db') \<and> results ! 3 = None
    \<and> map_option m_rule_id (results ! 4) = Some ''r-corp-exact''"
proof -
  have "store_ok \<lparr>rs_namespace = CROSS_NAMESPACE, rs_num_buckets = 4\<rparr>" by (simp add: store_ok_def table_4)
  from crosscheck_golden[OF list_laws list_scan_laws this, of "[]" "[]"]
  obtain results db' where r: "crosscheck list_api list_scan [] 4 = Inr (results, db')"
    and m: "map (map_option (\<lambda>m. (m_rule_id m, m_specificity m))) results = cross_golden"
    by blast
  have len: "length results = 29" using arg_cong[OF m, of length] by (simp add: cross_golden_def)
  have g: "cross_golden ! 3 = None" "cross_golden ! 4 = Some (''r-corp-exact'', 1, 0)"
    by (simp_all add: cross_golden_def)
  have "results ! 3 = None" using g(1) unfolding m[symmetric] by (simp add: len)
  moreover have "map_option m_rule_id (results ! 4) = Some ''r-corp-exact''"
    using g(2) unfolding m[symmetric] by (auto simp: len)
  ultimately show ?thesis using r by blast
qed

end
