(* ===== verification/Diag_Cpu.thy ===== *)
theory Diag_Cpu
  imports Mem_Report Fqdn_Slots
begin

text \<open>
  What the two CPU diagnostics \<open>fqdnrules/diagnose_hot_tag_routing.py\<close> and
  \<open>fqdnrules/diagnose_router_hotspot.py\<close> share: reading the CPU ticks of the server's threads from
  \<open>/proc\<close>, the report on who absorbed the CPU, and a worker's timed loop.
\<close>

section \<open>The stat lines of the threads\<close>

text \<open>\<open>s.split()\<close>: the runs of other characters between blanks.\<close>

fun split_by :: "(char \<Rightarrow> bool) \<Rightarrow> string \<Rightarrow> string list" where
  "split_by p [] = [[]]"
| "split_by p (c # s) =
     (if p c then [] # split_by p s
      else (case split_by p s of [] \<Rightarrow> [[c]] | w # ws \<Rightarrow> (c # w) # ws))"

definition words :: "string \<Rightarrow> string list" where
  "words s = filter (\<lambda>w. w \<noteq> []) (split_by is_space s)"

text \<open>\<open>s.rfind(c)\<close>, and an index into a list that may raise.\<close>

definition rfind :: "char \<Rightarrow> string \<Rightarrow> int" where
  "rfind c s =
     (case find_from c (rev s) 0 of None \<Rightarrow> - 1 | Some i \<Rightarrow> int (length s) - 1 - int i)"

definition item :: "'a list \<Rightarrow> nat \<Rightarrow> 'a result" where
  "item xs i = (if i < length xs then Inr (xs ! i) else Inl IndexError)"

text \<open>The ticks of one thread, \<open>int(rest[11]) + int(rest[12])\<close>, from the text of its stat file.\<close>

definition stat_ticks :: "string \<Rightarrow> int result" where
  "stat_ticks data =
     (let rest = words (drop (nat (rfind (CHR '')'') data + 2)) data)
      in bindR (item rest 11) (\<lambda>f11. bindR (py_int f11) (\<lambda>utime.
         bindR (item rest 12) (\<lambda>f12. bindR (py_int f12) (\<lambda>stime. Inr (utime + stime))))))"

text \<open>
  The directory \<open>/proc/<pid>/task\<close> as the names it lists, each with the text of its stat file
  or \<open>None\<close> when the thread is gone by the time it is read; \<open>None\<close> when it cannot be listed.
\<close>

type_synonym proc_dir = "(string \<times> string option) list option"

fun read_ticks :: "(string \<times> string option) list \<Rightarrow> (int \<times> int) list \<Rightarrow> (int \<times> int) list result" where
  "read_ticks [] ticks = Inr ticks"
| "read_ticks ((tid_str, None) # rest) ticks = read_ticks rest ticks"
| "read_ticks ((tid_str, Some data) # rest) ticks =
     bindR (stat_ticks data) (\<lambda>t. bindR (py_int tid_str) (\<lambda>tid. read_ticks rest (AList.update tid t ticks)))"

definition read_thread_cpu_ticks :: "proc_dir \<Rightarrow> (int \<times> int) list result" where
  "read_thread_cpu_ticks dir =
     (case dir of None \<Rightarrow> Inl (OSError ''task'') | Some listing \<Rightarrow> read_ticks listing [])"


section \<open>The report\<close>

definition dict_get :: "('k \<times> 'v) list \<Rightarrow> 'k \<Rightarrow> 'v \<Rightarrow> 'v" where
  "dict_get d k dflt = (case map_of d k of None \<Rightarrow> dflt | Some v \<Rightarrow> v)"

definition tick_deltas :: "(int \<times> int) list \<Rightarrow> (int \<times> int) list \<Rightarrow> (int \<times> int) list" where
  "tick_deltas before after =
     filter (\<lambda>(tid, d). d > 0)
       (map (\<lambda>(tid, t). (tid, dict_get after tid 0 - dict_get before tid 0)) after)"

definition ranked_deltas :: "(int \<times> int) list \<Rightarrow> (int \<times> int) list" where
  "ranked_deltas deltas = sort_key (\<lambda>kv. - snd kv) deltas"

definition top_share :: "(int \<times> int) list \<Rightarrow> rat" where
  "top_share deltas =
     fdiv (of_int (100 * snd (hd (ranked_deltas deltas)))) (of_int (sum_list (map snd deltas)))"

definition share_verdict :: "rat \<Rightarrow> string" where
  "share_verdict share =
     (if share > 60 then ''CONCENTRATED'' else if share > 30 then ''PARTIALLY CONCENTRATED'' else ''SPREAD'')"

definition thread_line :: "int \<Rightarrow> int \<Rightarrow> rat \<Rightarrow> int \<times> int \<Rightarrow> string" where
  "thread_line CLK_TCK tot duration kv =
     (case kv of (tid, d) \<Rightarrow>
        let secs = fdiv (of_int d) (of_int CLK_TCK);
            pct_of_total = fdiv (of_int (100 * d)) (of_int tot);
            pct_of_wall = fdiv (fmul 100 secs) duration
        in ''    tid='' @ py_str tid @ '': '' @ fixed_point 2 secs @ ''s -- ''
           @ fixed_point 0 pct_of_total @ ''% of measured CPU, ''
           @ fixed_point 0 pct_of_wall @ ''% of one core's wall time'')"

text \<open>
  The printed lines, for a clock of \<open>CLK_TCK\<close> ticks a second. The division by the duration is the
  only one that can raise: the totals are positive once a difference is.
\<close>

definition print_thread_report ::
  "int \<Rightarrow> (int \<times> int) list \<Rightarrow> (int \<times> int) list \<Rightarrow> rat \<Rightarrow> string list result" where
  "print_thread_report CLK_TCK before after duration =
     (let deltas = tick_deltas before after in
      if deltas = [] then
        Inr [''  no per-thread CPU delta observed (load may have been too light/short)'']
      else
        let tot = sum_list (map snd deltas);
            ranked = ranked_deltas deltas
        in if duration = 0 then Inl ZeroDivisionError
           else Inr
             ([''  total measured CPU: '' @ fixed_point 2 (fdiv (of_int tot) (of_int CLK_TCK))
                @ ''s (core-seconds) over '' @ fixed_point 1 duration @ ''s wall'']
              @ map (thread_line CLK_TCK tot duration) (take 6 ranked)
              @ [''  verdict: '' @ share_verdict (top_share deltas) @ '' -- busiest thread absorbed ''
                 @ fixed_point 0 (top_share deltas) @ ''% of measured CPU'']))"


section \<open>A worker's timed loop\<close>

text \<open>
  \<open>clock i\<close> is the \<open>i\<close>-th reading of \<open>time.monotonic()\<close> in the worker. While the reading is before
  \<open>stop_at\<close> a batch of \<open>batch\<close> keys is sent; the loop ends with the count and the keys in the order in
  which they were sent. A clock that never reaches \<open>stop_at\<close> keeps it going: the value \<open>None\<close>.
\<close>

partial_function (option) timed_loop ::
  "(nat \<Rightarrow> rat) \<Rightarrow> rat \<Rightarrow> (int \<Rightarrow> 'k result) \<Rightarrow> nat \<Rightarrow> nat \<Rightarrow> int \<Rightarrow> 'k list
    \<Rightarrow> (int \<times> 'k list) result option" where
  "timed_loop clock stop_at key_fn batch i n sent =
     (if clock i < stop_at then
        (case mapR key_fn [n..n + int batch - 1] of
           Inl e \<Rightarrow> Some (Inl e)
         | Inr ks \<Rightarrow> timed_loop clock stop_at key_fn batch (Suc i) (n + int batch) (sent @ ks))
      else Some (Inr (n, sent)))"

text \<open>
  The workers of the pool, each with its own clock readings; the first error in the order of the
  workers is raised once all have ended. The counts are added.
\<close>

fun run_workers ::
  "(nat \<Rightarrow> (int \<times> 'k list) result option) \<Rightarrow> nat list \<Rightarrow> (int \<times> 'k list list) result option" where
  "run_workers worker [] = Some (Inr (0, []))"
| "run_workers worker (idx # idxs) =
     (case (worker idx, run_workers worker idxs) of
        (Some r, Some rs) \<Rightarrow>
          Some (bindR r (\<lambda>(n, sent). bindR rs (\<lambda>(m, sents). Inr (n + m, sent # sents))))
      | _ \<Rightarrow> None)"

text \<open>\<open>ThreadPoolExecutor(max_workers=concurrency)\<close> needs at least one worker.\<close>

definition run_pool ::
  "int \<Rightarrow> (nat \<Rightarrow> (int \<times> 'k list) result option) \<Rightarrow> (int \<times> 'k list list) result option" where
  "run_pool concurrency worker =
     (if concurrency \<le> 0 then Some (Inl (ValueError ''max_workers''))
      else run_workers worker [0..<nat concurrency])"


section \<open>Lemmas\<close>

lemma split_by_nonempty [simp]: "split_by p s \<noteq> []"
  by (cases s) (auto split: list.splits)

lemma split_by_append_sep:
  "list_all (\<lambda>c. \<not> p c) s \<Longrightarrow> p b \<Longrightarrow> split_by p (s @ b # t) = s # split_by p t"
  by (induction s) auto

lemma split_by_none: "list_all (\<lambda>c. \<not> p c) s \<Longrightarrow> split_by p s = [s]"
  by (induction s) auto

text \<open>A token has no blank and is not empty; tokens joined by single blanks are the words.\<close>

definition is_token :: "string \<Rightarrow> bool" where
  "is_token s \<longleftrightarrow> s \<noteq> [] \<and> list_all (\<lambda>c. \<not> is_space c) s"

lemma words_join:
  assumes "list_all is_token ts"
  shows "words (join '' '' ts) = ts"
  using assms
proof (induction ts)
  case Nil
  show ?case by (simp add: words_def)
next
  case (Cons t ts)
  have sp: "is_space (CHR '' '')" by (simp add: is_space_def Let_def)
  from Cons.prems have t: "list_all (\<lambda>c. \<not> is_space c) t" "t \<noteq> []" by (simp_all add: is_token_def)
  show ?case
  proof (cases ts)
    case Nil
    with t show ?thesis by (simp add: words_def split_by_none)
  next
    case (Cons u us)
    then have j: "join '' '' (t # ts) = t @ CHR '' '' # join '' '' ts" by simp
    have "words (join '' '' ts) = ts" using Cons.IH Cons.prems by simp
    then show ?thesis unfolding j words_def using split_by_append_sep[of is_space, OF t(1) sp] t(2) by simp
  qed
qed

lemma rfind_last:
  assumes "c \<notin> set t"
  shows "rfind c (s @ c # t) = int (length s)"
proof -
  have "find_from c (rev t @ c # rev s) 0 = Some (length t)"
    using find_from_0_append[of c "rev t" "rev s"] assms by simp
  then show ?thesis by (simp add: rfind_def)
qed

text \<open>The loop up to the first reading that is late.\<close>

lemma upto_nats: "[int a..int a + int b - 1] = map int [a..<a + b]"
proof -
  have "[int a..int (a + b) - 1] = map int [a..<a + b]"
    by (rule nth_equalityI) auto
  then show ?thesis by (simp add: algebra_simps)
qed

lemma timed_loop_from:
  assumes "\<And>n. key_fn n = Inr (g n)" "\<not> clock k < stop_at" "\<And>j. j < k \<Longrightarrow> clock j < stop_at" "i \<le> k"
  shows "timed_loop clock stop_at key_fn b i (int (i * b)) (map (\<lambda>j. g (int j)) [0..<i * b])
    = Some (Inr (int (k * b), map (\<lambda>j. g (int j)) [0..<k * b]))"
  using assms(4)
proof (induction "k - i" arbitrary: i)
  case 0
  then have "i = k" by simp
  then show ?case using assms(2) by (simp add: timed_loop.simps)
next
  case (Suc d)
  then have lt: "i < k" by simp
  have ks: "mapR key_fn [int (i * b)..int (i * b) + int b - 1] = Inr (map g [int (i * b)..int (i * b) + int b - 1])"
    by (rule mapR_Inr) (rule assms(1))
  have app: "[0..<i * b] @ [i * b..<i * b + b] = [0..<Suc i * b]"
    using upt_add_eq_append[of 0 "i * b" b] by (simp add: add.commute)
  have st: "map (\<lambda>j. g (int j)) [0..<i * b] @ map g [int (i * b)..int (i * b) + int b - 1]
      = map (\<lambda>j. g (int j)) [0..<Suc i * b]"
    unfolding upto_nats app[symmetric] by (simp add: comp_def)
  have n: "int (i * b) + int b = int (Suc i * b)" by (simp add: algebra_simps)
  have "timed_loop clock stop_at key_fn b (Suc i) (int (Suc i * b)) (map (\<lambda>j. g (int j)) [0..<Suc i * b])
      = Some (Inr (int (k * b), map (\<lambda>j. g (int j)) [0..<k * b]))"
    by (rule Suc.hyps(1)) (use Suc.hyps(2) lt in auto)
  then show ?case
    by (subst timed_loop.simps) (simp only: assms(3)[OF lt] ks[unfolded n] st[unfolded n] n sum.case if_True)
qed

lemma timed_loop_stops:
  assumes "\<And>n. key_fn n = Inr (g n)" "\<not> clock k < stop_at" "\<And>j. j < k \<Longrightarrow> clock j < stop_at"
  shows "timed_loop clock stop_at key_fn b 0 0 [] = Some (Inr (int (k * b), map (\<lambda>j. g (int j)) [0..<k * b]))"
  using timed_loop_from[of key_fn g clock k stop_at 0 b] assms by simp

lemma timed_loop_returns:
  assumes "timed_loop clock stop_at key_fn b i n sent = Some r" "\<forall>n. \<exists>k. key_fn n = Inr k"
  shows "\<exists>j\<ge>i. \<not> clock j < stop_at"
  using assms
proof (induction rule: timed_loop.raw_induct[rotated, consumes 1, case_names step])
  case (step rec clock stop_at key_fn b i n sent r)
  show ?case
  proof (cases "clock i < stop_at")
    case True
    obtain g where g: "\<And>n. key_fn n = Inr (g n)" using step(3) by metis
    have "mapR key_fn [n..n + int b - 1] = Inr (map g [n..n + int b - 1])"
      by (rule mapR_Inr) (rule g)
    with step(2) True have "rec clock stop_at key_fn b (Suc i) (n + int b) (sent @ map g [n..n + int b - 1]) = Some r"
      by simp
    from step(1)[OF this step(3)] obtain j where "Suc i \<le> j" "\<not> clock j < stop_at" by blast
    then show ?thesis by (meson Suc_leD)
  next
    case False
    then show ?thesis by blast
  qed
qed

lemma first_late:
  assumes "\<not> clock (j::nat) < (stop_at::rat)"
  shows "\<exists>k. \<not> clock k < stop_at \<and> (\<forall>i<k. clock i < stop_at)"
  using exists_least_iff[of "\<lambda>i. \<not> clock i < stop_at"] assms by blast

lemma run_workers_Some:
  assumes "\<And>i. i \<in> set idxs \<Longrightarrow> worker i = Some (Inr (cnt i, sent i))"
  shows "run_workers worker idxs = Some (Inr (sum_list (map cnt idxs), map sent idxs))"
  using assms by (induction idxs) auto

text \<open>The report's verdict.\<close>

lemma tick_deltas_pos: "(tid, d) \<in> set (tick_deltas before after) \<Longrightarrow> 0 < d"
  by (auto simp: tick_deltas_def)

lemma ranked_top:
  assumes "deltas \<noteq> []"
  shows "snd (hd (ranked_deltas deltas)) = Max (snd ` set deltas)"
proof -
  let ?r = "ranked_deltas deltas"
  have ne: "?r \<noteq> []" using assms by (metis length_0_conv length_sort ranked_deltas_def)
  have st: "set ?r = set deltas" by (simp add: ranked_deltas_def)
  have srt: "sorted (map (\<lambda>kv. - snd kv) ?r)" by (simp add: ranked_deltas_def)
  have mx: "snd x \<le> snd (hd ?r)" if x: "x \<in> set deltas" for x
  proof -
    from ne obtain y ys where r: "?r = y # ys" by (cases ?r) auto
    with x srt st show ?thesis by (auto simp: r)
  qed
  have "hd ?r \<in> set deltas" using hd_in_set[OF ne] st by simp
  then have "snd (hd ?r) \<in> snd ` set deltas" by simp
  then show ?thesis using mx by (intro Max_eqI[symmetric]) auto
qed

lemma share_gt:
  fixes d tot k :: int
  assumes "0 < tot" "0 \<le> d" "100 * d < 2 ^ 53"
  shows "fdiv (of_int (100 * d)) (of_int tot) > of_int k \<longleftrightarrow> 100 * d > k * tot"
proof -
  have tp: "(0::rat) < of_int tot" using assms(1) by simp
  have q: "(of_int k < (of_int (100 * d) / of_int tot :: rat)) = (k * tot < 100 * d)"
  proof -
    have "(of_int k < (of_int (100 * d) / of_int tot :: rat)) = (of_int k * of_int tot < (of_int (100 * d) :: rat))"
      by (rule pos_less_divide_eq[OF tp])
    also have "\<dots> = ((of_int (k * tot) :: rat) < of_int (100 * d))" by (simp only: of_int_mult)
    also have "\<dots> = (k * tot < 100 * d)" by (rule of_int_less_iff)
    finally show ?thesis .
  qed
  have d0: "0 \<le> 100 * d" using assms(2) by simp
  show ?thesis
  proof (cases "of_int k < (of_int (100 * d) / of_int tot :: rat)")
    case True
    from quotient_gap(1)[OF assms(1) d0 assms(3) True] True q show ?thesis by simp
  next
    case False
    then consider "(of_int (100 * d) / of_int tot :: rat) < of_int k"
      | "(of_int (100 * d) / of_int tot :: rat) = of_int k" by linarith
    then have "fdiv (of_int (100 * d)) (of_int tot) \<le> of_int k"
    proof cases
      case 1
      from quotient_gap(2)[OF assms(1) d0 assms(3) 1] show ?thesis by simp
    next
      case 2
      then have "(of_int (100 * d) :: rat) = of_int k * of_int tot" using tp by (simp add: nonzero_divide_eq_eq)
      then have "(of_int (100 * d) :: rat) = of_int (k * tot)" by (simp only: of_int_mult)
      then have "100 * d = k * tot" by (simp only: of_int_eq_iff)
      from fdiv_exact[OF assms(1) d0 assms(3) this] show ?thesis by simp
    qed
    with False q show ?thesis by simp
  qed
qed

section \<open>Properties\<close>

text \<open>
  The stat line is read right whatever the thread's name contains, blanks and closing parentheses
  included: the ticks are the 12th and the 13th token after the last closing parenthesis.
\<close>

theorem stat_ticks_any_comm:
  assumes "list_all is_token toks" "list_all (\<lambda>f. CHR '')'' \<notin> set f) toks" "13 \<le> length toks"
    and "toks ! 11 = py_str utime" "toks ! 12 = py_str stime"
  shows "stat_ticks (pid @ '' ('' @ comm @ '') '' @ join '' '' toks) = Inr (utime + stime)"
proof -
  have free: "CHR '')'' \<notin> set (join '' '' fs)" if "list_all (\<lambda>f. CHR '')'' \<notin> set f) fs" for fs
    using that by (induction fs rule: induct_list012) auto
  let ?pre = "pid @ '' ('' @ comm" and ?post = "CHR '' '' # join '' '' toks"
  have line: "pid @ '' ('' @ comm @ '') '' @ join '' '' toks = ?pre @ CHR '')'' # ?post" by simp
  have "CHR '')'' \<notin> set ?post" using free[OF assms(2)] by simp
  then have "rfind (CHR '')'') (?pre @ CHR '')'' # ?post) = int (length ?pre)" by (rule rfind_last)
  then have r: "nat (rfind (CHR '')'') (?pre @ CHR '')'' # ?post) + 2) = length ?pre + 2" by simp
  have "drop (length p + 2) (p @ a # b # t) = t" for p t :: string and a b by simp
  then have "drop (nat (rfind (CHR '')'') (?pre @ CHR '')'' # ?post) + 2)) (?pre @ CHR '')'' # ?post) = join '' '' toks"
    unfolding r by blast
  then show ?thesis
    unfolding line stat_ticks_def Let_def
    using words_join[OF assms(1)] assms(3-5) by (simp add: item_def)
qed

theorem stat_ticks_any_comm_witness:
  "stat_ticks ''77 (a) b) S 1 2 3 4 5 6 7 8 9 10 250 40 0'' = Inr 290"
proof -
  let ?fs = "[''S'', ''1'', ''2'', ''3'', ''4'', ''5'', ''6'', ''7'', ''8'', ''9'', ''10'', ''250'', ''40'', ''0'']"
  have "list_all is_token ?fs" "list_all (\<lambda>f. CHR '')'' \<notin> set f) ?fs" "13 \<le> length ?fs"
    "?fs ! 11 = py_str 250" "?fs ! 12 = py_str 40"
    by code_simp+
  from stat_ticks_any_comm[OF this, of "''77''" "''a) b''"] show ?thesis by simp
qed

text \<open>
  C35: The verdict of the report is exact, the float percentages notwithstanding: CONCENTRATED when the
  busiest thread has more than 60% of the ticks, PARTIALLY CONCENTRATED above 30%, SPREAD otherwise.
  In particular a load that keeps at most three threads busy is never reported as SPREAD, however
  evenly it is spread over them.
\<close>

theorem thread_verdict_exact:
  assumes "tick_deltas before after \<noteq> []" "duration \<noteq> 0"
    and "100 * sum_list (map snd (tick_deltas before after)) < 2 ^ 53"
    and "busiest = Max (snd ` set (tick_deltas before after))" "tot = sum_list (map snd (tick_deltas before after))"
  shows "\<exists>lines. print_thread_report CLK_TCK before after duration = Inr lines
    \<and> starts_with (''  verdict: '' @ (if 5 * busiest > 3 * tot then ''CONCENTRATED''
        else if 10 * busiest > 3 * tot then ''PARTIALLY CONCENTRATED'' else ''SPREAD'') @ '' -- '') (last lines)
    \<and> (length (tick_deltas before after) \<le> 3 \<longrightarrow> 10 * busiest > 3 * tot)"
proof -
  let ?D = "tick_deltas before after"
  have pos: "0 < snd x" if "x \<in> set ?D" for x using that tick_deltas_pos[of "fst x" "snd x"] by simp
  have le: "snd x \<le> busiest" if "x \<in> set ?D" for x using that by (simp add: assms(4))
  have "Max (snd ` set ?D) \<in> snd ` set ?D" using assms(1) by (intro Max_in) auto
  then have busiest: "0 < busiest" "busiest \<in> set (map snd ?D)" using pos by (auto simp: assms(4))
  have tt: "busiest \<le> tot" unfolding assms(5)
    by (rule member_le_sum_list[OF busiest(2)]) (use pos in \<open>auto intro: less_imp_le\<close>)
  have bnd: "tot \<le> int (length ?D) * busiest"
    unfolding assms(5) using sum_list_mono[of ?D snd "\<lambda>_. busiest"] le by (simp add: sum_list_triv)
  have gt: "fdiv (of_int (100 * busiest)) (of_int tot) > of_int k \<longleftrightarrow> 100 * busiest > k * tot" for k
    by (rule share_gt) (use busiest tt assms(3,5) in auto)
  have sh: "top_share ?D = fdiv (of_int (100 * busiest)) (of_int tot)"
    using ranked_top[OF assms(1)] by (simp add: top_share_def assms(4,5))
  have v: "share_verdict (top_share ?D) = (if 5 * busiest > 3 * tot then ''CONCENTRATED''
      else if 10 * busiest > 3 * tot then ''PARTIALLY CONCENTRATED'' else ''SPREAD'')"
    using gt[of 60] gt[of 30] unfolding share_verdict_def sh by simp
  have few: "length ?D \<le> 3 \<longrightarrow> 10 * busiest > 3 * tot"
  proof
    assume "length ?D \<le> 3"
    then have "int (length ?D) * busiest \<le> 3 * busiest" using busiest by (intro mult_right_mono) auto
    with bnd busiest show "10 * busiest > 3 * tot" by linarith
  qed
  have "\<exists>lines. print_thread_report CLK_TCK before after duration = Inr lines
    \<and> starts_with (''  verdict: '' @ share_verdict (top_share ?D) @ '' -- '') (last lines)"
    using assms(1,2) by (simp add: print_thread_report_def Let_def starts_with_iff)
  with few show ?thesis unfolding v by blast
qed

theorem thread_verdict_exact_witness:
  "\<exists>lines. print_thread_report 100 [(7, 10), (8, 0)] [(7, 110), (8, 100), (9, 100)] 5 = Inr lines
    \<and> starts_with ''  verdict: PARTIALLY CONCENTRATED -- '' (last lines)"
proof -
  let ?b = "[(7, 10), (8, 0)] :: (int \<times> int) list" and ?a = "[(7, 110), (8, 100), (9, 100)] :: (int \<times> int) list"
  have d: "tick_deltas ?b ?a = [(7, 100), (8, 100), (9, 100)]" by code_simp
  have "tick_deltas ?b ?a \<noteq> []" "(5::rat) \<noteq> 0"
    "100 * sum_list (map snd (tick_deltas ?b ?a)) < 2 ^ 53"
    "100 = Max (snd ` set (tick_deltas ?b ?a))" "300 = sum_list (map snd (tick_deltas ?b ?a))"
    unfolding d by simp_all
  from thread_verdict_exact[OF this, of 100] show ?thesis by simp
qed

text \<open>
  A worker's timed loop ends exactly when its clock reaches the deadline, and by then it has sent
  one full batch for every reading before the deadline, the keys in the order of their numbers.
\<close>

theorem timed_loop_ends:
  assumes "\<And>n. key_fn n = Inr (g n)"
  shows "(timed_loop clock stop_at key_fn b 0 0 [] = None) = (\<forall>j. clock j < stop_at)
    \<and> (\<forall>k. \<not> clock k < stop_at \<and> (\<forall>j<k. clock j < stop_at) \<longrightarrow>
         timed_loop clock stop_at key_fn b 0 0 [] = Some (Inr (int (k * b), map (\<lambda>j. g (int j)) [0..<k * b])))"
proof -
  have stops: "timed_loop clock stop_at key_fn b 0 0 [] = Some (Inr (int (k * b), map (\<lambda>j. g (int j)) [0..<k * b]))"
    if "\<not> clock k < stop_at" "\<forall>j<k. clock j < stop_at" for k
    using timed_loop_stops[of key_fn g clock k stop_at b] assms that by blast
  moreover have "\<forall>j. clock j < stop_at" if "timed_loop clock stop_at key_fn b 0 0 [] = None"
    using stops first_late that by (metis option.distinct(1))
  moreover have "timed_loop clock stop_at key_fn b 0 0 [] = None" if "\<forall>j. clock j < stop_at"
    using timed_loop_returns[of clock stop_at key_fn b 0 0 "[]"] assms that
    by (cases "timed_loop clock stop_at key_fn b 0 0 []") blast+
  ultimately show ?thesis by blast
qed

theorem timed_loop_ends_witness:
  "timed_loop (\<lambda>j. of_nat j) 3 (\<lambda>n. Inr n) 2 0 0 [] = Some (Inr (6, [0, 1, 2, 3, 4, 5]))"
proof -
  have late: "\<not> (of_nat 3 :: rat) < 3 \<and> (\<forall>j<3. (of_nat j :: rat) < 3)" by simp
  have e: "(Inr n :: int result) = Inr ((\<lambda>n. n) n)" for n by simp
  have "timed_loop (\<lambda>j. of_nat j) 3 (\<lambda>n. Inr n) 2 0 0 [] = Some (Inr (int (3 * 2), map (\<lambda>j. int j) [0..<3 * 2]))"
    using timed_loop_ends[of "\<lambda>n. Inr n" "\<lambda>n. n" "\<lambda>j. of_nat j" 3 2] late by blast
  then show ?thesis by (simp add: upt_rec)
qed

end
