(* ===== verification/Diag_Hot_Tag.thy ===== *)
theory Diag_Hot_Tag
  imports Diag_Cpu
begin

text \<open>
  \<open>fqdnrules/diagnose_hot_tag_routing.py\<close>: the two load phases, the keys they send, the load
  generator and the main flow.  The clock readings, the contents of \<open>/proc\<close> and the server's INFO are
  arguments.  The increments of the workers are kept as the keys each worker sent, in order.
\<close>

section \<open>Keys and phases\<close>

definition hot_key :: "string \<Rightarrow> string" where
  "hot_key namespace = ''probe:{'' @ namespace @ '':hot}''"

definition hot_key_fn :: "string \<Rightarrow> int \<Rightarrow> string result" where
  "hot_key_fn namespace n = Inr (hot_key namespace)"

definition spread_key_fn :: "string \<Rightarrow> int \<Rightarrow> int \<Rightarrow> string result" where
  "spread_key_fn namespace num_distinct_tags n =
     (if num_distinct_tags = 0 then Inl ZeroDivisionError
      else Inr (''probe:{'' @ namespace @ '':spread'' @ py_str (n mod num_distinct_tags) @ ''}''))"

definition all_phases :: "string \<Rightarrow> int \<Rightarrow> (string \<times> string \<times> (int \<Rightarrow> string result)) list" where
  "all_phases namespace num_distinct_tags =
     [(''concentrated'', ''concentrated (one fixed key)'', hot_key_fn namespace),
      (''distributed'', ''distributed (many distinct tags)'', spread_key_fn namespace num_distinct_tags)]"

text \<open>\<open>[p.strip() for p in s.split(",") if p.strip()]\<close>.\<close>

definition comma_list :: "string \<Rightarrow> string list" where
  "comma_list s = filter (\<lambda>p. p \<noteq> []) (map strip (split_on (CHR '','') s))"

definition requested_phases ::
  "string \<Rightarrow> int \<Rightarrow> string \<Rightarrow> (string \<times> (int \<Rightarrow> string result)) list result" where
  "requested_phases namespace num_distinct_tags phases =
     mapR (\<lambda>p. case map_of (all_phases namespace num_distinct_tags) p of
                 None \<Rightarrow> Inl KeyError | Some ph \<Rightarrow> Inr ph) (comma_list phases)"


section \<open>The load\<close>

text \<open>\<open>t0\<close> is the clock when the load starts, \<open>clocks idx\<close> are the readings of worker \<open>idx\<close>.\<close>

definition batch_size :: "int \<Rightarrow> nat" where
  "batch_size pipeline_size = (if pipeline_size \<le> 1 then 1 else nat pipeline_size)"

definition generate_load ::
  "rat \<Rightarrow> (nat \<Rightarrow> nat \<Rightarrow> rat) \<Rightarrow> int \<Rightarrow> rat \<Rightarrow> (int \<Rightarrow> string result) \<Rightarrow> int
    \<Rightarrow> (int \<times> string list list) result option" where
  "generate_load t0 clocks concurrency duration_seconds key_fn pipeline_size =
     (let stop_at = fadd t0 duration_seconds
      in run_pool concurrency
           (\<lambda>idx. timed_loop (clocks idx) stop_at key_fn (batch_size pipeline_size) 0 0 []))"


section \<open>The main flow\<close>

text \<open>
  The arguments the flow uses; \<open>ht_duration_text\<close> is the duration as it is printed. The environment:
  the clock's ticks a second, the successive listings of \<open>/proc\<close> (the first one is the test whether it
  can be read), the text of the error when it cannot, and the clocks of each phase.
\<close>

record hot_tag_args =
  ht_pid :: "int option"
  ht_concurrency :: int
  ht_duration :: rat
  ht_duration_text :: string
  ht_num_distinct_tags :: int
  ht_namespace :: string
  ht_pipeline_size :: int
  ht_phases :: string

record server_info =
  si_dragonfly_version :: "string option"
  si_thread_count :: "int option"
  si_process_id :: "int option"

record diag_env =
  en_clk_tck :: int
  en_proc :: "nat \<Rightarrow> proc_dir"
  en_proc_error :: string
  en_start :: "nat \<Rightarrow> rat"
  en_clocks :: "nat \<Rightarrow> nat \<Rightarrow> nat \<Rightarrow> rat"

text \<open>\<open>args.pid or server_info.get("process_id")\<close>: zero counts as missing.\<close>

definition choose_pid :: "int option \<Rightarrow> int option \<Rightarrow> int option" where
  "choose_pid arg info = (case arg of Some p \<Rightarrow> (if p \<noteq> 0 then Some p else info) | None \<Rightarrow> info)"

definition pid_usable :: "int option \<Rightarrow> bool" where
  "pid_usable pid = (case pid of None \<Rightarrow> False | Some p \<Rightarrow> p \<noteq> 0)"

definition show_opt :: "string \<Rightarrow> ('a \<Rightarrow> string) \<Rightarrow> 'a option \<Rightarrow> string" where
  "show_opt dflt f x = (case x of None \<Rightarrow> dflt | Some v \<Rightarrow> f v)"

definition info_line :: "server_info \<Rightarrow> int option \<Rightarrow> string" where
  "info_line info pid =
     ''dragonfly_version='' @ show_opt ''n/a'' (\<lambda>s. s) (si_dragonfly_version info)
     @ '' thread_count='' @ show_opt ''n/a'' py_str (si_thread_count info)
     @ '' pid='' @ show_opt ''None'' py_str pid"

text \<open>Whether the CPU can be measured, and the warning that is printed when it cannot.\<close>

definition proc_check :: "diag_env \<Rightarrow> int option \<Rightarrow> bool \<times> string list" where
  "proc_check env pid =
     (if \<not> pid_usable pid then
        (False, [''warning: could not determine PID (pass --pid; INFO has no process_id)''])
      else case en_proc env 0 of
        None \<Rightarrow> (False, [''warning: cannot read /proc/'' @ show_opt ''None'' py_str pid @ ''/task (''
                  @ en_proc_error env @ '') -- falling back to manual instructions''])
      | Some _ \<Rightarrow> (True, []))"

definition manual_pid :: "int option \<Rightarrow> string" where
  "manual_pid pid = (if pid_usable pid then show_opt ''<PID>'' py_str pid else ''<PID>'')"

text \<open>\<open>f"{total / duration:,.0f}"\<close>; a count of zero over a negative duration prints as minus zero.\<close>

definition rate_text :: "int \<Rightarrow> rat \<Rightarrow> string result" where
  "rate_text n duration =
     (if duration = 0 then Inl ZeroDivisionError
      else Inr (if n = 0 \<and> duration < 0 then ''-0''
        else thousands (round_half_even (fdiv (of_int n) duration))))"

text \<open>The lines after the load: the counts, and the report or the command to run by hand.\<close>

definition load_report ::
  "diag_env \<Rightarrow> int option \<Rightarrow> bool \<Rightarrow> nat \<Rightarrow> (int \<times> int) list \<Rightarrow> int \<Rightarrow> rat \<Rightarrow> string \<Rightarrow> string
    \<Rightarrow> string list result" where
  "load_report env pid can_read reading before n duration issued per_sec =
     bindR (rate_text n duration) (\<lambda>rate.
     let ops = ''  '' @ thousands n @ issued @ rate @ per_sec in
     if can_read then
       bindR (read_thread_cpu_ticks (en_proc env reading)) (\<lambda>after.
       bindR (print_thread_report (en_clk_tck env) before after duration) (\<lambda>report. Inr (ops # report)))
     else Inr [ops, ''  (manual) after:  top -bH -n 1 -p '' @ manual_pid pid
                 @ ''  -- compare TIME+/%CPU per thread to before''])"

text \<open>One phase, the \<open>k\<close>-th: its lines, or \<open>None\<close> when a worker never gets to its deadline.\<close>

definition run_phase ::
  "diag_env \<Rightarrow> hot_tag_args \<Rightarrow> int option \<Rightarrow> bool \<Rightarrow> nat \<Rightarrow> string \<times> (int \<Rightarrow> string result)
    \<Rightarrow> string list result option" where
  "run_phase env args pid can_read k phase =
     (case phase of (label, key_fn) \<Rightarrow>
        let heading = CHR 0x0A # ''=== '' @ label @ '': concurrency='' @ py_str (ht_concurrency args)
              @ '' duration='' @ ht_duration_text args @ ''s pipeline_size=''
              @ py_str (ht_pipeline_size args) @ '' ===''
        in case (if can_read then read_thread_cpu_ticks (en_proc env (2 * k + 1)) else Inr []) of
             Inl e \<Rightarrow> Some (Inl e)
           | Inr before \<Rightarrow>
               map_option (\<lambda>load. bindR load (\<lambda>(total_ops, sent).
                 bindR (load_report env pid can_read (2 * k + 2) before total_ops (ht_duration args)
                     '' ops issued ('' '' ops/sec)'') (\<lambda>report.
                 Inr (heading # (if can_read then []
                        else [''  (manual) before: top -bH -n 1 -p '' @ manual_pid pid]) @ report))))
               (generate_load (en_start env k) (en_clocks env k) (ht_concurrency args)
                  (ht_duration args) key_fn (ht_pipeline_size args)))"

fun run_phases ::
  "diag_env \<Rightarrow> hot_tag_args \<Rightarrow> int option \<Rightarrow> bool \<Rightarrow> nat \<Rightarrow> (string \<times> (int \<Rightarrow> string result)) list
    \<Rightarrow> string list result option" where
  "run_phases env args pid can_read k [] = Some (Inr [])"
| "run_phases env args pid can_read k (phase # phases) =
     (case run_phase env args pid can_read k phase of
        None \<Rightarrow> None
      | Some (Inl e) \<Rightarrow> Some (Inl e)
      | Some (Inr out) \<Rightarrow>
          map_option (\<lambda>r. bindR r (\<lambda>rest. Inr (out @ rest)))
            (run_phases env args pid can_read (Suc k) phases))"

definition hot_tag_main :: "diag_env \<Rightarrow> server_info \<Rightarrow> hot_tag_args \<Rightarrow> string list result option" where
  "hot_tag_main env info args =
     (let pid = choose_pid (ht_pid args) (si_process_id info);
          (can_read, warnings) = proc_check env pid
      in case requested_phases (ht_namespace args) (ht_num_distinct_tags args) (ht_phases args) of
           Inl e \<Rightarrow> Some (Inl e)
         | Inr phases \<Rightarrow>
             map_option (\<lambda>r. bindR r (\<lambda>out. Inr (info_line info pid # warnings @ out)))
               (run_phases env args pid can_read 0 phases))"


section \<open>Lemmas\<close>

lemma run_pool_Some:
  assumes "0 < concurrency" "\<And>i. i < nat concurrency \<Longrightarrow> worker i = Some (Inr (cnt i, sent i))"
  shows "run_pool concurrency worker
    = Some (Inr (sum_list (map cnt [0..<nat concurrency]), map sent [0..<nat concurrency]))"
  unfolding run_pool_def using assms run_workers_Some[of "[0..<nat concurrency]" worker cnt sent] by simp

lemma spread_key_slot:
  assumes "CHR ''}'' \<notin> set ns" "tags \<noteq> 0" "spread_key_fn ns tags n = Inr k"
  shows "key_slot k = slot (encode (ns @ '':spread'' @ py_str (n mod tags)))"
proof -
  have "CHR ''}'' \<notin> set (py_str z)" for z
    by (rule py_str_no) simp_all
  then have "CHR ''}'' \<notin> set (ns @ '':spread'' @ py_str (n mod tags))" using assms(1) by simp
  from key_slot_tagged[of "''probe:''", OF _ this, of "''''"] assms(2,3) show ?thesis
    by (simp add: spread_key_fn_def)
qed


section \<open>Properties\<close>

text \<open>
  C33: The load generator ends when every worker's clock reaches the deadline, and its count is what was
  sent: each worker sends one full batch per reading before the deadline, from key number 0 on.
\<close>

theorem generate_load_counts:
  assumes "0 < concurrency" "\<And>n. key_fn n = Inr (g n)"
    and "\<And>i. i < nat concurrency \<Longrightarrow> \<not> clocks i (late i) < fadd t0 duration"
    and "\<And>i j. i < nat concurrency \<Longrightarrow> j < late i \<Longrightarrow> clocks i j < fadd t0 duration"
  shows "generate_load t0 clocks concurrency duration key_fn pipeline_size
    = Some (Inr (sum_list (map (\<lambda>i. int (late i * batch_size pipeline_size)) [0..<nat concurrency]),
        map (\<lambda>i. map (\<lambda>n. g (int n)) [0..<late i * batch_size pipeline_size]) [0..<nat concurrency]))"
  unfolding generate_load_def Let_def
proof (rule run_pool_Some[OF assms(1)])
  fix i assume i: "i < nat concurrency"
  show "timed_loop (clocks i) (fadd t0 duration) key_fn (batch_size pipeline_size) 0 0 []
      = Some (Inr (int (late i * batch_size pipeline_size),
          map (\<lambda>n. g (int n)) [0..<late i * batch_size pipeline_size]))"
    by (rule timed_loop_stops) (use assms(2) assms(3,4)[OF i] in auto)
qed

theorem generate_load_counts_witness:
  "generate_load 0 (\<lambda>i j. of_nat j) 2 1 (hot_key_fn ''ns'') 3
    = Some (Inr (6, [replicate 3 ''probe:{ns:hot}'', replicate 3 ''probe:{ns:hot}'']))"
proof -
  have f: "round64 1 = 1" using round64_of_int[of 1] by simp
  have "generate_load 0 (\<lambda>i j. of_nat j) 2 1 (hot_key_fn ''ns'') 3
    = Some (Inr (sum_list (map (\<lambda>i. int (1 * batch_size 3)) [0..<nat 2]),
        map (\<lambda>i. map (\<lambda>n. hot_key ''ns'') [0..<1 * batch_size 3]) [0..<nat 2]))"
    by (rule generate_load_counts[where late = "\<lambda>i. 1" and g = "\<lambda>n. hot_key ''ns''"])
      (simp_all add: hot_key_fn_def f)
  then show ?thesis by (simp add: batch_size_def hot_key_def upt_rec numeral_eq_Suc)
qed

text \<open>
  The two phases are what they are called. Whatever the number of commands, the concentrated phase
  touches one key; the distributed phase touches exactly as many keys as there are tags, or as many as
  there are commands when these are fewer, each key on the slot of its own tag.
\<close>

theorem phases_spread:
  assumes "0 < tags" "CHR ''}'' \<notin> set ns"
  shows "card {k. \<exists>n. n < count \<and> spread_key_fn ns tags (int n) = Inr k} = min count (nat tags)
    \<and> card {k. \<exists>n. n < count \<and> hot_key_fn ns (int n) = Inr k} = min count 1
    \<and> (\<forall>n k. spread_key_fn ns tags n = Inr k \<longrightarrow>
         key_slot k = slot (encode (ns @ '':spread'' @ py_str (n mod tags))))
    \<and> key_slot (hot_key ns) = slot (encode (ns @ '':hot''))"
proof -
  let ?key = "\<lambda>i. ''probe:{'' @ ns @ '':spread'' @ py_str i @ ''}''"
  have key: "spread_key_fn ns tags n = Inr (?key (n mod tags))" for n
    using assms(1) by (simp add: spread_key_fn_def)
  have inj: "inj_on ?key A" for A
    by (rule inj_onI) (metis append_same_eq py_int_py_str same_append_eq sum.inject(2))
  have card_int: "card (int ` A) = card A" for A by (simp add: card_image inj_on_def)
  have "{k. \<exists>n. n < count \<and> spread_key_fn ns tags (int n) = Inr k}
      = ?key ` ((\<lambda>n. int n mod tags) ` {..<count})" by (auto simp: key)
  also have "(\<lambda>n. int n mod tags) ` {..<count} = int ` {..<min count (nat tags)}"
  proof (intro equalityI subsetI)
    fix x assume "x \<in> (\<lambda>n. int n mod tags) ` {..<count}"
    then obtain n where n: "n < count" "x = int n mod tags" by auto
    have x: "0 \<le> x" "x < tags" using n(2) assms(1) by simp_all
    have "x \<le> int n" using n(2) zmod_le_nonneg_dividend by simp
    then show "x \<in> int ` {..<min count (nat tags)}"
      using x n(1) by (intro image_eqI[of _ _ "nat x"]) auto
  next
    fix x assume "x \<in> int ` {..<min count (nat tags)}"
    then obtain n where n: "x = int n" "n < count" "n < nat tags" by auto
    then have "int n mod tags = int n" by simp
    with n show "x \<in> (\<lambda>n. int n mod tags) ` {..<count}" by (intro image_eqI[of _ _ n]) auto
  qed
  finally have spread: "card {k. \<exists>n. n < count \<and> spread_key_fn ns tags (int n) = Inr k} = min count (nat tags)"
    by (simp only: card_image[OF inj] card_int card_lessThan)
  have "{k. \<exists>n. n < count \<and> hot_key_fn ns (int n) = Inr k} = (if count = 0 then {} else {hot_key ns})"
    by (auto simp: hot_key_fn_def)
  then have hot: "card {k. \<exists>n. n < count \<and> hot_key_fn ns (int n) = Inr k} = min count 1" by simp
  have "key_slot (hot_key ns) = slot (encode (ns @ '':hot''))"
    using key_slot_tagged[of "''probe:''" "ns @ '':hot''" "''''"] assms(2) by (simp add: hot_key_def)
  with spread hot spread_key_slot[OF assms(2)] assms(1) show ?thesis by auto
qed

theorem phases_spread_witness:
  "card {k. \<exists>n. n < 5000 \<and> spread_key_fn ''hottagdiag'' 2000 (int n) = Inr k} = 2000
    \<and> card {k. \<exists>n. n < 5000 \<and> hot_key_fn ''hottagdiag'' (int n) = Inr k} = 1"
proof -
  have "(0::int) < 2000" "CHR ''}'' \<notin> set ''hottagdiag''" by simp_all
  from phases_spread[OF this, of 5000] show ?thesis by simp
qed

end
