(* ===== verification/Diag_Hotspot.thy ===== *)
theory Diag_Hotspot
  imports Diag_Hot_Tag Router_Crosscheck Bench_Names
begin

text \<open>
  \<open>fqdnrules/diagnose_router_hotspot.py\<close>: the rules it writes, the lookups its workers make on the real
  store and the main flow. The reading of CPU ticks and the reports are those of \<open>Diag_Cpu\<close>, which the
  script repeats word for word.
\<close>

section \<open>Rules and lookups\<close>

definition hotspot_rule :: "int \<Rightarrow> int \<Rightarrow> rule" where
  "hotspot_rule port i =
     mk_rule (''*.svc.hotspotdiag'' @ py_str i @ ''.com'') port ''*.dest.example.com'' (''rule:'' @ py_str i) BOTH"

definition hotspot_rules :: "int \<Rightarrow> int \<Rightarrow> rule list" where
  "hotspot_rules num_domains port =
     map (hotspot_rule port) [0..num_domains - 1] @ [mk_rule ''*'' port ''*'' ''rule:global'' BOTH]"

definition setup_rules :: "'db redis_api \<Rightarrow> rule_store \<Rightarrow> 'db \<Rightarrow> int \<Rightarrow> int \<Rightarrow> 'db result" where
  "setup_rules api st db num_domains port = rs_put_many api st db (hotspot_rules num_domains port)"

text \<open>The \<open>n\<close>-th lookup of worker \<open>idx\<close>.\<close>

definition hotspot_lookup ::
  "'db redis_api \<Rightarrow> rule_store \<Rightarrow> 'db \<Rightarrow> int \<Rightarrow> int \<Rightarrow> match_mode \<Rightarrow> nat \<Rightarrow> int \<Rightarrow> rule_match option result" where
  "hotspot_lookup api st db num_domains port mode idx n =
     (if num_domains = 0 then Inl ZeroDivisionError
      else let i = (int idx * 7919 + n) mod num_domains
           in rs_lookup api st db (''probe.svc.hotspotdiag'' @ py_str i @ ''.com'') port
                ''probe.dest.example.com'' mode)"

text \<open>
  A worker opens its own store, which checks the replica count against the recorded one, and looks up
  until its clock reaches the deadline.
\<close>

definition run_lookups ::
  "'db redis_api \<Rightarrow> 'db \<Rightarrow> string \<Rightarrow> int \<Rightarrow> rat \<Rightarrow> (nat \<Rightarrow> nat \<Rightarrow> rat) \<Rightarrow> int \<Rightarrow> int \<Rightarrow> match_mode \<Rightarrow> int \<Rightarrow> rat
    \<Rightarrow> (int \<times> rule_match option list list) result option" where
  "run_lookups api db namespace num_buckets t0 clocks num_domains port mode concurrency duration_seconds =
     (let stop_at = fadd t0 duration_seconds
      in run_pool concurrency (\<lambda>idx.
           case rule_store_init api db namespace num_buckets of
             Inl e \<Rightarrow> Some (Inl e)
           | Inr st \<Rightarrow>
               timed_loop (clocks idx) stop_at (hotspot_lookup api st db num_domains port mode idx) 1 0 0 []))"


section \<open>The main flow\<close>

text \<open>\<open>hs_namespace_repr\<close> and \<open>hs_duration_text\<close> are the two arguments as they are printed.\<close>

record hotspot_args =
  hs_pid :: "int option"
  hs_namespace :: string
  hs_namespace_repr :: string
  hs_num_domains :: int
  hs_rule_port :: int
  hs_mode :: string
  hs_concurrency :: int
  hs_duration :: rat
  hs_duration_text :: string
  hs_num_buckets :: string

text \<open>
  \<open>--num-buckets\<close>: \<open>auto\<close> asks the server for its thread count, any other text is read as an integer.
\<close>

definition choose_num_buckets ::
  "(string \<Rightarrow> int option) option \<Rightarrow> string \<Rightarrow> (int \<times> string) result" where
  "choose_num_buckets server_info s =
     (if s = ''auto'' then
        let n = recommended_num_buckets server_info 16
        in Inr (n, ''num_buckets=auto -> '' @ py_str n @ '' (from server thread_count)'')
      else bindR (py_int s) (\<lambda>n. Inr (n, ''num_buckets='' @ py_str n)))"

definition hotspot_mode :: "string \<Rightarrow> match_mode" where
  "hotspot_mode s = (if s = ''single'' then SINGLE_LEVEL else MULTI_LEVEL)"

fun mode_value :: "match_mode \<Rightarrow> string" where
  "mode_value SINGLE_LEVEL = ''single''"
| "mode_value MULTI_LEVEL = ''multi''"

definition hotspot_main ::
  "'db redis_api \<Rightarrow> 'db \<Rightarrow> diag_env \<Rightarrow> server_info \<Rightarrow> (string \<Rightarrow> int option) option \<Rightarrow> hotspot_args
    \<Rightarrow> (string list \<times> 'db) result option" where
  "hotspot_main api db env info sizing args =
     (let mode = hotspot_mode (hs_mode args);
          pid = choose_pid (hs_pid args) (si_process_id info);
          (can_read, warnings) = proc_check env pid
      in case
        bindR (choose_num_buckets sizing (hs_num_buckets args)) (\<lambda>(num_buckets, sizing_line).
        bindR (rule_store_init api db (hs_namespace args) num_buckets) (\<lambda>setup_store.
        bindR (setup_rules api setup_store db (hs_num_domains args) (hs_rule_port args)) (\<lambda>db1.
        bindR (if can_read then read_thread_cpu_ticks (en_proc env 1) else Inr []) (\<lambda>before.
          Inr (num_buckets, sizing_line, db1, before))))) of
          Inl e \<Rightarrow> Some (Inl e)
        | Inr (num_buckets, sizing_line, db1, before) \<Rightarrow>
            map_option (\<lambda>run. bindR run (\<lambda>(total_queries, answers).
              bindR (load_report env pid can_read 2 before total_queries (hs_duration args)
                  '' lookups issued ('' '' queries/sec)'') (\<lambda>report.
              Inr ([info_line info pid, sizing_line] @ warnings
                @ [''writing '' @ thousands (hs_num_domains args) @ '' apex rules + 1 global rule under namespace=''
                     @ hs_namespace_repr args @ ''...'',
                   CHR 0x0A # ''=== router lookups: mode='' @ mode_value mode @ '' concurrency=''
                     @ py_str (hs_concurrency args) @ '' duration='' @ hs_duration_text args @ ''s domains=''
                     @ thousands (hs_num_domains args) @ '' ===='']
                @ (if can_read then [] else [''  (manual) before: top -bH -n 1 -p '' @ manual_pid pid])
                @ report, db1))))
              (run_lookups api db1 (hs_namespace args) num_buckets (en_start env 0) (en_clocks env 0)
                 (hs_num_domains args) (hs_rule_port args) mode (hs_concurrency args) (hs_duration args)))"


section \<open>Every lookup hits its own rule\<close>

abbreviation svc_labels :: "int \<Rightarrow> string list" where
  "svc_labels i \<equiv> [''svc'', ''hotspotdiag'' @ py_str i, ''com'']"

abbreviation dst_labels :: "string list" where
  "dst_labels \<equiv> [''dest'', ''example'', ''com'']"

lemma svc_ok: "label_ok ''svc''"
  by code_simp

lemma svc_labels_ok: "0 \<le> i \<Longrightarrow> list_all label_ok (svc_labels i)"
  using label_ok_append[OF _ label_py_str, of "''hotspotdiag''" i]
  by (simp add: label_ok_Cons label_py_str label_literals name_letter_simps svc_ok)

lemma dst_labels_ok: "list_all label_ok dst_labels"
  by code_simp

lemma hotspot_rule_labels:
  "hotspot_rule port i = mk_rule (''*.'' @ join ''.'' (svc_labels i)) port (''*.'' @ join ''.'' dst_labels)
     (''rule:'' @ py_str i) BOTH"
  by (simp add: hotspot_rule_def)

lemma hotspot_rules_ok:
  assumes "0 < port" "port < 65536"
  shows "list_all rule_ok (hotspot_rules num_domains port)"
    and "distinct (map rule_key (hotspot_rules num_domains port))"
proof -
  have "rule_ok (hotspot_rule port i)" if "0 \<le> i" for i
    using labels_no_colon[OF svc_labels_ok[OF that]] assms
    by (simp add: hotspot_rule_labels rule_ok_def mk_rule_def)
  then show "list_all rule_ok (hotspot_rules num_domains port)"
    using assms by (auto simp: hotspot_rules_def list_all_iff rule_ok_def mk_rule_def)
  have inj: "rule_key (hotspot_rule port i) = rule_key (hotspot_rule port j) \<Longrightarrow> i = j" for i j
    by (simp add: hotspot_rule_def rule_key_def mk_rule_def)
  have "distinct (map (\<lambda>i. rule_key (hotspot_rule port i)) [0..num_domains - 1])"
    by (auto simp: distinct_map intro!: inj_onI dest: inj)
  then show "distinct (map rule_key (hotspot_rules num_domains port))"
    by (auto simp: hotspot_rules_def comp_def rule_key_def hotspot_rule_def mk_rule_def)
qed

lemma ref_lookup_least:
  assumes "r \<in> set (ref_hits rules mode q1 port q2)"
    and "\<And>x. x \<in> set (ref_hits rules mode q1 port q2) \<Longrightarrow> ref_rank q1 q2 x \<le> ref_rank q1 q2 r \<Longrightarrow> x = r"
  shows "ref_lookup rules mode q1 port q2 = Some (ref_match q1 q2 r)"
proof -
  let ?hs = "ref_hits rules mode q1 port q2"
  have ne: "?hs \<noteq> []" using assms(1) by auto
  have "ref_rank q1 q2 (arg_min_list (ref_rank q1 q2) ?hs) \<le> ref_rank q1 q2 r"
    using f_arg_min_list_f[OF ne, of "ref_rank q1 q2"] assms(1) by (simp add: Min_le)
  with assms(2)[OF arg_min_list_in[OF ne]] have "arg_min_list (ref_rank q1 q2) ?hs = r" by blast
  with ne show ?thesis by (simp add: ref_lookup_def Let_def)
qed

lemma hotspot_ref_lookup:
  assumes "0 \<le> i" "i < num_domains"
  shows "ref_lookup (hotspot_rules num_domains port) mode (join ''.'' (''probe'' # svc_labels i)) port
      (join ''.'' (''probe'' # dst_labels))
    = Some \<lparr>m_rule_id = ''rule:'' @ py_str i, m_fqdn1_pattern = r_fqdn1 (hotspot_rule port i), m_port = port,
        m_fqdn2_pattern = ''*.dest.example.com'', m_specificity = (1, 1)\<rparr>"
proof -
  let ?q1 = "join ''.'' (''probe'' # svc_labels i)" and ?q2 = "join ''.'' (''probe'' # dst_labels)"
  let ?r = "hotspot_rule port i"
  note c1 = star_pattern_covers[OF svc_labels_ok[OF assms(1)] _ label_literals(1)]
  note c2 = star_pattern_covers[OF dst_labels_ok _ label_literals(1)]
  have rank: "ref_rank ?q1 ?q2 ?r = (1, 1)"
    using c1(2) c2(2) by (simp add: ref_rank_def hotspot_rule_labels mk_rule_def)
  have "visible BOTH 1 1" by (simp add: visible_def)
  then have hit: "?r \<in> set (ref_hits (hotspot_rules num_domains port) mode ?q1 port ?q2)"
    using c1 c2 assms unfolding ref_hits_def hotspot_rules_def
    by (simp add: hotspot_rule_labels mk_rule_def)
  have only: "x = ?r"
    if x: "x \<in> set (ref_hits (hotspot_rules num_domains port) mode ?q1 port ?q2)"
      and le: "ref_rank ?q1 ?q2 x \<le> ref_rank ?q1 ?q2 ?r" for x
  proof -
    have "x \<in> set (hotspot_rules num_domains port)" using x unfolding ref_hits_def set_filter by blast
    then consider j where "0 \<le> j" "x = hotspot_rule port j"
      | "x = mk_rule ''*'' port ''*'' ''rule:global'' BOTH"
      unfolding hotspot_rules_def set_append set_map by (auto simp del: set_append)
    then show ?thesis
    proof cases
      case 1
      then have "pattern_matches mode (''*.'' @ join ''.'' (svc_labels j)) ?q1"
        using x by (simp add: ref_hits_def hotspot_rule_labels mk_rule_def)
      from star_pattern_matches[OF svc_labels_ok[OF 1(1)] _ _ _ this]
      obtain xs where "''probe'' # svc_labels i = xs @ svc_labels j"
        using svc_labels_ok[OF assms(1)] label_literals(1) by auto
      then have "rev (''probe'' # svc_labels i) = rev (xs @ svc_labels j)" by (simp only:)
      then have "py_str i = py_str j" by simp
      then have "i = j" by (metis py_int_py_str sum.inject(2))
      with 1 show ?thesis by simp
    next
      case 2
      have "rank_of ''*'' ?q1 = GLOBAL_RANK" by (simp add: rank_of_def)
      with le show ?thesis unfolding rank 2 by (simp add: ref_rank_def mk_rule_def GLOBAL_RANK_def)
    qed
  qed
  have "ref_match ?q1 ?q2 ?r = \<lparr>m_rule_id = ''rule:'' @ py_str i, m_fqdn1_pattern = r_fqdn1 ?r, m_port = port,
        m_fqdn2_pattern = ''*.dest.example.com'', m_specificity = (1, 1)\<rparr>"
    using rank by (simp add: ref_match_def hotspot_rule_def mk_rule_def)
  with ref_lookup_least[OF hit only] show ?thesis by simp
qed

lemma hotspot_lookup_hits:
  assumes "redis_laws api" "store_ok st" "represents api st db no_rules"
    and "0 < port" "port < 65536" "0 < num_domains"
  shows "\<exists>db'. setup_rules api st db num_domains port = Inr db'
    \<and> (\<forall>idx n mode. hotspot_lookup api st db' num_domains port mode idx n
        = Inr (Some (let i = (int idx * 7919 + n) mod num_domains
            in \<lparr>m_rule_id = ''rule:'' @ py_str i, m_fqdn1_pattern = r_fqdn1 (hotspot_rule port i), m_port = port,
                m_fqdn2_pattern = ''*.dest.example.com'', m_specificity = (1, 1)\<rparr>)))"
proof -
  obtain db' where db': "rs_put_many api st db (hotspot_rules num_domains port) = Inr db'"
    and look: "\<And>f1 q1 f2 q2 mode. normalize_fqdn f1 = Inr q1 \<Longrightarrow> CHR '':'' \<notin> set q1 \<Longrightarrow> normalize_fqdn f2 = Inr q2
        \<Longrightarrow> rs_lookup api st db' f1 port f2 mode = Inr (ref_lookup (hotspot_rules num_domains port) mode q1 port q2)"
    using bulk_load_answers[OF assms(1-3) hotspot_rules_ok[OF assms(4,5), of num_domains]] assms(4,5) by metis
  have "hotspot_lookup api st db' num_domains port mode idx n
      = Inr (Some (let i = (int idx * 7919 + n) mod num_domains
          in \<lparr>m_rule_id = ''rule:'' @ py_str i, m_fqdn1_pattern = r_fqdn1 (hotspot_rule port i), m_port = port,
              m_fqdn2_pattern = ''*.dest.example.com'', m_specificity = (1, 1)\<rparr>))" for idx n mode
  proof -
    define i where "i = (int idx * 7919 + n) mod num_domains"
    have i: "0 \<le> i" "i < num_domains" using assms(6) by (simp_all add: i_def)
    have l1: "list_all label_ok (''probe'' # svc_labels i)" and l2: "list_all label_ok (''probe'' # dst_labels)"
      using svc_labels_ok[OF i(1)] dst_labels_ok label_literals(1) by simp_all
    have n1: "normalize_fqdn (join ''.'' (''probe'' # svc_labels i)) = Inr (join ''.'' (''probe'' # svc_labels i))"
      by (rule normalize_labels[OF _ l1]) simp_all
    have n2: "normalize_fqdn (join ''.'' (''probe'' # dst_labels)) = Inr (join ''.'' (''probe'' # dst_labels))"
      by (rule normalize_labels[OF _ l2]) simp_all
    have "hotspot_lookup api st db' num_domains port mode idx n
      = rs_lookup api st db' (join ''.'' (''probe'' # svc_labels i)) port (join ''.'' (''probe'' # dst_labels)) mode"
      using assms(6) by (simp add: hotspot_lookup_def i_def Let_def)
    also have "\<dots> = Inr (ref_lookup (hotspot_rules num_domains port) mode
        (join ''.'' (''probe'' # svc_labels i)) port (join ''.'' (''probe'' # dst_labels)))"
      by (rule look[OF n1 labels_no_colon[OF l1] n2])
    finally show ?thesis unfolding hotspot_ref_lookup[OF i] by (simp only: i_def Let_def)
  qed
  with db' show ?thesis unfolding setup_rules_def by blast
qed


section \<open>Properties\<close>

text \<open>
  What the diagnostic measures is real matches: after the rules are written, every lookup of every
  worker, in both modes and with any number of replicas, is answered by the rule of the domain it asks
  for, one label above the name on both sides, and never by the global rule.
\<close>

theorem hotspot_lookups_hit:
  assumes "redis_laws api" "store_ok st" "represents api st db no_rules"
    and "0 < port" "port < 65536" "0 < num_domains"
  shows "\<exists>db'. setup_rules api st db num_domains port = Inr db'
    \<and> (\<forall>idx n mode. \<exists>i. 0 \<le> i \<and> i < num_domains
        \<and> hotspot_lookup api st db' num_domains port mode idx n
          = Inr (Some \<lparr>m_rule_id = ''rule:'' @ py_str i, m_fqdn1_pattern = r_fqdn1 (hotspot_rule port i),
              m_port = port, m_fqdn2_pattern = ''*.dest.example.com'', m_specificity = (1, 1)\<rparr>))"
proof -
  have "0 \<le> x mod num_domains \<and> x mod num_domains < num_domains" for x using assms(6) by simp
  with hotspot_lookup_hits[OF assms] show ?thesis unfolding Let_def by blast
qed

theorem hotspot_lookups_hit_witness:
  "\<exists>db' m. setup_rules mem_api store4 mem_empty 2000 443 = Inr db'
    \<and> hotspot_lookup mem_api store4 db' 2000 443 MULTI_LEVEL 3 10 = Inr (Some m) \<and> m_specificity m = (1, 1)"
proof -
  have "(0::int) < 443" "(443::int) < 65536" "(0::int) < 2000" by simp_all
  from hotspot_lookups_hit[OF mem_laws store4_ok mem_represents this]
  show ?thesis by (metis rule_match.select_convs(5))
qed

end
