(* ===== verification/Diag_Pinning.thy ===== *)
theory Diag_Pinning
  imports Diag_Hot_Tag "HOL-Library.Multiset"
begin

text \<open>
  \<open>fqdnrules/diagnose_thread_pinning.py\<close>: connections are opened under one of four patterns, the new
  ones are found by comparing two listings of the clients, and the owning threads are counted.
  The client library with the server behind it is a parameter, \<open>conn_api\<close>; waiting changes nothing.
\<close>

section \<open>The interface\<close>

text \<open>A row of \<open>client_list()\<close> is a dict of texts.\<close>

type_synonym client_row = "(string \<times> string) list"

text \<open>
  A client (\<open>'cl\<close>) has a pool of connections (\<open>'conn\<close>). \<open>ca_ping\<close> is \<open>client.ping()\<close>, \<open>ca_ping_on\<close> sends
  PING on a checked-out connection and reads the reply; \<open>ca_release\<close> also says whether it raised.
\<close>

record ('cl, 'conn, 'srv) conn_api =
  ca_from_url :: "'srv \<Rightarrow> string \<Rightarrow> 'cl \<times> 'srv"
  ca_redis :: "'srv \<Rightarrow> string \<Rightarrow> int \<Rightarrow> int \<Rightarrow> 'cl \<times> 'srv"
  ca_ping :: "'srv \<Rightarrow> 'cl \<Rightarrow> 'srv"
  ca_get_connection :: "'srv \<Rightarrow> 'cl \<Rightarrow> 'conn \<times> 'srv"
  ca_ping_on :: "'srv \<Rightarrow> 'conn \<Rightarrow> 'srv"
  ca_release :: "'srv \<Rightarrow> 'cl \<Rightarrow> 'conn \<Rightarrow> bool \<times> 'srv"
  ca_disconnect :: "'srv \<Rightarrow> 'conn \<Rightarrow> 'srv"
  ca_close :: "'srv \<Rightarrow> 'cl \<Rightarrow> 'srv"
  ca_list :: "'srv \<Rightarrow> client_row list"

record conn_target =
  ct_host :: string
  ct_port :: int
  ct_db :: int
  ct_uri :: "string option"

definition make_client :: "('cl, 'conn, 'srv) conn_api \<Rightarrow> conn_target \<Rightarrow> 'srv \<Rightarrow> 'cl \<times> 'srv" where
  "make_client api target srv =
     (case ct_uri target of
        Some uri \<Rightarrow>
          if uri \<noteq> [] then ca_from_url api srv uri
          else ca_redis api srv (ct_host target) (ct_port target) (ct_db target)
      | None \<Rightarrow> ca_redis api srv (ct_host target) (ct_port target) (ct_db target))"


section \<open>Listings\<close>

text \<open>The \<open>id\<close> of a row is read with \<open>[...]\<close>, which may raise.\<close>

definition row_get :: "client_row \<Rightarrow> string \<Rightarrow> string result" where
  "row_get row k = (case map_of row k of None \<Rightarrow> Inl KeyError | Some v \<Rightarrow> Inr v)"

fun snapshot_rows ::
  "client_row list \<Rightarrow> (string \<times> client_row) list \<Rightarrow> (string \<times> client_row) list result" where
  "snapshot_rows [] d = Inr d"
| "snapshot_rows (row # rows) d = bindR (row_get row ''id'') (\<lambda>i. snapshot_rows rows (AList.update i row d))"

definition snapshot_by_id :: "('cl, 'conn, 'srv) conn_api \<Rightarrow> 'srv \<Rightarrow> (string \<times> client_row) list result" where
  "snapshot_by_id api srv = snapshot_rows (ca_list api srv) []"

text \<open>\<open>Counter(xs)\<close>, a dict in the order of the first occurrences.\<close>

definition counter_add :: "(string \<times> int) list \<Rightarrow> string \<Rightarrow> (string \<times> int) list" where
  "counter_add d x = AList.update x (dict_get d x 0 + 1) d"

definition counter :: "string list \<Rightarrow> (string \<times> int) list" where
  "counter xs = foldl counter_add [] xs"


section \<open>Opening and closing\<close>

fun make_clients :: "('cl, 'conn, 'srv) conn_api \<Rightarrow> conn_target \<Rightarrow> nat \<Rightarrow> 'srv \<Rightarrow> 'cl list \<times> 'srv" where
  "make_clients api target 0 srv = ([], srv)"
| "make_clients api target (Suc n) srv =
     (let (c, srv1) = make_client api target srv; (cs, srv2) = make_clients api target n srv1 in (c # cs, srv2))"

text \<open>
  Staggered, the connections are opened one after the other. In a burst each of \<open>n\<close> threads waits at a
  barrier and then opens its own; \<open>order\<close> is the order in which they get to it, a permutation of
  the threads. A pool of no worker raises.
\<close>

definition open_independent ::
  "('cl, 'conn, 'srv) conn_api \<Rightarrow> conn_target \<Rightarrow> int \<Rightarrow> string \<Rightarrow> nat list \<Rightarrow> 'srv \<Rightarrow> ('cl list \<times> 'srv) result" where
  "open_independent api target n timing order srv =
     (let (clients, srv1) = make_clients api target (nat n) srv
      in if timing = ''stagger'' then Inr (clients, foldl (ca_ping api) srv1 clients)
         else if n \<le> 0 then Inl (ValueError ''max_workers'')
         else Inr (clients, foldl (\<lambda>s i. ca_ping api s (clients ! i)) srv1 order))"

definition checkout_one :: "('cl, 'conn, 'srv) conn_api \<Rightarrow> 'cl \<Rightarrow> 'srv \<Rightarrow> 'conn \<times> 'srv" where
  "checkout_one api client srv =
     (let (conn, srv1) = ca_get_connection api srv client in (conn, ca_ping_on api srv1 conn))"

fun checkouts :: "('cl, 'conn, 'srv) conn_api \<Rightarrow> 'cl \<Rightarrow> nat list \<Rightarrow> 'srv \<Rightarrow> (nat \<times> 'conn) list \<times> 'srv" where
  "checkouts api client [] srv = ([], srv)"
| "checkouts api client (i # is) srv =
     (let (conn, srv1) = checkout_one api client srv; (rest, srv2) = checkouts api client is srv1
      in ((i, conn) # rest, srv2))"

text \<open>The list of a pool's results is in the order of the arguments, not of the calls.\<close>

definition open_shared ::
  "('cl, 'conn, 'srv) conn_api \<Rightarrow> conn_target \<Rightarrow> int \<Rightarrow> string \<Rightarrow> nat list \<Rightarrow> 'srv
    \<Rightarrow> (('cl \<times> 'conn list) \<times> 'srv) result" where
  "open_shared api target n timing order srv =
     (let (client, srv1) = make_client api target srv
      in if timing = ''stagger'' then
           (let (pairs, srv2) = checkouts api client [0..<nat n] srv1 in Inr ((client, map snd pairs), srv2))
         else if n \<le> 0 then Inl (ValueError ''max_workers'')
         else (let (pairs, srv2) = checkouts api client order srv1
               in Inr ((client, map snd (sort_key fst pairs)), srv2)))"

definition close_independent :: "('cl, 'conn, 'srv) conn_api \<Rightarrow> 'cl list \<Rightarrow> 'srv \<Rightarrow> 'srv" where
  "close_independent api clients srv = foldl (ca_close api) srv clients"

definition give_back :: "('cl, 'conn, 'srv) conn_api \<Rightarrow> 'cl \<Rightarrow> 'srv \<Rightarrow> 'conn \<Rightarrow> 'srv" where
  "give_back api client srv conn =
     (case ca_release api srv client conn of
        (raised, srv1) \<Rightarrow> if raised then ca_disconnect api srv1 conn else srv1)"

definition close_shared :: "('cl, 'conn, 'srv) conn_api \<Rightarrow> 'cl \<Rightarrow> 'conn list \<Rightarrow> 'srv \<Rightarrow> 'srv" where
  "close_shared api client conns srv = ca_close api (foldl (give_back api client) srv conns) client"


section \<open>A case\<close>

record case_result =
  cr_case :: string
  cr_trial :: int
  cr_new_connection_count :: int
  cr_tid_counts :: "(string \<times> int) list"

definition unique_threads :: "case_result \<Rightarrow> nat" where
  "unique_threads r = length (cr_tid_counts r)"

text \<open>\<open>pool_mode, timing = case.split("-", 1)\<close>.\<close>

definition split_case :: "string \<Rightarrow> (string \<times> string) result" where
  "split_case s =
     (case find_from (CHR ''-'') s 0 of
        None \<Rightarrow> Inl (ValueError ''unpack'')
      | Some i \<Rightarrow> Inr (take i s, drop (Suc i) s))"

datatype ('cl, 'conn) held = Independent "'cl list" | Shared 'cl "'conn list"

definition open_held ::
  "('cl, 'conn, 'srv) conn_api \<Rightarrow> conn_target \<Rightarrow> string \<Rightarrow> int \<Rightarrow> string \<Rightarrow> nat list \<Rightarrow> 'srv
    \<Rightarrow> (('cl, 'conn) held \<times> 'srv) result" where
  "open_held api target pool_mode n timing order srv =
     (if pool_mode = ''independent'' then
        bindR (open_independent api target n timing order srv) (\<lambda>(clients, srv1). Inr (Independent clients, srv1))
      else
        bindR (open_shared api target n timing order srv) (\<lambda>((client, conns), srv1). Inr (Shared client conns, srv1)))"

fun close_held :: "('cl, 'conn, 'srv) conn_api \<Rightarrow> ('cl, 'conn) held \<Rightarrow> 'srv \<Rightarrow> 'srv" where
  "close_held api (Independent clients) srv = close_independent api clients srv"
| "close_held api (Shared client conns) srv = close_shared api client conns srv"

definition run_case ::
  "('cl, 'conn, 'srv) conn_api \<Rightarrow> conn_target \<Rightarrow> string \<Rightarrow> int \<Rightarrow> nat list \<Rightarrow> 'srv \<Rightarrow> (case_result \<times> 'srv) result" where
  "run_case api target case_name n order srv =
     bindR (split_case case_name) (\<lambda>(pool_mode, timing).
     bindR (snapshot_by_id api srv) (\<lambda>snapshot.
     let before = map fst snapshot in
     bindR (open_held api target pool_mode n timing order srv) (\<lambda>(held, srv1).
     bindR (snapshot_by_id api srv1) (\<lambda>after.
     let new_rows = filter (\<lambda>(i, row). i \<notin> set before) after;
         tids = concat (map (\<lambda>(i, row). case map_of row ''tid'' of None \<Rightarrow> [] | Some t \<Rightarrow> [t]) new_rows)
     in Inr (\<lparr>cr_case = case_name, cr_trial = 0, cr_new_connection_count = int (length new_rows),
              cr_tid_counts = counter tids\<rparr>,
             close_held api held srv1)))))"

definition verdict_for :: "case_result \<Rightarrow> int \<Rightarrow> string" where
  "verdict_for r expected_n =
     (if cr_new_connection_count r = 0 then
        ''NO NEW CONNECTIONS OBSERVED (check --settle-seconds or server reachability)''
      else if \<not> contains_str ''tid'' (concat (map fst (cr_tid_counts r))) \<and> cr_tid_counts r = [] then
        ''server did not report a tid= field (not Dragonfly, or CLIENT LIST format differs)''
      else if unique_threads r \<le> 1 then
        ''PINNED -- all '' @ py_str (cr_new_connection_count r) @ '' connections landed on ONE thread''
      else if int (unique_threads r) < min expected_n 4 then
        ''PARTIALLY SPREAD -- only '' @ py_str (int (unique_threads r)) @ '' distinct threads used''
      else ''SPREAD -- '' @ py_str (int (unique_threads r)) @ '' distinct threads used'')"

definition print_result :: "case_result \<Rightarrow> int \<Rightarrow> string list" where
  "print_result r expected_n =
     (let hist = join '', '' (map (\<lambda>(t, c). ''tid='' @ t @ '':'' @ py_str c)
                   (sort_key (\<lambda>kv. - snd kv) (cr_tid_counts r)))
      in [''  trial '' @ py_str (cr_trial r) @ '': '' @ py_str (cr_new_connection_count r) @ '' new conns -> ''
            @ (if hist = [] then ''(none)'' else hist),
          ''    verdict: '' @ verdict_for r expected_n])"


section \<open>The main flow\<close>

definition ALL_CASES :: "string list" where
  "ALL_CASES = [''independent-burst'', ''independent-stagger'', ''shared-burst'', ''shared-stagger'']"

definition parse_cases :: "string \<Rightarrow> string list result" where
  "parse_cases s =
     (let cases = comma_list s
      in case find (\<lambda>c. c \<notin> set ALL_CASES) cases of
           Some c \<Rightarrow> Inl (SystemExit (''unknown case '' @ c))
         | None \<Rightarrow> Inr cases)"

text \<open>\<open>orders trial\<close> is the order of the burst in the given trial of a case.\<close>

fun run_trials ::
  "('cl, 'conn, 'srv) conn_api \<Rightarrow> conn_target \<Rightarrow> string \<Rightarrow> int \<Rightarrow> (int \<Rightarrow> nat list) \<Rightarrow> int list \<Rightarrow> 'srv
    \<Rightarrow> (string list \<times> 'srv) result" where
  "run_trials api target case_name n orders [] srv = Inr ([], srv)"
| "run_trials api target case_name n orders (trial # trials) srv =
     bindR (run_case api target case_name n (orders trial) srv) (\<lambda>(r, srv1).
     bindR (run_trials api target case_name n orders trials srv1) (\<lambda>(out, srv2).
       Inr (print_result (r\<lparr>cr_trial := trial\<rparr>) n @ out, srv2)))"

fun run_cases ::
  "('cl, 'conn, 'srv) conn_api \<Rightarrow> conn_target \<Rightarrow> int \<Rightarrow> int \<Rightarrow> (string \<Rightarrow> int \<Rightarrow> nat list) \<Rightarrow> string list \<Rightarrow> 'srv
    \<Rightarrow> (string list \<times> 'srv) result" where
  "run_cases api target n trials orders [] srv = Inr ([], srv)"
| "run_cases api target n trials orders (c # cs) srv =
     bindR (run_trials api target c n (orders c) [1..trials] srv) (\<lambda>(out, srv1).
     bindR (run_cases api target n trials orders cs srv1) (\<lambda>(rest, srv2).
       Inr ((CHR 0x0A # ''=== '' @ c @ '' (n='' @ py_str n @ '') ==='') # out @ rest, srv2)))"

text \<open>The server's INFO: its Redis version besides what \<open>server_info\<close> has.\<close>

definition connected_lines :: "string option \<Rightarrow> server_info \<Rightarrow> string list" where
  "connected_lines redis_version info =
     (''connected: redis_version='' @ show_opt ''None'' (\<lambda>s. s) redis_version
        @ '' dragonfly_version='' @ show_opt ''n/a'' (\<lambda>s. s) (si_dragonfly_version info)
        @ '' thread_count='' @ show_opt ''n/a'' py_str (si_thread_count info))
     # (if si_dragonfly_version info = None then
          [''warning: server does not report dragonfly_version -- tid= pinning likely doesn't apply here'']
        else [])"

definition pinning_main ::
  "('cl, 'conn, 'srv) conn_api \<Rightarrow> conn_target \<Rightarrow> string option \<Rightarrow> server_info \<Rightarrow> string \<Rightarrow> int \<Rightarrow> int
    \<Rightarrow> (string \<Rightarrow> int \<Rightarrow> nat list) \<Rightarrow> 'srv \<Rightarrow> (string list \<times> 'srv) result" where
  "pinning_main api target redis_version info cases_arg n trials orders srv =
     bindR (parse_cases cases_arg) (\<lambda>cases.
       let (observer, srv1) = make_client api target srv;
           srv2 = ca_ping api srv1 observer
       in bindR (run_cases api target n trials orders cases srv2) (\<lambda>(out, srv3).
            Inr (connected_lines redis_version info @ out, srv3)))"


section \<open>What the interface promises\<close>

text \<open>
  The contract is stated over three views of the state: the client that owns a listed connection, the
  connections that are checked out, and the clients made so far; \<open>vw_conn\<close> is a connection's id.
\<close>

record ('cl, 'conn, 'srv) conn_view =
  vw_owner :: "'srv \<Rightarrow> string \<Rightarrow> 'cl option"
  vw_busy :: "'srv \<Rightarrow> string set"
  vw_made :: "'srv \<Rightarrow> 'cl set"
  vw_conn :: "'conn \<Rightarrow> string"

definition ids_of :: "('cl, 'conn, 'srv) conn_api \<Rightarrow> 'srv \<Rightarrow> string option list" where
  "ids_of api srv = map (\<lambda>row. map_of row ''id'') (ca_list api srv)"

text \<open>Nothing a listing shows and no owner changes.\<close>

definition same_listing :: "('cl, 'conn, 'srv) conn_api \<Rightarrow> ('cl, 'conn, 'srv) conn_view \<Rightarrow> 'srv \<Rightarrow> 'srv \<Rightarrow> bool" where
  "same_listing api v srv srv' \<longleftrightarrow>
     ca_list api srv' = ca_list api srv \<and> vw_owner v srv' = vw_owner v srv \<and> vw_made v srv' = vw_made v srv"

text \<open>A new client owns nothing yet; no connection is opened before it is used.\<close>

definition creates :: "('cl, 'conn, 'srv) conn_api \<Rightarrow> ('cl, 'conn, 'srv) conn_view \<Rightarrow> 'srv \<Rightarrow> 'cl \<times> 'srv \<Rightarrow> bool" where
  "creates api v srv r \<longleftrightarrow>
     fst r \<notin> vw_made v srv \<and> vw_made v (snd r) = insert (fst r) (vw_made v srv)
     \<and> ca_list api (snd r) = ca_list api srv \<and> vw_owner v (snd r) = vw_owner v srv
     \<and> vw_busy v (snd r) = vw_busy v srv"

text \<open>All connections of a client are checked out.\<close>

definition no_idle :: "('cl, 'conn, 'srv) conn_api \<Rightarrow> ('cl, 'conn, 'srv) conn_view \<Rightarrow> 'srv \<Rightarrow> 'cl \<Rightarrow> bool" where
  "no_idle api v srv cl \<longleftrightarrow>
     (\<forall>i. Some i \<in> set (ids_of api srv) \<and> vw_owner v srv i = Some cl \<longrightarrow> i \<in> vw_busy v srv)"

text \<open>One connection is opened for a client, and is checked out or idle afterwards.\<close>

definition opens ::
  "('cl, 'conn, 'srv) conn_api \<Rightarrow> ('cl, 'conn, 'srv) conn_view \<Rightarrow> 'srv \<Rightarrow> 'cl \<Rightarrow> string \<Rightarrow> bool \<Rightarrow> 'srv \<Rightarrow> bool" where
  "opens api v srv cl i in_use srv' \<longleftrightarrow>
     (\<exists>row. map_of row ''id'' = Some i \<and> ca_list api srv' = ca_list api srv @ [row])
     \<and> vw_owner v srv' = (vw_owner v srv)(i \<mapsto> cl) \<and> vw_made v srv' = vw_made v srv
     \<and> vw_busy v srv' = (if in_use then insert i (vw_busy v srv) else vw_busy v srv)"

text \<open>
  The contract: every row has an id and no two rows the same; a client is new; a client without
  an idle connection opens one for a PING or a checkout; a PING on a connection changes nothing; giving
  a connection back closes none; disconnecting closes that connection, closing a client all of
  its connections, and neither closes any other.
\<close>

definition conn_laws :: "('cl, 'conn, 'srv) conn_api \<Rightarrow> ('cl, 'conn, 'srv) conn_view \<Rightarrow> bool" where
  "conn_laws api v \<longleftrightarrow>
     (\<forall>srv. None \<notin> set (ids_of api srv) \<and> distinct (ids_of api srv)) \<and>
     (\<forall>srv i cl. vw_owner v srv i = Some cl \<longrightarrow> cl \<in> vw_made v srv) \<and>
     (\<forall>srv uri. creates api v srv (ca_from_url api srv uri)) \<and>
     (\<forall>srv host port db. creates api v srv (ca_redis api srv host port db)) \<and>
     (\<forall>srv cl. cl \<in> vw_made v srv \<and> no_idle api v srv cl \<longrightarrow> (\<exists>i. opens api v srv cl i False (ca_ping api srv cl))) \<and>
     (\<forall>srv cl. cl \<in> vw_made v srv \<and> no_idle api v srv cl \<longrightarrow>
        opens api v srv cl (vw_conn v (fst (ca_get_connection api srv cl))) True (snd (ca_get_connection api srv cl))) \<and>
     (\<forall>srv c. same_listing api v srv (ca_ping_on api srv c) \<and> vw_busy v (ca_ping_on api srv c) = vw_busy v srv) \<and>
     (\<forall>srv cl c. same_listing api v srv (snd (ca_release api srv cl c))) \<and>
     (\<forall>srv c. ca_list api (ca_disconnect api srv c) = filter (\<lambda>row. map_of row ''id'' \<noteq> Some (vw_conn v c)) (ca_list api srv)
        \<and> vw_owner v (ca_disconnect api srv c) = vw_owner v srv \<and> vw_made v (ca_disconnect api srv c) = vw_made v srv) \<and>
     (\<forall>srv cl. ca_list api (ca_close api srv cl)
          = filter (\<lambda>row. vw_owner v srv (the (map_of row ''id'')) \<noteq> Some cl) (ca_list api srv)
        \<and> vw_owner v (ca_close api srv cl) = vw_owner v srv \<and> vw_made v (ca_close api srv cl) = vw_made v srv)"

lemma conn_lawsD:
  assumes "conn_laws api v"
  shows "None \<notin> set (ids_of api srv)" "distinct (ids_of api srv)"
    and "vw_owner v srv i = Some cl \<Longrightarrow> cl \<in> vw_made v srv"
    and "creates api v srv (make_client api target srv)"
    and "cl \<in> vw_made v srv \<Longrightarrow> no_idle api v srv cl \<Longrightarrow> \<exists>i. opens api v srv cl i False (ca_ping api srv cl)"
    and "cl \<in> vw_made v srv \<Longrightarrow> no_idle api v srv cl \<Longrightarrow>
        opens api v srv cl (vw_conn v (fst (ca_get_connection api srv cl))) True (snd (ca_get_connection api srv cl))"
    and "same_listing api v srv (ca_ping_on api srv c)" "vw_busy v (ca_ping_on api srv c) = vw_busy v srv"
    and "same_listing api v srv (snd (ca_release api srv cl c))"
    and "ca_list api (ca_disconnect api srv c) = filter (\<lambda>row. map_of row ''id'' \<noteq> Some (vw_conn v c)) (ca_list api srv)"
    and "vw_owner v (ca_disconnect api srv c) = vw_owner v srv"
    and "ca_list api (ca_close api srv cl)
        = filter (\<lambda>row. vw_owner v srv (the (map_of row ''id'')) \<noteq> Some cl) (ca_list api srv)"
    and "vw_owner v (ca_close api srv cl) = vw_owner v srv"
proof -
  show "creates api v srv (make_client api target srv)"
    using assms unfolding conn_laws_def by (simp add: make_client_def split: option.splits)
qed (insert assms, simp_all add: conn_laws_def)


section \<open>Lemmas\<close>

lemma snapshot_rows_new:
  assumes "distinct (map (\<lambda>row. map_of row ''id'') rows)" "None \<notin> set (map (\<lambda>row. map_of row ''id'') rows)"
    and "\<And>row. row \<in> set rows \<Longrightarrow> the (map_of row ''id'') \<notin> fst ` set d"
  shows "snapshot_rows rows d = Inr (d @ map (\<lambda>row. (the (map_of row ''id''), row)) rows)"
  using assms
proof (induction rows arbitrary: d)
  case Nil
  show ?case by simp
next
  case (Cons row rows)
  from Cons.prems(2) obtain i where i: "map_of row ''id'' = Some i" by (cases "map_of row ''id''") auto
  have "i \<notin> fst ` set d" using Cons.prems(3)[of row] i by simp
  then have u: "AList.update i row d = d @ [(i, row)]" by (rule update_new)
  have ne: "the (map_of r ''id'') \<noteq> i" if r: "r \<in> set rows" for r
  proof -
    have m: "map_of r ''id'' \<in> (\<lambda>row. map_of row ''id'') ` set rows" by (rule imageI[OF r])
    have "map_of r ''id'' \<noteq> None"
    proof
      assume "map_of r ''id'' = None"
      with m Cons.prems(2) show False by simp
    qed
    moreover have "map_of r ''id'' \<noteq> Some i"
    proof
      assume "map_of r ''id'' = Some i"
      with m Cons.prems(1) i show False by simp
    qed
    ultimately show ?thesis by (metis option.collapse)
  qed
  have "the (map_of r ''id'') \<notin> fst ` set (d @ [(i, row)])" if "r \<in> set rows" for r
    using Cons.prems(3)[of r] ne[OF that] that by auto
  from Cons.IH[OF _ _ this] Cons.prems(1,2) show ?case by (simp add: row_get_def i u)
qed

lemma snapshot_laws:
  assumes "conn_laws api v"
  shows "snapshot_by_id api srv = Inr (map (\<lambda>row. (the (map_of row ''id''), row)) (ca_list api srv))"
  using snapshot_rows_new[of "ca_list api srv" "[]"] conn_lawsD(1,2)[OF assms, of srv]
  by (simp add: snapshot_by_id_def ids_of_def)

text \<open>The counter counts.\<close>

lemma counter_snoc: "counter (xs @ [x]) = counter_add (counter xs) x"
  by (simp add: counter_def)

lemma counter_facts:
  "dict_get (counter xs) t 0 = int (count_list xs t)" "fst ` set (counter xs) = set xs"
  "distinct (map fst (counter xs))"
proof (induction xs arbitrary: t rule: rev_induct)
  case Nil
  { case 1 show ?case by (simp add: counter_def dict_get_def) }
  { case 2 show ?case by (simp add: counter_def) }
  { case 3 show ?case by (simp add: counter_def) }
next
  case (snoc x xs)
  { case 1 show ?case using snoc(1)[of t] snoc(1)[of x]
      by (simp add: counter_snoc counter_add_def dict_get_def update_conv split: option.split) }
  { case 2 show ?case using snoc(2) by (auto simp: counter_snoc counter_add_def dom_update) }
  { case 3 show ?case using snoc(3) by (simp add: counter_snoc counter_add_def distinct_update) }
qed

lemma length_counter: "length (counter xs) = card (set xs)"
  using counter_facts(2,3)[of xs] distinct_card[of "map fst (counter xs)"] by simp


text \<open>
  What opening connections for the clients \<open>cs\<close> does: rows are added, owned by these clients, and
  the owners of the rows that were there stay.
\<close>

definition opened ::
  "('cl, 'conn, 'srv) conn_api \<Rightarrow> ('cl, 'conn, 'srv) conn_view \<Rightarrow> 'srv \<Rightarrow> 'cl set \<Rightarrow> nat \<Rightarrow> 'srv \<Rightarrow> bool" where
  "opened api v srv cs n srv' \<longleftrightarrow>
     vw_made v srv' = vw_made v srv
     \<and> (\<exists>rows. ca_list api srv' = ca_list api srv @ rows \<and> length rows = n
          \<and> (\<forall>row\<in>set rows. vw_owner v srv' (the (map_of row ''id'')) \<in> Some ` cs))
     \<and> (\<forall>i. Some i \<in> set (ids_of api srv) \<longrightarrow> vw_owner v srv' i = vw_owner v srv i)"

lemma opened_none: "opened api v srv cs 0 srv"
  by (simp add: opened_def)

lemma opens_id:
  assumes "conn_laws api v" "opens api v srv cl i in_use srv'"
  shows "ids_of api srv' = ids_of api srv @ [Some i]" "Some i \<notin> set (ids_of api srv)"
proof -
  show ids: "ids_of api srv' = ids_of api srv @ [Some i]" using assms(2) by (auto simp: opens_def ids_of_def)
  show "Some i \<notin> set (ids_of api srv)" using conn_lawsD(2)[OF assms(1), of srv'] by (simp add: ids)
qed

lemma opened_step:
  assumes "conn_laws api v" "opens api v srv cl i in_use srv1" "opened api v srv1 cs n srv2"
  shows "opened api v srv (insert cl cs) (Suc n) srv2"
proof -
  note ids = opens_id[OF assms(1,2)]
  obtain row where row: "map_of row ''id'' = Some i" "ca_list api srv1 = ca_list api srv @ [row]"
    using assms(2) by (auto simp: opens_def)
  obtain rows where rows: "ca_list api srv2 = ca_list api srv1 @ rows" "length rows = n"
    "\<forall>row\<in>set rows. vw_owner v srv2 (the (map_of row ''id'')) \<in> Some ` cs"
    using assms(3) by (auto simp: opened_def)
  have old: "vw_owner v srv2 j = vw_owner v srv1 j" if "Some j \<in> set (ids_of api srv1)" for j
    using assms(3) that by (simp add: opened_def)
  have new: "vw_owner v srv1 = (vw_owner v srv)(i \<mapsto> cl)" "vw_made v srv1 = vw_made v srv"
    using assms(2) by (simp_all add: opens_def)
  have "vw_owner v srv2 j = vw_owner v srv j" if "Some j \<in> set (ids_of api srv)" for j
    using old[of j] that ids(2) by (auto simp: ids(1) new(1))
  moreover have "vw_owner v srv2 i = Some cl" using old[of i] by (simp add: ids(1) new(1))
  then have "\<forall>r\<in>set (row # rows). vw_owner v srv2 (the (map_of r ''id'')) \<in> Some ` insert cl cs"
    using rows(3) row(1) by auto
  moreover have "ca_list api srv2 = ca_list api srv @ row # rows" using rows(1) row(2) by simp
  moreover have "vw_made v srv2 = vw_made v srv" using assms(3) new(2) by (simp add: opened_def)
  ultimately show ?thesis unfolding opened_def using rows(2)
    by (intro conjI exI[of _ "row # rows"]) auto
qed

text \<open>Clients that own nothing open one connection each.\<close>

definition unowned :: "('cl, 'conn, 'srv) conn_view \<Rightarrow> 'srv \<Rightarrow> 'cl \<Rightarrow> bool" where
  "unowned v srv cl \<longleftrightarrow> (\<forall>i. vw_owner v srv i \<noteq> Some cl)"

lemma pings_open:
  assumes "conn_laws api v" "distinct cs" "\<forall>c\<in>set cs. c \<in> vw_made v srv \<and> unowned v srv c"
  shows "opened api v srv (set cs) (length cs) (foldl (ca_ping api) srv cs)"
  using assms(2,3)
proof (induction cs arbitrary: srv)
  case Nil
  show ?case by (simp add: opened_none)
next
  case (Cons c cs)
  have "no_idle api v srv c" using Cons.prems(2) by (simp add: no_idle_def unowned_def)
  then obtain i where i: "opens api v srv c i False (ca_ping api srv c)"
    using conn_lawsD(5)[OF assms(1), of c srv] Cons.prems(2) by auto
  have "\<forall>d\<in>set cs. d \<in> vw_made v (ca_ping api srv c) \<and> unowned v (ca_ping api srv c) d"
    using Cons.prems i by (auto simp: opens_def unowned_def)
  with Cons have "opened api v (ca_ping api srv c) (set cs) (length cs) (foldl (ca_ping api) (ca_ping api srv c) cs)"
    by simp
  from opened_step[OF assms(1) i this] show ?case by simp
qed

text \<open>One client without an idle connection opens one for each checkout.\<close>

lemma checkouts_open:
  assumes "conn_laws api v" "cl \<in> vw_made v srv" "no_idle api v srv cl"
    and "checkouts api cl is srv = (pairs, srv')"
  shows "opened api v srv {cl} (length is) srv' \<and> map fst pairs = is
    \<and> (\<forall>c\<in>set (map snd pairs). vw_owner v srv' (vw_conn v c) = Some cl \<and> Some (vw_conn v c) \<in> set (ids_of api srv'))"
  using assms(2-4)
proof (induction "is" arbitrary: srv pairs srv')
  case Nil
  then show ?case by (simp add: opened_none)
next
  case (Cons i "is")
  obtain c srv1 where get: "ca_get_connection api srv cl = (c, srv1)" by (cases "ca_get_connection api srv cl")
  let ?srv2 = "ca_ping_on api srv1 c"
  obtain rest where rest: "checkouts api cl is ?srv2 = (rest, srv')" "pairs = (i, c) # rest"
    using Cons.prems(3) by (auto simp: checkout_one_def get Let_def split: prod.splits)
  have o1: "opens api v srv cl (vw_conn v c) True srv1"
    using conn_lawsD(6)[OF assms(1) Cons.prems(1,2)] get by simp
  have o: "opens api v srv cl (vw_conn v c) True ?srv2"
    using o1 conn_lawsD(7,8)[OF assms(1), of srv1 c] by (simp add: opens_def same_listing_def)
  note ids = opens_id[OF assms(1) o]
  have made: "cl \<in> vw_made v ?srv2" using o Cons.prems(1) by (simp add: opens_def)
  have "no_idle api v ?srv2 cl"
    using Cons.prems(2) o by (auto simp: no_idle_def opens_def ids(1))
  note IH = Cons.IH[OF made this rest(1)]
  have mem: "Some (vw_conn v c) \<in> set (ids_of api ?srv2)" by (simp add: ids(1))
  then have "vw_owner v srv' (vw_conn v c) = vw_owner v ?srv2 (vw_conn v c)" using IH by (simp add: opened_def)
  also have "\<dots> = Some cl" using o by (simp add: opens_def)
  finally have own: "vw_owner v srv' (vw_conn v c) = Some cl" .
  have "set (ids_of api ?srv2) \<subseteq> set (ids_of api srv')" using IH by (auto simp: opened_def ids_of_def)
  with own mem IH opened_step[OF assms(1) o, of "{cl}" "length is" srv'] rest(2) show ?case by auto
qed

lemma make_clients_new:
  assumes "conn_laws api v" "make_clients api target n srv = (cs, srv')"
  shows "length cs = n \<and> distinct cs \<and> set cs \<inter> vw_made v srv = {} \<and> vw_made v srv' = set cs \<union> vw_made v srv
    \<and> ca_list api srv' = ca_list api srv \<and> vw_owner v srv' = vw_owner v srv"
  using assms(2)
proof (induction n arbitrary: srv cs)
  case 0
  then show ?case by simp
next
  case (Suc n)
  obtain c srv1 where c: "make_client api target srv = (c, srv1)" by (cases "make_client api target srv")
  obtain ds where ds: "make_clients api target n srv1 = (ds, srv')" "cs = c # ds"
    using Suc.prems by (auto simp: c Let_def split: prod.splits)
  have "creates api v srv (c, srv1)" using conn_lawsD(4)[OF assms(1), of srv target] by (simp add: c)
  with Suc.IH[OF ds(1)] ds(2) show ?case by (auto simp: creates_def)
qed

lemma new_unowned:
  assumes "conn_laws api v" "cl \<notin> vw_made v srv"
  shows "unowned v srv cl"
  using conn_lawsD(3)[OF assms(1)] assms(2) by (auto simp: unowned_def)

text \<open>Closing: the rows of the clients go, the others stay.\<close>

lemma close_independent_list:
  assumes "conn_laws api v"
  shows "ca_list api (close_independent api cs srv)
    = filter (\<lambda>row. vw_owner v srv (the (map_of row ''id'')) \<notin> Some ` set cs) (ca_list api srv)"
proof (induction cs arbitrary: srv)
  case Nil
  show ?case by (simp add: close_independent_def)
next
  case (Cons c cs)
  have "close_independent api (c # cs) srv = close_independent api cs (ca_close api srv c)"
    by (simp add: close_independent_def)
  with Cons show ?case
    by (auto simp: conn_lawsD(12,13)[OF assms] intro!: filter_cong)
qed

lemma give_back_list:
  assumes "conn_laws api v" "\<forall>c\<in>set conns. vw_owner v srv (vw_conn v c) = Some cl"
  shows "vw_owner v (foldl (give_back api cl) srv conns) = vw_owner v srv
    \<and> filter (\<lambda>row. vw_owner v srv (the (map_of row ''id'')) \<noteq> Some cl) (ca_list api (foldl (give_back api cl) srv conns))
      = filter (\<lambda>row. vw_owner v srv (the (map_of row ''id'')) \<noteq> Some cl) (ca_list api srv)"
  using assms(2)
proof (induction conns arbitrary: srv)
  case Nil
  show ?case by simp
next
  case (Cons c conns)
  obtain raised srv1 where r: "ca_release api srv cl c = (raised, srv1)" by (cases "ca_release api srv cl c")
  let ?s = "give_back api cl srv c"
  have rel: "ca_list api srv1 = ca_list api srv" "vw_owner v srv1 = vw_owner v srv"
    using conn_lawsD(9)[OF assms(1), of srv cl c] by (simp_all add: r same_listing_def)
  have own: "vw_owner v ?s = vw_owner v srv"
    using rel(2) conn_lawsD(11)[OF assms(1)] by (simp add: give_back_def r)
  have "filter (\<lambda>row. vw_owner v srv (the (map_of row ''id'')) \<noteq> Some cl) (ca_list api ?s)
      = filter (\<lambda>row. vw_owner v srv (the (map_of row ''id'')) \<noteq> Some cl) (ca_list api srv)"
    using Cons.prems rel(1) conn_lawsD(10)[OF assms(1)] by (auto simp: give_back_def r intro!: filter_cong)
  with Cons.IH[of ?s] Cons.prems own show ?case by simp
qed

lemma close_shared_list:
  assumes "conn_laws api v" "\<forall>c\<in>set conns. vw_owner v srv (vw_conn v c) = Some cl"
  shows "ca_list api (close_shared api cl conns srv)
    = filter (\<lambda>row. vw_owner v srv (the (map_of row ''id'')) \<notin> Some ` {cl}) (ca_list api srv)"
  using give_back_list[OF assms] by (simp add: close_shared_def conn_lawsD(12)[OF assms(1)])

text \<open>A case opens its connections, and closing what it holds restores the listing.\<close>

lemma opened_closed:
  assumes "conn_laws api v" "opened api v srv cs n srv'" "cs \<inter> vw_made v srv0 = {}"
    and "vw_owner v srv = vw_owner v srv0" "ca_list api srv = ca_list api srv0"
  shows "\<exists>rows. ca_list api srv' = ca_list api srv0 @ rows \<and> length rows = n
    \<and> filter (\<lambda>row. vw_owner v srv' (the (map_of row ''id'')) \<notin> Some ` cs) (ca_list api srv') = ca_list api srv0"
proof -
  obtain rows where rows: "ca_list api srv' = ca_list api srv @ rows" "length rows = n"
    "\<forall>row\<in>set rows. vw_owner v srv' (the (map_of row ''id'')) \<in> Some ` cs"
    "\<forall>i. Some i \<in> set (ids_of api srv) \<longrightarrow> vw_owner v srv' i = vw_owner v srv i"
    using assms(2) by (auto simp: opened_def)
  have "vw_owner v srv' (the (map_of row ''id'')) \<notin> Some ` cs" if r: "row \<in> set (ca_list api srv)" for row
  proof -
    have m: "map_of row ''id'' \<in> set (ids_of api srv)" unfolding ids_of_def set_map by (rule imageI[OF r])
    then obtain i where i: "map_of row ''id'' = Some i"
      using conn_lawsD(1)[OF assms(1), of srv] by (metis not_None_eq)
    have "vw_owner v srv' i = vw_owner v srv0 i" using rows(4) m i assms(4) by simp
    moreover have "vw_owner v srv0 i \<notin> Some ` cs"
      using conn_lawsD(3)[OF assms(1), of srv0 i] assms(3) by auto
    ultimately show ?thesis using i by simp
  qed
  then have "filter (\<lambda>row. vw_owner v srv' (the (map_of row ''id'')) \<notin> Some ` cs) (ca_list api srv') = ca_list api srv"
    using rows(1,3) by (simp add: filter_False filter_True)
  with rows assms(5) show ?thesis by auto
qed

lemma open_independent_ok:
  assumes "conn_laws api v" "0 < n" "mset order = mset [0..<nat n]"
  shows "\<exists>clients srv1 rows. open_independent api target n timing order srv = Inr (clients, srv1)
    \<and> ca_list api srv1 = ca_list api srv @ rows \<and> length rows = nat n
    \<and> ca_list api (close_independent api clients srv1) = ca_list api srv"
proof -
  obtain cs srv0 where cs: "make_clients api target (nat n) srv = (cs, srv0)"
    by (cases "make_clients api target (nat n) srv")
  note new = make_clients_new[OF assms(1) cs]
  let ?ds = "if timing = ''stagger'' then cs else map ((!) cs) order"
  have perm: "mset (map ((!) cs) order) = mset cs"
  proof -
    have "mset (map ((!) cs) order) = image_mset ((!) cs) (mset [0..<length cs])" using assms(3) new by simp
    also have "\<dots> = mset (map ((!) cs) [0..<length cs])" by simp
    finally show ?thesis by (simp only: map_nth)
  qed
  then have ds: "distinct ?ds" "set ?ds = set cs" "length ?ds = nat n"
    using new mset_eq_imp_distinct_iff[OF perm] mset_eq_setD[OF perm] mset_eq_length[OF perm] by auto
  have "unowned v srv0 c" if "c \<in> set cs" for c
  proof -
    have "unowned v srv c" by (rule new_unowned[OF assms(1)]) (use new that in auto)
    then show ?thesis using new by (simp add: unowned_def)
  qed
  then have "\<forall>c\<in>set ?ds. c \<in> vw_made v srv0 \<and> unowned v srv0 c" unfolding ds(2) using new by auto
  from pings_open[OF assms(1) ds(1) this]
  have o: "opened api v srv0 (set cs) (nat n) (foldl (ca_ping api) srv0 ?ds)" by (simp only: ds(2,3))
  have "\<exists>rows. ca_list api (foldl (ca_ping api) srv0 ?ds) = ca_list api srv @ rows \<and> length rows = nat n
      \<and> ca_list api (close_independent api cs (foldl (ca_ping api) srv0 ?ds)) = ca_list api srv"
    using opened_closed[OF assms(1) o, of srv] new by (simp add: close_independent_list[OF assms(1)])
  moreover have "open_independent api target n timing order srv = Inr (cs, foldl (ca_ping api) srv0 ?ds)"
    using assms(2) by (simp add: open_independent_def cs foldl_map)
  ultimately show ?thesis by blast
qed

lemma open_shared_ok:
  assumes "conn_laws api v" "0 < n" "mset order = mset [0..<nat n]"
  shows "\<exists>client conns srv1 rows. open_shared api target n timing order srv = Inr ((client, conns), srv1)
    \<and> ca_list api srv1 = ca_list api srv @ rows \<and> length rows = nat n
    \<and> ca_list api (close_shared api client conns srv1) = ca_list api srv"
proof -
  obtain cl srv0 where cl: "make_client api target srv = (cl, srv0)" by (cases "make_client api target srv")
  have new: "cl \<notin> vw_made v srv" "cl \<in> vw_made v srv0" "ca_list api srv0 = ca_list api srv"
    "vw_owner v srv0 = vw_owner v srv"
    using conn_lawsD(4)[OF assms(1), of srv target] by (simp_all add: cl creates_def)
  have "no_idle api v srv0 cl" using new_unowned[OF assms(1) new(1)] by (simp add: no_idle_def unowned_def new(4))
  note held = checkouts_open[OF assms(1) new(2) this]
  let ?is = "if timing = ''stagger'' then [0..<nat n] else order"
  have len: "length ?is = nat n" using mset_eq_length[OF assms(3)] by simp
  obtain pairs srv1 where p: "checkouts api cl ?is srv0 = (pairs, srv1)" by (cases "checkouts api cl ?is srv0")
  let ?conns = "if timing = ''stagger'' then map snd pairs else map snd (sort_key fst pairs)"
  have own: "\<forall>c\<in>set ?conns. vw_owner v srv1 (vw_conn v c) = Some cl" using held[OF p] by auto
  have o: "opened api v srv0 {cl} (nat n) srv1" using held[OF p] len by simp
  have disj: "{cl} \<inter> vw_made v srv = {}" using new(1) by simp
  have "open_shared api target n timing order srv = Inr ((cl, ?conns), srv1)"
    using p assms(2) by (simp add: open_shared_def cl split: if_splits)
  moreover have "\<exists>rows. ca_list api srv1 = ca_list api srv @ rows \<and> length rows = nat n
      \<and> ca_list api (close_shared api cl ?conns srv1) = ca_list api srv"
    unfolding close_shared_list[OF assms(1) own] by (rule opened_closed[OF assms(1) o disj new(4,3)])
  ultimately show ?thesis by blast
qed

lemma open_held_ok:
  assumes "conn_laws api v" "0 < n" "mset order = mset [0..<nat n]"
  shows "\<exists>held srv1 rows. open_held api target pool_mode n timing order srv = Inr (held, srv1)
    \<and> ca_list api srv1 = ca_list api srv @ rows \<and> length rows = nat n
    \<and> ca_list api (close_held api held srv1) = ca_list api srv"
proof (cases "pool_mode = ''independent''")
  case True
  obtain cs srv1 where "open_independent api target n timing order srv = Inr (cs, srv1)"
    "\<exists>rows. ca_list api srv1 = ca_list api srv @ rows \<and> length rows = nat n
      \<and> ca_list api (close_independent api cs srv1) = ca_list api srv"
    using open_independent_ok[OF assms] by blast
  with True show ?thesis by (intro exI[of _ "Independent cs"] exI[of _ srv1]) (simp add: open_held_def)
next
  case False
  obtain cl conns srv1 where "open_shared api target n timing order srv = Inr ((cl, conns), srv1)"
    "\<exists>rows. ca_list api srv1 = ca_list api srv @ rows \<and> length rows = nat n
      \<and> ca_list api (close_shared api cl conns srv1) = ca_list api srv"
    using open_shared_ok[OF assms] by blast
  with False show ?thesis by (intro exI[of _ "Shared cl conns"] exI[of _ srv1]) (simp add: open_held_def)
qed


text \<open>The rows of the new connections are told apart by their identifiers.\<close>

lemma new_rows:
  assumes "distinct (map (\<lambda>row. map_of row ''id'') (old @ rows))"
    and "None \<notin> set (map (\<lambda>row. map_of row ''id'') (old @ rows))"
  shows "filter (\<lambda>(i, row). i \<notin> set (map fst (map (\<lambda>row. (the (map_of row ''id''), row)) old)))
      (map (\<lambda>row. (the (map_of row ''id''), row)) (old @ rows)) = map (\<lambda>row. (the (map_of row ''id''), row)) rows"
proof -
  let ?id = "\<lambda>row. map_of row ''id''"
  have disj: "?id ` set old \<inter> ?id ` set rows = {}" using assms(1) by auto
  have some: "\<exists>i. ?id r = Some i" if "r \<in> set (old @ rows)" for r
    using imageI[OF that, of ?id] assms(2) by (cases "?id r") auto
  have "the (?id r) \<noteq> the (?id r')" if "r \<in> set rows" "r' \<in> set old" for r r'
  proof -
    have "?id r \<noteq> ?id r'" using disj imageI[OF that(1), of ?id] imageI[OF that(2), of ?id] by auto
    with some[of r] some[of r'] that show ?thesis by auto
  qed
  then show ?thesis by (fastforce simp: comp_def image_image intro!: filter_False filter_True)
qed

section \<open>Properties\<close>

definition tids_of :: "client_row list \<Rightarrow> string list" where
  "tids_of rows = concat (map (\<lambda>row. case map_of row ''tid'' of None \<Rightarrow> [] | Some t \<Rightarrow> [t]) rows)"

text \<open>
  C31: Each of the four cases opens exactly the connections it counts, one for each client or one for each
  checkout, however many other clients are connected and in whatever order a burst runs; it
  counts the threads that own them, and closing what it holds leaves the server with the clients it had.
\<close>

theorem run_case_counts:
  assumes "conn_laws api v" "case_name \<in> set ALL_CASES" "0 < n" "mset order = mset [0..<nat n]"
  shows "\<exists>pool_mode timing held srv1 rows r srv'. split_case case_name = Inr (pool_mode, timing)
    \<and> open_held api target pool_mode n timing order srv = Inr (held, srv1)
    \<and> ca_list api srv1 = ca_list api srv @ rows \<and> length rows = nat n
    \<and> run_case api target case_name n order srv = Inr (r, srv') \<and> ca_list api srv' = ca_list api srv
    \<and> cr_new_connection_count r = n \<and> unique_threads r = card (set (tids_of rows))
    \<and> (\<forall>t. dict_get (cr_tid_counts r) t 0 = int (count_list (tids_of rows) t))"
proof -
  let ?key = "\<lambda>row. (the (map_of row ''id''), row)"
  obtain pool_mode timing where sp: "split_case case_name = Inr (pool_mode, timing)"
    using assms(2) by (fastforce simp: ALL_CASES_def split_case_def)
  obtain held srv1 rows where o: "open_held api target pool_mode n timing order srv = Inr (held, srv1)"
    "ca_list api srv1 = ca_list api srv @ rows" "length rows = nat n"
    "ca_list api (close_held api held srv1) = ca_list api srv"
    using open_held_ok[OF assms(1,3,4)] by blast
  have ds: "distinct (map (\<lambda>row. map_of row ''id'') (ca_list api srv @ rows))"
    "None \<notin> set (map (\<lambda>row. map_of row ''id'') (ca_list api srv @ rows))"
    using conn_lawsD(1,2)[OF assms(1), of srv1] by (simp_all add: ids_of_def o(2))
  have cat: "concat (map (\<lambda>(i, row). case map_of row ''tid'' of None \<Rightarrow> [] | Some t \<Rightarrow> [t]) (map ?key rows)) = tids_of rows"
    by (simp add: tids_of_def comp_def)
  let ?r = "\<lparr>cr_case = case_name, cr_trial = 0, cr_new_connection_count = int (length (map ?key rows)),
      cr_tid_counts = counter (tids_of rows)\<rparr>"
  have run: "run_case api target case_name n order srv = Inr (?r, close_held api held srv1)"
    unfolding run_case_def sp snapshot_laws[OF assms(1)] o(1,2) bindR.simps Let_def prod.case new_rows[OF ds] cat
    by (rule refl)
  have "cr_new_connection_count ?r = n" "unique_threads ?r = card (set (tids_of rows))"
    "\<forall>t. dict_get (cr_tid_counts ?r) t 0 = int (count_list (tids_of rows) t)"
    using counter_facts(1)[of "tids_of rows"] length_counter[of "tids_of rows"] o(3) assms(3)
    by (simp_all add: unique_threads_def)
  with sp o run show ?thesis by blast
qed


subsection \<open>A server and its clients\<close>

text \<open>
  A connection is its client, if it is one of the program's, and whether it is open and checked out; its id
  is its position. Connections are handed to four threads in turn, and releasing every second one raises.
\<close>

record toy_srv =
  ts_clients :: "nat list"
  ts_conns :: "(nat option \<times> bool \<times> bool) list"

definition toy_row :: "nat \<Rightarrow> client_row" where
  "toy_row i = [(''id'', py_str (int i)), (''tid'', py_str (int (i mod 4)))]"

definition toy_owners :: "toy_srv \<Rightarrow> nat list" where
  "toy_owners s = concat (map (\<lambda>(c, _). case c of None \<Rightarrow> [] | Some c \<Rightarrow> [c]) (ts_conns s))"

definition toy_make :: "toy_srv \<Rightarrow> nat \<times> toy_srv" where
  "toy_make s =
     (let c = Suc (sum_list (ts_clients s @ toy_owners s)) in (c, s\<lparr>ts_clients := c # ts_clients s\<rparr>))"

definition toy_idle :: "toy_srv \<Rightarrow> nat \<Rightarrow> nat option" where
  "toy_idle s cl = find (\<lambda>k. ts_conns s ! k = (Some cl, True, False)) [0..<length (ts_conns s)]"

definition toy_open :: "toy_srv \<Rightarrow> nat \<Rightarrow> bool \<Rightarrow> toy_srv" where
  "toy_open s cl in_use = s\<lparr>ts_conns := ts_conns s @ [(Some cl, True, in_use)]\<rparr>"

definition toy_set :: "toy_srv \<Rightarrow> nat \<Rightarrow> (bool \<times> bool \<Rightarrow> bool \<times> bool) \<Rightarrow> toy_srv" where
  "toy_set s k f = s\<lparr>ts_conns := (ts_conns s)[k := (fst (ts_conns s ! k), f (snd (ts_conns s ! k)))]\<rparr>"

definition toy_conns :: "(nat, nat, toy_srv) conn_api" where
  "toy_conns =
     \<lparr>ca_from_url = (\<lambda>s uri. toy_make s), ca_redis = (\<lambda>s host port db. toy_make s),
      ca_ping = (\<lambda>s cl. if toy_idle s cl = None then toy_open s cl False else s),
      ca_get_connection = (\<lambda>s cl. case toy_idle s cl of
         None \<Rightarrow> (length (ts_conns s), toy_open s cl True)
       | Some k \<Rightarrow> (k, toy_set s k (\<lambda>(up, _). (up, True)))),
      ca_ping_on = (\<lambda>s c. s),
      ca_release = (\<lambda>s cl c. (odd c, toy_set s c (\<lambda>(up, _). (up, False)))),
      ca_disconnect = (\<lambda>s c. toy_set s c (\<lambda>(_, in_use). (False, in_use))),
      ca_close = (\<lambda>s cl. s\<lparr>ts_conns := map (\<lambda>(c, up, in_use). (c, up \<and> c \<noteq> Some cl, in_use)) (ts_conns s)\<rparr>),
      ca_list = (\<lambda>s. map toy_row (filter (\<lambda>k. fst (snd (ts_conns s ! k))) [0..<length (ts_conns s)]))\<rparr>"

definition toy_owner :: "toy_srv \<Rightarrow> string \<Rightarrow> nat option" where
  "toy_owner s i =
     (let k = nat (projr (py_int i))
      in if k < length (ts_conns s) \<and> i = py_str (int k) then fst (ts_conns s ! k) else None)"

definition toy_view :: "(nat, nat, toy_srv) conn_view" where
  "toy_view =
     \<lparr>vw_owner = toy_owner,
      vw_busy = (\<lambda>s. (\<lambda>k. py_str (int k)) ` {k. k < length (ts_conns s) \<and> snd (snd (ts_conns s ! k))}),
      vw_made = (\<lambda>s. set (ts_clients s @ toy_owners s)),
      vw_conn = (\<lambda>c. py_str (int c))\<rparr>"

lemma toy_owner_at: "toy_owner s (py_str (int k)) = (if k < length (ts_conns s) then fst (ts_conns s ! k) else None)"
  by (simp add: toy_owner_def Let_def py_int_py_str)

lemma toy_owner_none: "(\<And>k. i \<noteq> py_str (int k)) \<Longrightarrow> toy_owner s i = None"
  by (simp add: toy_owner_def Let_def)

lemma toy_owner_cong:
  assumes "map fst (ts_conns s') = map fst (ts_conns s)"
  shows "toy_owner s' = toy_owner s"
proof
  fix i
  have "length (ts_conns s') = length (ts_conns s)" using map_eq_imp_length_eq[OF assms] .
  moreover have "fst (ts_conns s' ! k) = fst (ts_conns s ! k)" if "k < length (ts_conns s)" for k
    using arg_cong[OF assms, of "\<lambda>xs. xs ! k"] that calculation by simp
  ultimately show "toy_owner s' i = toy_owner s i" by (simp add: toy_owner_def Let_def)
qed

lemma toy_owners_map: "toy_owners s = concat (map (\<lambda>c. case c of None \<Rightarrow> [] | Some c \<Rightarrow> [c]) (map fst (ts_conns s)))"
  by (simp add: toy_owners_def comp_def case_prod_unfold)

lemma toy_set_fst: "map fst (ts_conns (toy_set s k f)) = map fst (ts_conns s)"
  by (simp add: toy_set_def map_update) (metis list_update_id list_update_beyond map_update not_le)

lemma toy_same:
  assumes "map fst (ts_conns s') = map fst (ts_conns s)" "ts_clients s' = ts_clients s"
  shows "vw_owner toy_view s' = vw_owner toy_view s" "vw_made toy_view s' = vw_made toy_view s"
proof -
  have "toy_owners s' = toy_owners s" by (simp only: toy_owners_map assms(1))
  then show "vw_made toy_view s' = vw_made toy_view s" by (simp add: toy_view_def assms(2))
  show "vw_owner toy_view s' = vw_owner toy_view s" by (simp add: toy_view_def toy_owner_cong[OF assms(1)])
qed

lemma toy_ids: "ids_of toy_conns s = map (\<lambda>k. Some (py_str (int k)))
    (filter (\<lambda>k. fst (snd (ts_conns s ! k))) [0..<length (ts_conns s)])"
  by (simp add: ids_of_def toy_conns_def toy_row_def comp_def)

lemma toy_rows:
  "ca_list toy_conns s = map toy_row (filter (\<lambda>k. fst (snd (ts_conns s ! k))) [0..<length (ts_conns s)])"
  by (simp add: toy_conns_def)

lemma toy_creates: "creates toy_conns toy_view s (toy_make s)"
proof -
  have "x \<le> sum_list xs" if "x \<in> set xs" for x :: nat and xs using that by (simp add: member_le_sum_list)
  from this[of "fst (toy_make s)" "ts_clients s @ toy_owners s"]
  have "fst (toy_make s) \<notin> set (ts_clients s @ toy_owners s)" by (auto simp: toy_make_def Let_def)
  moreover have m: "ts_conns (snd (toy_make s)) = ts_conns s"
    "ts_clients (snd (toy_make s)) = fst (toy_make s) # ts_clients s" by (simp_all add: toy_make_def Let_def)
  moreover have "toy_owner (snd (toy_make s)) = toy_owner s" "toy_owners (snd (toy_make s)) = toy_owners s"
    by (rule toy_owner_cong) (simp_all add: m toy_owners_def)
  ultimately show ?thesis by (simp add: creates_def toy_view_def toy_rows)
qed

lemma toy_opens:
  assumes "cl \<in> vw_made toy_view s"
  shows "opens toy_conns toy_view s cl (py_str (int (length (ts_conns s)))) in_use (toy_open s cl in_use)"
proof -
  let ?s = "toy_open s cl in_use" and ?n = "length (ts_conns s)"
  have c: "ts_conns ?s = ts_conns s @ [(Some cl, True, in_use)]" "ts_clients ?s = ts_clients s"
    by (simp_all add: toy_open_def)
  have "filter (\<lambda>k. fst (snd (ts_conns ?s ! k))) [0..<?n] = filter (\<lambda>k. fst (snd (ts_conns s ! k))) [0..<?n]"
    by (rule filter_cong) (auto simp: c nth_append)
  then have l: "ca_list toy_conns ?s = ca_list toy_conns s @ [toy_row ?n]" by (simp add: toy_rows c)
  have "toy_owner ?s i = ((toy_owner s)(py_str (int ?n) \<mapsto> cl)) i" for i
  proof (cases "\<exists>k. i = py_str (int k)")
    case True
    then show ?thesis by (auto simp: toy_owner_at c nth_append)
  next
    case False
    then show ?thesis by (auto simp: toy_owner_none)
  qed
  then have o: "vw_owner toy_view ?s = (vw_owner toy_view s)(py_str (int ?n) \<mapsto> cl)"
    by (simp add: toy_view_def fun_eq_iff)
  have m: "vw_made toy_view ?s = vw_made toy_view s"
    using assms by (auto simp: toy_view_def toy_owners_def c)
  have "{k. k < Suc ?n \<and> snd (snd (ts_conns ?s ! k))}
      = {k. k < ?n \<and> snd (snd (ts_conns s ! k))} \<union> (if in_use then {?n} else {})"
    by (auto simp: c nth_append less_Suc_eq)
  then have b: "vw_busy toy_view ?s = (if in_use then insert (py_str (int ?n)) (vw_busy toy_view s) else vw_busy toy_view s)"
    by (simp add: toy_view_def c)
  have "\<exists>row. map_of row ''id'' = Some (py_str (int ?n)) \<and> ca_list toy_conns ?s = ca_list toy_conns s @ [row]"
    by (rule exI[of _ "toy_row ?n"]) (simp add: l toy_row_def)
  with o m b show ?thesis by (simp add: opens_def)
qed

lemma toy_no_idle: "no_idle toy_conns toy_view s cl \<Longrightarrow> toy_idle s cl = None"
proof -
  assume n: "no_idle toy_conns toy_view s cl"
  have "ts_conns s ! k \<noteq> (Some cl, True, False)" if k: "k < length (ts_conns s)" for k
  proof
    assume c: "ts_conns s ! k = (Some cl, True, False)"
    have "Some (py_str (int k)) \<in> set (ids_of toy_conns s)" using k c by (simp add: toy_ids)
    moreover have "vw_owner toy_view s (py_str (int k)) = Some cl" using k c by (simp add: toy_view_def toy_owner_at)
    ultimately have "py_str (int k) \<in> vw_busy toy_view s" using n unfolding no_idle_def by blast
    then show False using c by (auto simp: toy_view_def)
  qed
  then show ?thesis by (auto simp: toy_idle_def find_None_iff)
qed

lemma toy_set_rows:
  "ca_list toy_conns (toy_set s k f) = map toy_row (filter (\<lambda>j. if j = k then fst (f (snd (ts_conns s ! j)))
     else fst (snd (ts_conns s ! j))) [0..<length (ts_conns s)])"
proof -
  have "fst (snd (ts_conns (toy_set s k f) ! j))
      = (if j = k then fst (f (snd (ts_conns s ! j))) else fst (snd (ts_conns s ! j)))"
    if "j < length (ts_conns s)" for j
    using that by (simp add: toy_set_def nth_list_update)
  moreover have "length (ts_conns (toy_set s k f)) = length (ts_conns s)" by (simp add: toy_set_def)
  ultimately show ?thesis unfolding toy_rows
    by (intro arg_cong[of _ _ "map toy_row"] filter_cong) auto
qed

lemma toy_set_clients: "ts_clients (toy_set s k f) = ts_clients s"
  by (simp add: toy_set_def)

lemmas toy_set_same = toy_same[OF toy_set_fst toy_set_clients]

lemma toy_release: "same_listing toy_conns toy_view s (toy_set s c (\<lambda>(up, _). (up, False)))"
proof -
  have "(\<lambda>j. if j = c then fst (case snd (ts_conns s ! j) of (up, _) \<Rightarrow> (up, False)) else fst (snd (ts_conns s ! j)))
      = (\<lambda>j. fst (snd (ts_conns s ! j)))"
    by (simp add: fun_eq_iff case_prod_unfold)
  then have "ca_list toy_conns (toy_set s c (\<lambda>(up, _). (up, False))) = ca_list toy_conns s"
    unfolding toy_set_rows by (simp add: toy_rows)
  then show ?thesis by (simp only: same_listing_def toy_set_same)
qed

lemma toy_disconnect:
  "ca_list toy_conns (toy_set s c (\<lambda>(_, in_use). (False, in_use)))
   = filter (\<lambda>row. map_of row ''id'' \<noteq> Some (py_str (int c))) (ca_list toy_conns s)"
proof -
  have "(\<lambda>j. if j = c then fst (case snd (ts_conns s ! j) of (_, in_use) \<Rightarrow> (False, in_use)) else fst (snd (ts_conns s ! j)))
      = (\<lambda>j. fst (snd (ts_conns s ! j)) \<and> j \<noteq> c)"
    by (simp add: fun_eq_iff case_prod_unfold)
  then show ?thesis unfolding toy_set_rows
    by (simp add: toy_rows filter_map comp_def toy_row_def conj_commute)
qed

lemma toy_close:
  "ca_list toy_conns (ca_close toy_conns s cl)
     = filter (\<lambda>row. toy_owner s (the (map_of row ''id'')) \<noteq> Some cl) (ca_list toy_conns s)"
  "vw_owner toy_view (ca_close toy_conns s cl) = vw_owner toy_view s"
  "vw_made toy_view (ca_close toy_conns s cl) = vw_made toy_view s"
proof -
  let ?s = "ca_close toy_conns s cl"
  have c: "ts_conns ?s = map (\<lambda>(c, up, in_use). (c, up \<and> c \<noteq> Some cl, in_use)) (ts_conns s)" "ts_clients ?s = ts_clients s"
    by (simp_all add: toy_conns_def)
  have "map fst (ts_conns ?s) = map fst (ts_conns s)" by (simp add: c case_prod_unfold comp_def)
  from toy_same[OF this c(2)] show "vw_owner toy_view ?s = vw_owner toy_view s" "vw_made toy_view ?s = vw_made toy_view s" .
  show "ca_list toy_conns ?s = filter (\<lambda>row. toy_owner s (the (map_of row ''id'')) \<noteq> Some cl) (ca_list toy_conns s)"
    unfolding toy_rows c filter_map filter_filter comp_def length_map
    by (intro arg_cong[of _ _ "map toy_row"] filter_cong) (auto simp: toy_row_def toy_owner_at case_prod_unfold)
qed

lemma toy_conn_laws: "conn_laws toy_conns toy_view"
proof -
  have ids: "None \<notin> set (ids_of toy_conns s) \<and> distinct (ids_of toy_conns s)" for s
    unfolding toy_ids by (auto simp: distinct_map intro!: inj_onI)
  have made: "cl \<in> vw_made toy_view s" if "vw_owner toy_view s i = Some cl" for s i cl
  proof -
    let ?k = "nat (projr (py_int i))"
    have k: "?k < length (ts_conns s)" "fst (ts_conns s ! ?k) = Some cl"
      using that by (auto simp: toy_view_def toy_owner_def Let_def split: if_splits)
    then have "ts_conns s ! ?k \<in> set (ts_conns s)" by simp
    with k(2) have "cl \<in> set (toy_owners s)" by (cases "ts_conns s ! ?k") (force simp: toy_owners_def)
    then show ?thesis by (simp add: toy_view_def)
  qed
  have make: "ca_from_url toy_conns s uri = toy_make s" "ca_redis toy_conns s host port db = toy_make s" for s uri host port db
    by (simp_all add: toy_conns_def)
  have ping: "\<exists>i. opens toy_conns toy_view s cl i False (ca_ping toy_conns s cl)"
    if "cl \<in> vw_made toy_view s" "no_idle toy_conns toy_view s cl" for s cl
    using toy_opens[OF that(1), of False] toy_no_idle[OF that(2)]
    by (intro exI[of _ "py_str (int (length (ts_conns s)))"]) (simp add: toy_conns_def)
  have get: "opens toy_conns toy_view s cl (vw_conn toy_view (fst (ca_get_connection toy_conns s cl))) True
      (snd (ca_get_connection toy_conns s cl))"
    if "cl \<in> vw_made toy_view s" "no_idle toy_conns toy_view s cl" for s cl
  proof -
    have "ca_get_connection toy_conns s cl = (length (ts_conns s), toy_open s cl True)"
      using toy_no_idle[OF that(2)] by (simp add: toy_conns_def)
    moreover have "vw_conn toy_view k = py_str (int k)" for k by (simp add: toy_view_def)
    ultimately show ?thesis using toy_opens[OF that(1), of True] by simp
  qed
  have p: "ca_ping_on toy_conns s c = s" "snd (ca_release toy_conns s cl c) = toy_set s c (\<lambda>(up, _). (up, False))"
    "ca_disconnect toy_conns s c = toy_set s c (\<lambda>(_, in_use). (False, in_use))"
    "vw_conn toy_view c = py_str (int c)" "vw_owner toy_view s = toy_owner s" for s cl c
    by (simp_all add: toy_conns_def toy_view_def)
  have refl: "same_listing toy_conns toy_view s s" for s by (simp add: same_listing_def)
  show ?thesis unfolding conn_laws_def p make
    using ids made[unfolded p] toy_creates ping get[unfolded p] refl toy_release toy_disconnect
      toy_set_same[unfolded p] toy_close[unfolded p]
    by (intro conjI allI impI) blast+
qed

theorem run_case_counts_witness:
  "\<exists>r srv'. run_case toy_conns \<lparr>ct_host = ''localhost'', ct_port = 6379, ct_db = 0, ct_uri = None\<rparr>
        ''shared-burst'' 6 [3, 0, 5, 1, 4, 2] \<lparr>ts_clients = [], ts_conns = [(None, True, False), (None, False, False)]\<rparr>
      = Inr (r, srv')
    \<and> cr_new_connection_count r = 6 \<and> ca_list toy_conns srv' = [toy_row 0]"
proof -
  let ?s = "\<lparr>ts_clients = [], ts_conns = [(None, True, False), (None, False, False)]\<rparr>"
  have "''shared-burst'' \<in> set ALL_CASES" "(0::int) < 6" "mset [3, 0, 5, 1, 4, 2] = mset [0..<nat 6]"
    by (simp add: ALL_CASES_def, simp, code_simp)
  from run_case_counts[OF toy_conn_laws this, of _ ?s] have
    "\<exists>r srv'. run_case toy_conns \<lparr>ct_host = ''localhost'', ct_port = 6379, ct_db = 0, ct_uri = None\<rparr>
        ''shared-burst'' 6 [3, 0, 5, 1, 4, 2] ?s = Inr (r, srv')
      \<and> cr_new_connection_count r = 6 \<and> ca_list toy_conns srv' = ca_list toy_conns ?s"
    by blast
  moreover have "ca_list toy_conns ?s = [toy_row 0]" by code_simp
  ultimately show ?thesis by simp
qed

text \<open>
  The verdict looks at the number of distinct threads only, not at the shares: one thread is PINNED,
  four or more (or one per connection) are SPREAD, anything between is PARTIALLY SPREAD. So
  connections that all sit on two threads are never called pinned, and 17 of 20 connections on one
  thread are called spread when the other three are on threads of their own.
\<close>

theorem pinning_verdict_exact:
  assumes "0 < cr_new_connection_count r" "cr_tid_counts r = counter tids" "tids \<noteq> []"
  shows "(starts_with ''PINNED'' (verdict_for r n) = (card (set tids) = 1))
    \<and> (starts_with ''PARTIALLY SPREAD'' (verdict_for r n) = (2 \<le> card (set tids) \<and> int (card (set tids)) < min n 4))
    \<and> (starts_with ''SPREAD'' (verdict_for r n) = (2 \<le> card (set tids) \<and> min n 4 \<le> int (card (set tids))))"
proof -
  have u: "unique_threads r = card (set tids)" by (simp add: unique_threads_def assms(2) length_counter)
  have pos: "0 < card (set tids)" using assms(3) by (simp add: card_gt_0_iff)
  have ne: "cr_tid_counts r \<noteq> []" using u pos by (auto simp: unique_threads_def)
  consider "card (set tids) = 1" | "2 \<le> card (set tids)" "int (card (set tids)) < min n 4"
    | "2 \<le> card (set tids)" "\<not> int (card (set tids)) < min n 4" using pos by linarith
  then show ?thesis using assms(1) ne pos unfolding verdict_for_def u by cases auto
qed

theorem pinning_verdict_exact_witness:
  "starts_with ''SPREAD'' (verdict_for \<lparr>cr_case = ''shared-burst'', cr_trial = 1, cr_new_connection_count = 20,
      cr_tid_counts = counter (replicate 17 ''0'' @ [''1'', ''2'', ''3''])\<rparr> 20)"
proof -
  let ?tids = "replicate 17 ''0'' @ [''1'', ''2'', ''3'']"
  let ?r = "\<lparr>cr_case = ''shared-burst'', cr_trial = 1, cr_new_connection_count = 20, cr_tid_counts = counter ?tids\<rparr>"
  have "0 < cr_new_connection_count ?r" "cr_tid_counts ?r = counter ?tids" "?tids \<noteq> []" by simp_all
  from pinning_verdict_exact[OF this, of 20] have "starts_with ''SPREAD'' (verdict_for ?r 20)
      = (2 \<le> card (set ?tids) \<and> min 20 4 \<le> int (card (set ?tids)))" by blast
  moreover have "card (set ?tids) = 4" by code_simp
  ultimately show ?thesis by simp
qed

end
