(* ===== verification/Keyspace_Histogram.thy ===== *)
theory Keyspace_Histogram
  imports Mem_Report
begin

text \<open>
  \<open>memoryBenchmarkScript/keyspace_size_histogram.py\<close>: the sizes of the scanned keys are counted in
  buckets and printed with bars. What the server answers for each key is an argument: an error, no
  size (the key is gone), or its size in bytes.
\<close>

definition BUCKETS :: "int list" where
  "BUCKETS = [1024, 10240, 102400, 1048576, 10485760, 104857600]"

datatype usage_reply =
    UsageError
  | KeyGone
  | KeySize int

text \<open>The key of the histogram's dict: a bucket's bound, or \<open>'Large'\<close>.\<close>

type_synonym slot_key = "int option"

definition place :: "int list \<Rightarrow> int \<Rightarrow> slot_key" where
  "place buckets n = find (\<lambda>b. n \<le> b) buckets"

text \<open>\<open>histogram[b] += 1\<close> of a \<open>defaultdict(int)\<close>.\<close>

definition bump :: "(slot_key \<Rightarrow> int) \<Rightarrow> slot_key \<Rightarrow> slot_key \<Rightarrow> int" where
  "bump h k = h(k := h k + 1)"

fun scan_keys :: "usage_reply list \<Rightarrow> (slot_key \<Rightarrow> int) \<Rightarrow> slot_key \<Rightarrow> int" where
  "scan_keys [] h = h"
| "scan_keys (UsageError # rs) h = scan_keys rs h"
| "scan_keys (KeyGone # rs) h = scan_keys rs h"
| "scan_keys (KeySize n # rs) h = scan_keys rs (bump h (place BUCKETS n))"

definition histogram :: "usage_reply list \<Rightarrow> slot_key \<Rightarrow> int" where
  "histogram rs = scan_keys rs (\<lambda>_. 0)"

text \<open>
  \<open>f"<= {b/1024:,.1f} KB"\<close>: the bounds divide exactly, so the number has a zero after the point. A cell
  of the bar is the block character, which is outside the modelled code points; the bar is its length.
\<close>

definition bucket_label :: "int \<Rightarrow> string" where
  "bucket_label b =
     (if b < 1048576 then ''<= '' @ thousands (b div 1024) @ ''.0 KB''
      else ''<= '' @ thousands (b div 1048576) @ ''.0 MB'')"

definition bar_length :: "int \<Rightarrow> nat" where
  "bar_length count = nat (min count 40)"

definition fill_right :: "nat \<Rightarrow> string \<Rightarrow> string" where
  "fill_right width s = s @ replicate (width - length s) (CHR '' '')"

definition histogram_rows :: "usage_reply list \<Rightarrow> (string \<times> nat) list" where
  "histogram_rows rs =
     map (\<lambda>b. (fill_right 12 (bucket_label b) @ '' : '' @ fill_right 6 (py_str (histogram rs (Some b))) @ '' '',
                bar_length (histogram rs (Some b)))) BUCKETS
     @ [(''> 100.0 MB   : '' @ fill_right 6 (py_str (histogram rs None)) @ '' '', bar_length (histogram rs None))]"


section \<open>Lemmas\<close>

fun sizes :: "usage_reply list \<Rightarrow> int list" where
  "sizes [] = []"
| "sizes (KeySize n # rs) = n # sizes rs"
| "sizes (r # rs) = sizes rs"

lemma bump_apply: "bump h j k = (if k = j then h k + 1 else h k)"
  by (simp add: bump_def)

lemma scan_keys_counts:
  "scan_keys rs h k = h k + int (length (filter (\<lambda>n. place BUCKETS n = k) (sizes rs)))"
proof (induction rs arbitrary: h)
  case Nil
  show ?case by simp
next
  case (Cons r rs)
  show ?case
  proof (cases r)
    case (KeySize n)
    have "scan_keys (r # rs) h k = scan_keys rs (bump h (place BUCKETS n)) k" by (simp add: KeySize)
    also have "\<dots> = bump h (place BUCKETS n) k + int (length (filter (\<lambda>n. place BUCKETS n = k) (sizes rs)))"
      by (rule Cons.IH)
    finally show ?thesis by (simp add: KeySize bump_def)
  qed (simp_all add: Cons.IH)
qed

lemma place_cases:
  "place BUCKETS n =
     (if n \<le> 1024 then Some 1024 else if n \<le> 10240 then Some 10240 else if n \<le> 102400 then Some 102400
      else if n \<le> 1048576 then Some 1048576 else if n \<le> 10485760 then Some 10485760
      else if n \<le> 104857600 then Some 104857600 else None)"
  by (simp add: place_def BUCKETS_def)

lemma labels: "map bucket_label BUCKETS =
    [''<= 1.0 KB'', ''<= 10.0 KB'', ''<= 100.0 KB'', ''<= 1.0 MB'', ''<= 10.0 MB'', ''<= 100.0 MB'']"
proof -
  have "thousands 1 = ''1''" "thousands 10 = ''10''" "thousands 100 = ''100''" by code_simp+
  then show ?thesis by (simp add: bucket_label_def BUCKETS_def)
qed

text \<open>
  The histogram partitions the keys that have a size: each is counted once, in the first bucket it
  fits or as large, and keys that are gone or cannot be read are counted nowhere; a bar never
  exceeds 40 cells.
\<close>

theorem histogram_partitions:
  "histogram rs (Some 1024) = int (length (filter (\<lambda>n. n \<le> 1024) (sizes rs)))
   \<and> histogram rs (Some 10485760) = int (length (filter (\<lambda>n. 1048576 < n \<and> n \<le> 10485760) (sizes rs)))
   \<and> histogram rs None = int (length (filter (\<lambda>n. 104857600 < n) (sizes rs)))
   \<and> sum_list (map (\<lambda>b. histogram rs (Some b)) BUCKETS) + histogram rs None = int (length (sizes rs))
   \<and> list_all (\<lambda>row. snd row \<le> 40) (histogram_rows rs)"
proof -
  have h: "histogram rs k = int (length (filter (\<lambda>n. place BUCKETS n = k) (sizes rs)))" for k
    by (simp add: histogram_def scan_keys_counts)
  have "sum_list (map (\<lambda>b. int (length (filter (\<lambda>n. place BUCKETS n = Some b) xs))) BUCKETS)
      + int (length (filter (\<lambda>n. place BUCKETS n = None) xs)) = int (length xs)" for xs
    by (induction xs) (auto simp: BUCKETS_def place_def)
  then have total: "sum_list (map (\<lambda>b. histogram rs (Some b)) BUCKETS) + histogram rs None = int (length (sizes rs))"
    unfolding h .
  have p: "(place BUCKETS n = Some 1024) = (n \<le> 1024)"
    "(place BUCKETS n = Some 10485760) = (1048576 < n \<and> n \<le> 10485760)"
    "(place BUCKETS n = None) = (104857600 < n)" for n
    unfolding place_cases by auto
  have "list_all (\<lambda>row. snd row \<le> 40) (histogram_rows rs)"
    by (auto simp: histogram_rows_def list_all_iff bar_length_def)
  with total show ?thesis unfolding h p by simp
qed

end
