(* ===== verification/Bench_Report.thy ===== *)
theory Bench_Report
  imports Bench_Main Mem_Report Slots_Golden
begin

text \<open>
  \<open>fqdnrules/benchmark.py\<close>, the printed reports line by line: the key layout, the write phase, the
  latencies and the throughput, and the sampled queries.
\<close>

section \<open>The key layout\<close>

definition tier_sizes :: "int list \<Rightarrow> depth_tier \<Rightarrow> int list" where
  "tier_sizes sizes tier = filter (\<lambda>s. min_size tier \<le> s \<and> s \<le> max_size tier) sizes"

definition pf_fixed1 :: "pyfloat \<Rightarrow> string" where
  "pf_fixed1 x = (case x of Fin r \<Rightarrow> fixed_point 1 r | PosInf \<Rightarrow> ''inf'' | NegInf \<Rightarrow> ''-inf'' | NaN \<Rightarrow> ''nan'')"

definition tier_line :: "int list \<Rightarrow> int \<times> depth_tier \<Rightarrow> string" where
  "tier_line sizes it =
     (case it of (idx, tier) \<Rightarrow>
        ''  tier '' @ py_str idx @ '' ['' @ py_str (min_size tier) @ ''-'' @ py_str (max_size tier)
        @ ''] (target '' @ pf_fixed1 (pf_mul (weight tier) (Fin 100)) @ ''%): ''
        @ thousands (int (length (tier_sizes sizes tier))) @ '' keys, ''
        @ thousands (sum_list (tier_sizes sizes tier)) @ '' rules'')"

definition print_layout_report :: "rule_layout \<Rightarrow> depth_tier list \<Rightarrow> int \<Rightarrow> string list result" where
  "print_layout_report layout tiers num_rules =
     (let sizes = key_sizes layout; n = int (length sizes) in
      if n = 0 then Inl ZeroDivisionError
      else Inr
        ([[], ''=== Key layout ==='',
          ''standard zones (keys) : '' @ thousands n,
          ''rules per key         : avg '' @ fixed_point 1 (fdiv (of_int num_rules) (of_int n))
            @ '', min '' @ py_str (Min (set sizes)) @ '', max '' @ py_str (Max (set sizes))]
         @ map (tier_line sizes) (zip [1..int (length tiers)] tiers)))"


section \<open>Rates and times\<close>

text \<open>\<open>n / elapsed if elapsed > 0 else float("inf")\<close>, printed with \<open>:,.0f\<close>.\<close>

definition rate_of :: "int \<Rightarrow> rat \<Rightarrow> rat option" where
  "rate_of n elapsed = (if elapsed > 0 then Some (fdiv (of_int n) elapsed) else None)"

definition show_rate :: "rat option \<Rightarrow> string" where
  "show_rate r = (case r of Some x \<Rightarrow> thousands (round_half_even x) | None \<Rightarrow> ''inf'')"

definition print_write_report :: "int \<Rightarrow> int \<Rightarrow> rat \<Rightarrow> string list" where
  "print_write_report num_rules num_bytes elapsed =
     [[], ''=== Write phase ==='',
      ''rules written : '' @ thousands num_rules,
      ''data written  : '' @ human_bytes num_bytes,
      ''elapsed       : '' @ fixed_point 2 elapsed @ ''s'',
      ''rate          : '' @ show_rate (rate_of num_rules elapsed) @ '' rules/sec'']"

definition latency_columns :: "string list \<Rightarrow> string" where
  "latency_columns cells = join '' '' (map (pad_left 8) cells)"

definition print_latency_report :: "latency_stats \<Rightarrow> int \<Rightarrow> rat \<Rightarrow> int \<Rightarrow> string list" where
  "print_latency_report stats num_queries elapsed concurrency =
     [[], ''=== Query latency (ms) ==='',
      latency_columns [''min'', ''avg'', ''p50'', ''p90'', ''p99'', ''p99.9'', ''max''],
      latency_columns (map (fixed_point 3)
        [ls_min stats, ls_avg stats, ls_p50 stats, ls_p90 stats, ls_p99 stats, ls_p99_9 stats, ls_max stats]),
      [], ''=== Query throughput ==='',
      ''queries       : '' @ thousands num_queries,
      ''concurrency   : '' @ py_str concurrency,
      ''elapsed       : '' @ fixed_point 2 elapsed @ ''s'',
      ''rate          : '' @ show_rate (rate_of num_queries elapsed) @ '' queries/sec'']"

definition sample_line :: "sample_result \<Rightarrow> string" where
  "sample_line s =
     pad_left 6 (py_str (int (sr_index s))) @ ''  '' @ pad_right 45 (sr_fqdn1 s) @ '' ''
     @ pad_left 5 (py_str (sr_port s)) @ '' '' @ pad_right 30 (sr_fqdn2 s) @ '' ''
     @ pad_right 20 (sr_result s) @ '' '' @ pad_left 10 (fixed_point 3 (sr_latency_ms s))"

definition print_sample_report :: "sample_result list \<Rightarrow> string list" where
  "print_sample_report samples =
     [[], ''=== Sample results (10 evenly-spaced queries) ==='',
      pad_left 6 ''idx'' @ ''  '' @ pad_right 45 ''fqdn1'' @ '' '' @ pad_left 5 ''port'' @ '' ''
      @ pad_right 30 ''fqdn2'' @ '' '' @ pad_right 20 ''result'' @ '' '' @ pad_left 10 ''latency_ms'']
     @ map sample_line samples"


section \<open>The tiers account for the keys\<close>

lemma count_partition:
  assumes "\<And>x. x \<in> set xs \<Longrightarrow> length (filter (\<lambda>p. p x) ps) = 1"
  shows "sum_list (map (\<lambda>p. length (filter p xs)) ps) = length xs"
    and "sum_list (map (\<lambda>p. sum_list (filter p xs)) ps) = (sum_list xs :: int)"
proof -
  have c: "sum_list (map (\<lambda>p. length (filter p (x # xs))) ps)
      = length (filter (\<lambda>p. p x) ps) + sum_list (map (\<lambda>p. length (filter p xs)) ps)" for x xs
    by (induction ps) auto
  have s: "sum_list (map (\<lambda>p. sum_list (filter p (x # xs))) ps)
      = int (length (filter (\<lambda>p. p x) ps)) * x + sum_list (map (\<lambda>p. sum_list (filter p xs)) ps)" for x xs
    by (induction ps) (auto simp: algebra_simps)
  show "sum_list (map (\<lambda>p. length (filter p xs)) ps) = length xs" using assms
  proof (induction xs)
    case Nil
    show ?case by (induction ps) auto
  next
    case (Cons x xs)
    then show ?case unfolding c by simp
  qed
  show "sum_list (map (\<lambda>p. sum_list (filter p xs)) ps) = sum_list xs" using assms
  proof (induction xs)
    case Nil
    show ?case by (induction ps) auto
  next
    case (Cons x xs)
    then show ?case unfolding s by simp
  qed
qed

text \<open>
  When every key size lies in exactly one tier, as with tiers that do not overlap, the lines of the
  layout report add up: the keys of the tiers to the number of keys and their rules to the rules.
\<close>

theorem layout_report_adds_up:
  assumes "list_all (\<lambda>s. length (filter (\<lambda>t. min_size t \<le> s \<and> s \<le> max_size t) tiers) = 1) sizes"
  shows "sum_list (map (\<lambda>t. length (tier_sizes sizes t)) tiers) = length sizes
    \<and> sum_list (map (\<lambda>t. sum_list (tier_sizes sizes t)) tiers) = sum_list sizes"
proof -
  let ?ps = "map (\<lambda>t s. min_size t \<le> s \<and> s \<le> max_size t) tiers"
  have "length (filter (\<lambda>p. p x) ?ps) = 1" if "x \<in> set sizes" for x
    using assms that by (simp add: list_all_iff filter_map comp_def)
  from count_partition[of sizes ?ps, OF this] show ?thesis by (simp add: tier_sizes_def comp_def)
qed

end
