(* ===== verification/Cli.thy ===== *)
theory Cli
  imports Float64 "HOL-Library.AList"
begin

text \<open>
  The part of Python's \<open>argparse\<close> the programs' parsers use: long options with a value, a flag, a choice,
  several values or an appended value, abbreviations, \<open>--option=value\<close> and negative numbers. A
  parser that has no positional arguments is a list of option specifications. Every error of usage ends
  the program, \<open>SystemExit ''usage''\<close>. A lone \<open>--\<close> is outside the model.
\<close>

section \<open>Options\<close>

datatype opt_kind =
    OStr
  | OInt
  | OFloat
  | OFlag
  | OChoice "string list"
  | OMany "string list"
  | OAppendInt

datatype opt_value =
    VNone
  | VStr string
  | VInt int
  | VFloat pyfloat
  | VBool bool
  | VStrs "string list"
  | VInts "int list"

record option_spec =
  os_name :: string
  os_kind :: opt_kind
  os_default :: opt_value

definition opt :: "string \<Rightarrow> opt_kind \<Rightarrow> opt_value \<Rightarrow> option_spec" where
  "opt name kind dflt = \<lparr>os_name = name, os_kind = kind, os_default = dflt\<rparr>"

definition option_strings :: "option_spec list \<Rightarrow> string list" where
  "option_strings specs = [''-h'', ''--help''] @ map os_name specs"

text \<open>The parsed options by name: a namespace.\<close>

type_synonym namespace = "(string \<times> opt_value) list"

definition default_namespace :: "option_spec list \<Rightarrow> namespace" where
  "default_namespace specs = map (\<lambda>s. (os_name s, os_default s)) specs"


section \<open>Classifying the arguments\<close>

datatype token =
    TOpt string "string option"
  | TArg string
  | TUnknown string

definition usage :: "'a result" where
  "usage = Inl (SystemExit ''usage'')"

text \<open>\<open>^-\d+$|^-\d*\.\d+$\<close>.\<close>

definition negative_number :: "string \<Rightarrow> bool" where
  "negative_number s \<longleftrightarrow>
     (case s of
        [] \<Rightarrow> False
      | c # body \<Rightarrow> c = CHR ''-'' \<and>
          (case split_on (CHR ''.'') body of
             [a] \<Rightarrow> a \<noteq> [] \<and> list_all is_digit a
           | [a, b] \<Rightarrow> list_all is_digit a \<and> b \<noteq> [] \<and> list_all is_digit b
           | _ \<Rightarrow> False))"

text \<open>The text before and after the first equals sign.\<close>

definition split_equals :: "string \<Rightarrow> string \<times> string option" where
  "split_equals s =
     (case find_from (CHR ''='') s 0 of
        None \<Rightarrow> (s, None)
      | Some i \<Rightarrow> (take i s, Some (drop (Suc i) s)))"

text \<open>A text that is no option: a negative number or a text with a blank is an argument.\<close>

definition other_token :: "string \<Rightarrow> token" where
  "other_token s = (if negative_number s \<or> CHR '' '' \<in> set s then TArg s else TUnknown s)"

definition classify :: "option_spec list \<Rightarrow> string \<Rightarrow> token result" where
  "classify specs s =
     (let names = option_strings specs; (body, explicit) = split_equals s
      in if s = [] \<or> hd s \<noteq> CHR ''-'' then Inr (TArg s)
         else if s \<in> set names then Inr (TOpt s None)
         else if s = ''-'' then Inr (TArg s)
         else if explicit \<noteq> None \<and> body \<in> set names then Inr (TOpt body explicit)
         else if starts_with ''--'' s then
           (case filter (starts_with body) names of
              [] \<Rightarrow> Inr (other_token s)
            | [name] \<Rightarrow> Inr (TOpt name explicit)
            | _ \<Rightarrow> usage)
         else if take 2 s = ''-h'' then Inr (TOpt ''-h'' (Some (drop 2 s)))
         else Inr (other_token s))"


section \<open>Consuming them\<close>

definition convert :: "opt_kind \<Rightarrow> opt_value \<Rightarrow> string \<Rightarrow> opt_value result" where
  "convert kind current s =
     (case kind of
           OStr \<Rightarrow> Inr (VStr s)
         | OInt \<Rightarrow> (case py_int s of Inl _ \<Rightarrow> usage | Inr n \<Rightarrow> Inr (VInt n))
         | OFloat \<Rightarrow> (case py_float s of Inl _ \<Rightarrow> usage | Inr x \<Rightarrow> Inr (VFloat x))
         | OChoice cs \<Rightarrow> (if s \<in> set cs then Inr (VStr s) else usage)
         | OAppendInt \<Rightarrow>
             (case py_int s of Inl _ \<Rightarrow> usage
              | Inr n \<Rightarrow> Inr (VInts ((case current of VInts ns \<Rightarrow> ns | _ \<Rightarrow> []) @ [n])))
         | OFlag \<Rightarrow> usage
         | OMany cs \<Rightarrow> usage)"

fun is_arg :: "token \<Rightarrow> bool" where
  "is_arg (TArg s) = True"
| "is_arg _ = False"

fun arg_text :: "token \<Rightarrow> string" where
  "arg_text (TArg s) = s"
| "arg_text (TOpt s e) = s"
| "arg_text (TUnknown s) = s"

definition find_spec :: "option_spec list \<Rightarrow> string \<Rightarrow> option_spec option" where
  "find_spec specs name = find (\<lambda>s. os_name s = name) specs"

definition current_value :: "namespace \<Rightarrow> string \<Rightarrow> opt_value" where
  "current_value ns name = (case map_of ns name of None \<Rightarrow> VNone | Some v \<Rightarrow> v)"

text \<open>
  One option with what it takes of the tokens that follow: the namespace after it and the rest. The
  help option ends the program.
\<close>

definition take_option ::
  "option_spec list \<Rightarrow> string \<Rightarrow> string option \<Rightarrow> token list \<Rightarrow> namespace \<Rightarrow> (token list \<times> namespace) result" where
  "take_option specs name explicit ts ns =
     (case find_spec specs name of
        None \<Rightarrow>
          (case explicit of
             None \<Rightarrow> Inl (SystemExit ''help'')
           | Some e \<Rightarrow>
               if name = ''-h'' \<and> e \<noteq> [] \<and> list_all (\<lambda>c. c = CHR ''h'') e then Inl (SystemExit ''help'') else usage)
      | Some spec \<Rightarrow>
          (case os_kind spec of
             OFlag \<Rightarrow> (if explicit = None then Inr (ts, AList.update name (VBool True) ns) else usage)
           | OMany cs \<Rightarrow>
               (let (vals, rest) = (case explicit of
                      Some e \<Rightarrow> ([e], ts)
                    | None \<Rightarrow> (map arg_text (takeWhile is_arg ts), dropWhile is_arg ts))
                in if vals = [] \<or> \<not> list_all (\<lambda>v. v \<in> set cs) vals then usage
                   else Inr (rest, AList.update name (VStrs vals) ns))
           | kind \<Rightarrow>
               (case (case explicit of
                        Some e \<Rightarrow> Some (e, ts)
                      | None \<Rightarrow> (case ts of TArg s # rest \<Rightarrow> Some (s, rest) | _ \<Rightarrow> None)) of
                  None \<Rightarrow> usage
                | Some (s, rest) \<Rightarrow>
                    bindR (convert kind (current_value ns name) s) (\<lambda>v. Inr (rest, AList.update name v ns)))))"

lemma take_option_length: "take_option specs name explicit ts ns = Inr (rest, ns') \<Longrightarrow> length rest \<le> length ts"
  by (auto simp: take_option_def usage_def result_simps length_dropWhile_le Let_def
      intro: le_SucI[OF length_dropWhile_le]
      split: option.splits opt_kind.splits if_splits list.splits token.splits prod.splits)

text \<open>Arguments that belong to no option are collected and are an error at the end.\<close>

function consume :: "option_spec list \<Rightarrow> token list \<Rightarrow> namespace \<Rightarrow> bool \<Rightarrow> namespace result" where
  "consume specs [] ns extras = (if extras then usage else Inr ns)"
| "consume specs (TArg s # ts) ns extras = consume specs ts ns True"
| "consume specs (TUnknown s # ts) ns extras = consume specs ts ns True"
| "consume specs (TOpt name explicit # ts) ns extras =
     (case take_option specs name explicit ts ns of
        Inl e \<Rightarrow> Inl e
      | Inr (rest, ns') \<Rightarrow> consume specs rest ns' extras)"
  by pat_completeness auto
termination
  by (relation "measure (\<lambda>(specs, ts, ns, extras). length ts)") (auto dest: take_option_length)

definition parse_args :: "option_spec list \<Rightarrow> string list \<Rightarrow> namespace result" where
  "parse_args specs argv =
     bindR (mapR (classify specs) argv) (\<lambda>ts. consume specs ts (default_namespace specs) False)"


section \<open>Reading a namespace\<close>

text \<open>Reading an attribute; one of another kind would be a bug of the program, here a TypeError.\<close>

definition attr :: "(opt_value \<Rightarrow> 'a option) \<Rightarrow> namespace \<Rightarrow> string \<Rightarrow> 'a result" where
  "attr proj ns name =
     (case Option.bind (map_of ns name) proj of None \<Rightarrow> Inl (TypeError name) | Some x \<Rightarrow> Inr x)"

fun as_int :: "opt_value \<Rightarrow> int option" where
  "as_int (VInt n) = Some n"
| "as_int _ = None"

fun as_str :: "opt_value \<Rightarrow> string option" where
  "as_str (VStr s) = Some s"
| "as_str _ = None"

fun as_float :: "opt_value \<Rightarrow> pyfloat option" where
  "as_float (VFloat x) = Some x"
| "as_float _ = None"

fun as_bool :: "opt_value \<Rightarrow> bool option" where
  "as_bool (VBool b) = Some b"
| "as_bool _ = None"

text \<open>Options whose default is \<open>None\<close>.\<close>

definition maybe :: "(opt_value \<Rightarrow> 'a option) \<Rightarrow> opt_value \<Rightarrow> 'a option option" where
  "maybe proj v = (if v = VNone then Some None else map_option Some (proj v))"

fun as_strs :: "opt_value \<Rightarrow> string list option" where
  "as_strs (VStrs ss) = Some ss"
| "as_strs _ = None"

fun as_ints :: "opt_value \<Rightarrow> int list option" where
  "as_ints (VInts ns) = Some ns"
| "as_ints _ = None"


section \<open>The type of a namespace\<close>

fun value_has_kind :: "opt_kind \<Rightarrow> opt_value \<Rightarrow> bool" where
  "value_has_kind OStr (VStr s) = True"
| "value_has_kind OInt (VInt n) = True"
| "value_has_kind OFloat (VFloat x) = True"
| "value_has_kind OFlag (VBool b) = True"
| "value_has_kind (OChoice cs) (VStr s) = (s \<in> set cs)"
| "value_has_kind (OMany cs) (VStrs vs) = (vs \<noteq> [] \<and> list_all (\<lambda>v. v \<in> set cs) vs)"
| "value_has_kind OAppendInt (VInts ns) = (ns \<noteq> [])"
| "value_has_kind _ _ = False"

definition value_ok :: "option_spec \<Rightarrow> opt_value \<Rightarrow> bool" where
  "value_ok spec v \<longleftrightarrow> v = os_default spec \<or> value_has_kind (os_kind spec) v"

definition namespace_ok :: "option_spec list \<Rightarrow> namespace \<Rightarrow> bool" where
  "namespace_ok specs ns \<longleftrightarrow>
     list_all2 (\<lambda>spec kv. fst kv = os_name spec \<and> value_ok spec (snd kv)) specs ns"

lemma default_namespace_ok: "namespace_ok specs (default_namespace specs)"
  by (simp add: namespace_ok_def default_namespace_def list_all2_conv_all_nth value_ok_def)

lemma namespace_ok_update:
  assumes "namespace_ok specs ns" "distinct (map os_name specs)" "spec \<in> set specs" "value_ok spec v"
  shows "namespace_ok specs (AList.update (os_name spec) v ns)"
  using assms unfolding namespace_ok_def
proof (induction rule: list_all2_induct)
  case Nil
  then show ?case by simp
next
  case (Cons s specs kv ns)
  show ?case
  proof (cases "os_name s = os_name spec")
    case True
    then have "s = spec" using Cons.prems(1,2) by (auto simp: image_iff)
    with Cons True show ?thesis by (cases kv) auto
  next
    case False
    with Cons show ?thesis by (cases kv) auto
  qed
qed

lemma find_spec_Some: "find_spec specs name = Some spec \<Longrightarrow> spec \<in> set specs \<and> os_name spec = name"
  by (auto simp: find_spec_def find_Some_iff)

lemma convert_kind: "convert kind current s = Inr v \<Longrightarrow> value_has_kind kind v"
  by (auto simp: convert_def usage_def split: opt_kind.splits sum.splits if_splits)

lemma take_option_ok:
  assumes "take_option specs name explicit ts ns = Inr (rest, ns')"
    and "namespace_ok specs ns" "distinct (map os_name specs)"
  shows "namespace_ok specs ns'"
proof -
  obtain spec where sp: "find_spec specs name = Some spec"
    using assms(1) by (cases "find_spec specs name") (auto simp: take_option_def usage_def split: if_splits option.splits)
  note up = namespace_ok_update[OF assms(2,3) conjunct1[OF find_spec_Some[OF sp]], unfolded value_ok_def]
  have n: "os_name spec = name" using find_spec_Some[OF sp] by simp
  obtain v where "ns' = AList.update name v ns" "value_has_kind (os_kind spec) v"
    using assms(1) sp convert_kind
    by (auto simp: take_option_def usage_def result_simps Let_def
        split: option.splits opt_kind.splits if_splits list.splits token.splits prod.splits)
  with up[of v] n show ?thesis by simp
qed

lemma consume_ok:
  "consume specs ts ns extras = Inr ns' \<Longrightarrow> distinct (map os_name specs) \<Longrightarrow> namespace_ok specs ns
    \<Longrightarrow> namespace_ok specs ns'"
proof (induction specs ts ns extras rule: consume.induct)
  case (4 specs name explicit ts ns extras)
  from "4.prems"(1) obtain rest ns1 where t: "take_option specs name explicit ts ns = Inr (rest, ns1)"
    by (cases "take_option specs name explicit ts ns") auto
  have "namespace_ok specs ns1" by (rule take_option_ok[OF t "4.prems"(3,2)])
  with "4.IH"[OF t refl] "4.prems"(1,2) t show ?case by simp
qed (auto simp: usage_def split: if_splits)

lemma parse_args_ok:
  "parse_args specs argv = Inr ns \<Longrightarrow> distinct (map os_name specs) \<Longrightarrow> namespace_ok specs ns"
  using consume_ok default_namespace_ok by (auto simp: parse_args_def result_simps)

lemma namespace_value:
  assumes "namespace_ok specs ns" "find_spec specs name = Some spec"
  shows "\<exists>v. map_of ns name = Some v \<and> value_ok spec v"
  using assms unfolding namespace_ok_def
proof (induction rule: list_all2_induct)
  case Nil
  then show ?case by (simp add: find_spec_def)
next
  case (Cons s specs kv ns)
  then show ?case by (cases kv) (auto simp: find_spec_def split: if_splits)
qed


section \<open>Command lines that are read back\<close>

text \<open>
  A setting of an option on a command line: a flag, an option with its value as the next word, or in one word after
  an equals sign. The value is what the option's kind makes of the text; a value on its own must not look like an option.
\<close>

datatype setting = SetFlag string | SetNext string string | SetJoined string string

fun setting_words :: "setting \<Rightarrow> string list" where
  "setting_words (SetFlag name) = [name]"
| "setting_words (SetNext name t) = [name, t]"
| "setting_words (SetJoined name t) = [name @ ''='' @ t]"

fun setting_name :: "setting \<Rightarrow> string" where
  "setting_name (SetFlag name) = name"
| "setting_name (SetNext name t) = name"
| "setting_name (SetJoined name t) = name"

definition kind_of :: "option_spec list \<Rightarrow> string \<Rightarrow> opt_kind option" where
  "kind_of specs name = map_option os_kind (find_spec specs name)"

fun text_value :: "opt_kind \<Rightarrow> string \<Rightarrow> opt_value option" where
  "text_value OStr t = Some (VStr t)"
| "text_value OInt t = (case py_int t of Inl _ \<Rightarrow> None | Inr n \<Rightarrow> Some (VInt n))"
| "text_value OFloat t = (case py_float t of Inl _ \<Rightarrow> None | Inr x \<Rightarrow> Some (VFloat x))"
| "text_value (OChoice cs) t = (if t \<in> set cs then Some (VStr t) else None)"
| "text_value _ t = None"

definition stands_alone :: "string \<Rightarrow> bool" where
  "stands_alone t \<longleftrightarrow> t = [] \<or> hd t \<noteq> CHR ''-'' \<or> negative_number t"

fun setting_value :: "option_spec list \<Rightarrow> setting \<Rightarrow> opt_value option" where
  "setting_value specs (SetFlag name) = (if kind_of specs name = Some OFlag then Some (VBool True) else None)"
| "setting_value specs (SetNext name t) = (if stands_alone t then Option.bind (kind_of specs name) (\<lambda>k. text_value k t) else None)"
| "setting_value specs (SetJoined name t) = Option.bind (kind_of specs name) (\<lambda>k. text_value k t)"

text \<open>Options whose names start with two dashes, and that have no equals sign in them.\<close>

definition names_ok :: "option_spec list \<Rightarrow> bool" where
  "names_ok specs \<longleftrightarrow>
     list_all (\<lambda>s. starts_with ''--'' (os_name s) \<and> CHR ''='' \<notin> set (os_name s)) specs \<and> distinct (map os_name specs)"

lemma find_from_absent: "c \<notin> set p \<Longrightarrow> find_from c p 0 = None"
  by (induction p) auto

lemma find_from_first: "c \<notin> set p \<Longrightarrow> find_from c (p @ c # t) 0 = Some (length p)"
  by (induction p) auto

lemma named_option:
  assumes "names_ok specs" "kind_of specs name = Some k"
  shows "\<exists>spec. find_spec specs name = Some spec \<and> os_kind spec = k" "name \<in> set (option_strings specs)"
    "\<exists>t. name = CHR ''-'' # CHR ''-'' # t" "CHR ''='' \<notin> set name"
proof -
  obtain spec where sp: "find_spec specs name = Some spec" "os_kind spec = k"
    using assms(2) by (auto simp: kind_of_def)
  then show "\<exists>spec. find_spec specs name = Some spec \<and> os_kind spec = k" by blast
  have "spec \<in> set specs" "os_name spec = name" using find_spec_Some[OF sp(1)] by simp_all
  then show "name \<in> set (option_strings specs)" "\<exists>t. name = CHR ''-'' # CHR ''-'' # t" "CHR ''='' \<notin> set name"
    using assms(1) by (auto simp: option_strings_def names_ok_def list_all_iff starts_with_iff)
qed

lemma classify_name:
  assumes "names_ok specs" "kind_of specs name = Some k"
  shows "classify specs name = Inr (TOpt name None)"
  using named_option(2,3)[OF assms] by (auto simp: classify_def Let_def case_prod_unfold)

lemma classify_joined:
  assumes "names_ok specs" "kind_of specs name = Some k"
  shows "classify specs (name @ ''='' @ t) = Inr (TOpt name (Some t))"
proof -
  note n = named_option[OF assms]
  have e: "split_equals (name @ ''='' @ t) = (name, Some t)"
    using find_from_first[OF n(4), of t] by (simp add: split_equals_def)
  have "CHR ''='' \<notin> set x" if "x \<in> set (option_strings specs)" for x
    using that assms(1) by (auto simp: option_strings_def names_ok_def list_all_iff)
  then have "name @ ''='' @ t \<notin> set (option_strings specs)" by fastforce
  then show ?thesis using n(2,3) unfolding classify_def Let_def e by auto
qed

lemma negative_number_chars:
  assumes "negative_number t"
  obtains body where "t = CHR ''-'' # body" "body \<noteq> []" "\<forall>c\<in>set body. is_digit c \<or> c = CHR ''.''"
proof -
  obtain body where t: "t = CHR ''-'' # body" using assms by (cases t) (auto simp: negative_number_def)
  have j: "join ''.'' (split_on (CHR ''.'') body) = body" by simp
  obtain a b where "split_on (CHR ''.'') body = [a] \<and> a \<noteq> [] \<and> list_all is_digit a
      \<or> split_on (CHR ''.'') body = [a, b] \<and> list_all is_digit a \<and> list_all is_digit b"
    using assms unfolding t negative_number_def by (auto split: list.splits)
  then have "body \<noteq> [] \<and> (\<forall>c\<in>set body. is_digit c \<or> c = CHR ''.'')"
    using j by (auto simp: list_all_iff simp del: join_split_on)
  with t that show ?thesis by blast
qed

lemma classify_alone:
  assumes "names_ok specs" "stands_alone t"
  shows "classify specs t = Inr (TArg t)"
proof (cases "t = [] \<or> hd t \<noteq> CHR ''-''")
  case True
  then show ?thesis by (auto simp: classify_def Let_def case_prod_unfold)
next
  case False
  then have neg: "negative_number t" using assms(2) by (simp add: stands_alone_def)
  then obtain c b where t: "t = CHR ''-'' # c # b" and c: "is_digit c \<or> c = CHR ''.''"
    and b: "\<forall>x\<in>set b. is_digit x \<or> x = CHR ''.''"
    by (rule negative_number_chars) (metis list.exhaust list.set_intros(1,2))
  have cn: "c \<noteq> CHR ''-''" "c \<noteq> CHR ''h''" using c by (auto simp: is_digit_def)
  have n1: "t \<notin> set (option_strings specs)"
    using assms(1) cn by (auto simp: t option_strings_def names_ok_def list_all_iff starts_with_iff)
  have "CHR ''='' \<notin> set t" using b c by (auto simp: t is_digit_def)
  then have eq: "split_equals t = (t, None)" by (simp add: split_equals_def find_from_absent)
  show ?thesis
    unfolding classify_def Let_def eq prod.case using n1 cn neg by (simp add: t other_token_def)
qed

lemma hd_py_str: "hd (py_str n) = CHR ''-'' \<longleftrightarrow> n < 0"
proof (cases "n < 0")
  case False
  have "is_digit (hd (dec (nat n)))" using dec_digits[of "hd (dec (nat n))" "nat n"] by simp
  then have "hd (dec (nat n)) \<noteq> CHR ''-''" by (auto simp: is_digit_def)
  with False show ?thesis by (simp add: py_str_def)
qed (simp add: py_str_def)

lemma dec_no: "\<not> is_digit c \<Longrightarrow> c \<notin> set (dec m)"
  using dec_digits by blast

lemma integer_alone: "stands_alone (py_str n)"
proof (cases "n < 0")
  case True
  have "split_on (CHR ''.'') (dec (nat (- n))) = [dec (nat (- n))]"
    using dec_no[of "CHR ''.''"] by (intro split_on_no_sep) (simp add: is_digit_def)
  then have "negative_number (py_str n)"
    using True dec_digits by (auto simp: negative_number_def py_str_def list_all_iff)
  then show ?thesis by (simp add: stands_alone_def)
qed (simp add: stands_alone_def hd_py_str)


text \<open>What the parser does with the words of a list of settings.\<close>

fun setting_tokens :: "setting \<Rightarrow> token list" where
  "setting_tokens (SetFlag name) = [TOpt name None]"
| "setting_tokens (SetNext name t) = [TOpt name None, TArg t]"
| "setting_tokens (SetJoined name t) = [TOpt name (Some t)]"

definition settings_ok :: "option_spec list \<Rightarrow> setting list \<Rightarrow> bool" where
  "settings_ok specs ss \<longleftrightarrow> list_all (\<lambda>s. setting_value specs s \<noteq> None) ss"

definition apply_settings :: "option_spec list \<Rightarrow> setting list \<Rightarrow> namespace \<Rightarrow> namespace" where
  "apply_settings specs ss ns = foldl (\<lambda>ns s. AList.update (setting_name s) (the (setting_value specs s)) ns) ns ss"

lemma classify_setting:
  assumes "names_ok specs" "setting_value specs s = Some v"
  shows "mapR (classify specs) (setting_words s) = Inr (setting_tokens s)"
proof (cases s)
  case (SetFlag name)
  then show ?thesis using assms(2) classify_name[OF assms(1)] by (simp split: if_splits)
next
  case (SetNext name t)
  then obtain k where "stands_alone t" "kind_of specs name = Some k"
    using assms(2) by (auto simp: bind_eq_Some_conv split: if_splits)
  then show ?thesis using SetNext classify_name[OF assms(1)] classify_alone[OF assms(1)] by simp
next
  case (SetJoined name t)
  then obtain k where "kind_of specs name = Some k" using assms(2) by (auto simp: bind_eq_Some_conv)
  then show ?thesis using SetJoined classify_joined[OF assms(1)] by simp
qed

lemma text_value_convert: "text_value k t = Some v \<Longrightarrow> convert k cur t = Inr v \<and> k \<noteq> OFlag \<and> (\<forall>cs. k \<noteq> OMany cs)"
  by (cases k) (auto simp: convert_def split: sum.splits if_splits)

lemma take_value:
  assumes "names_ok specs" "kind_of specs name = Some k" "text_value k t = Some v"
  shows "take_option specs name (Some t) ts ns = Inr (ts, AList.update name v ns)"
    "take_option specs name None (TArg t # ts) ns = Inr (ts, AList.update name v ns)"
proof -
  obtain spec where sp: "find_spec specs name = Some spec" "os_kind spec = k" using named_option(1)[OF assms(1,2)] by blast
  note c = text_value_convert[OF assms(3)]
  show "take_option specs name (Some t) ts ns = Inr (ts, AList.update name v ns)"
    using c sp by (cases k) (simp_all add: take_option_def)
  show "take_option specs name None (TArg t # ts) ns = Inr (ts, AList.update name v ns)"
    using c sp by (cases k) (simp_all add: take_option_def)
qed

lemma consume_setting:
  assumes "names_ok specs" "setting_value specs s = Some v"
  shows "consume specs (setting_tokens s @ ts) ns extras = consume specs ts (AList.update (setting_name s) v ns) extras"
proof (cases s)
  case (SetFlag name)
  then have k: "kind_of specs name = Some OFlag" and v: "v = VBool True" using assms(2) by (simp_all split: if_splits)
  obtain spec where "find_spec specs name = Some spec" "os_kind spec = OFlag" using named_option(1)[OF assms(1) k] by blast
  then show ?thesis using SetFlag v by (simp add: take_option_def)
next
  case (SetNext name t)
  then obtain k where "kind_of specs name = Some k" "text_value k t = Some v"
    using assms(2) by (auto simp: bind_eq_Some_conv split: if_splits)
  then show ?thesis using SetNext take_value(2)[OF assms(1)] by simp
next
  case (SetJoined name t)
  then obtain k where "kind_of specs name = Some k" "text_value k t = Some v"
    using assms(2) by (auto simp: bind_eq_Some_conv)
  then show ?thesis using SetJoined take_value(1)[OF assms(1)] by simp
qed

lemma mapR_append: "mapR f (xs @ ys) = bindR (mapR f xs) (\<lambda>us. bindR (mapR f ys) (\<lambda>vs. Inr (us @ vs)))"
proof (induction xs)
  case Nil
  show ?case by (cases "mapR f ys") simp_all
next
  case (Cons x xs)
  then show ?case by (cases "f x"; cases "mapR f xs"; cases "mapR f ys") simp_all
qed

lemma parse_settings:
  assumes "names_ok specs" "settings_ok specs ss"
  shows "parse_args specs (concat (map setting_words ss)) = Inr (apply_settings specs ss (default_namespace specs))"
proof -
  have m: "mapR (classify specs) (concat (map setting_words ss)) = Inr (concat (map setting_tokens ss))"
    using assms(2)
  proof (induction ss)
    case (Cons s ss)
    then obtain v where "setting_value specs s = Some v" by (auto simp: settings_ok_def)
    then show ?case using Cons classify_setting[OF assms(1)] by (simp add: mapR_append settings_ok_def)
  qed simp
  have "consume specs (concat (map setting_tokens ss)) ns False = Inr (apply_settings specs ss ns)" for ns
    using assms(2)
  proof (induction ss arbitrary: ns)
    case (Cons s ss)
    then obtain v where "setting_value specs s = Some v" by (auto simp: settings_ok_def)
    then show ?case using Cons consume_setting[OF assms(1)] by (simp add: apply_settings_def settings_ok_def)
  qed (simp add: apply_settings_def)
  then show ?thesis by (simp add: parse_args_def m)
qed

text \<open>The value of an option after the settings: that of its last setting, or its default.\<close>

definition set_value :: "option_spec list \<Rightarrow> setting list \<Rightarrow> string \<Rightarrow> opt_value" where
  "set_value specs ss name =
     (case find (\<lambda>s. setting_name s = name) (rev ss) of
        Some s \<Rightarrow> the (setting_value specs s)
      | None \<Rightarrow> (case find_spec specs name of Some spec \<Rightarrow> os_default spec | None \<Rightarrow> VNone))"

lemma default_value: "map_of (default_namespace specs) name = map_option os_default (find_spec specs name)"
  unfolding default_namespace_def find_spec_def by (induction specs) auto

lemma settings_value:
  assumes "find_spec specs name \<noteq> None"
  shows "map_of (apply_settings specs ss (default_namespace specs)) name = Some (set_value specs ss name)"
proof (induction ss rule: rev_induct)
  case Nil
  show ?case using assms by (auto simp: apply_settings_def set_value_def default_value)
next
  case (snoc s ss)
  then show ?case by (simp add: apply_settings_def set_value_def update_conv')
qed

text \<open>An option with an integer is found and set.\<close>

definition int_option :: "option_spec list \<Rightarrow> string \<Rightarrow> bool" where
  "int_option specs name = (case find_spec specs name of Some spec \<Rightarrow> os_kind spec = OInt | None \<Rightarrow> False)"

lemma int_setting: "int_option specs name \<Longrightarrow> setting_value specs (SetNext name (py_str n)) = Some (VInt n)"
  by (auto simp: int_option_def kind_of_def integer_alone py_int_py_str split: option.splits)

lemma parse_ints:
  assumes "names_ok specs" "list_all (\<lambda>a. int_option specs (fst a)) as"
  shows "parse_args specs (concat (map (\<lambda>a. [fst a, py_str (snd a)]) as))
    = Inr (foldl (\<lambda>ns a. AList.update (fst a) (VInt (snd a)) ns) (default_namespace specs) as)"
proof -
  let ?ss = "map (\<lambda>a. SetNext (fst a) (py_str (snd a))) as"
  have "settings_ok specs ?ss" using assms(2) int_setting by (auto simp: settings_ok_def list_all_iff)
  note parse_settings[OF assms(1) this]
  moreover have "apply_settings specs ?ss ns = foldl (\<lambda>ns a. AList.update (fst a) (VInt (snd a)) ns) ns as" for ns
    using assms(2) by (induction as arbitrary: ns) (simp_all add: apply_settings_def int_setting del: setting_value.simps)
  ultimately show ?thesis by (simp add: comp_def)
qed

end
