(* ===== verification/Cli_Tables.thy ===== *)
theory Cli_Tables
  imports Cli Bench_Spec Mem_Config Diag_Hotspot
begin

text \<open>
  The options of the five programs as tables, and the argument records the programs work with, read
  from a parsed namespace.
\<close>

section \<open>benchmark.py\<close>

definition BENCH_OPTIONS :: "option_spec list" where
  "BENCH_OPTIONS =
     [opt ''--num-rules'' OInt (VInt 100000),
      opt ''--num-queries'' OInt (VInt 10000),
      opt ''--host'' OStr (VStr ''localhost''),
      opt ''--port'' OInt (VInt 6379),
      opt ''--db'' OInt (VInt 0),
      opt ''--uri'' OStr VNone,
      opt ''--mode'' (OChoice [''single'', ''multi'']) (VStr ''multi''),
      opt ''--miss-rate'' OFloat (VFloat (fl (1/10))),
      opt ''--write-batch-size'' OInt (VInt 5000),
      opt ''--query-concurrency'' OInt (VInt 1),
      opt ''--seed'' OInt (VInt 42),
      opt ''--no-flush'' OFlag (VBool False),
      opt ''--query-source'' (OChoice [''memory'', ''disk'', ''reuse'']) (VStr ''memory''),
      opt ''--query-file'' OStr (VStr ''benchmark_queries.tsv''),
      opt ''--query-file-batch-size'' OInt (VInt 10000),
      opt ''--query-pause-seconds'' OFloat (VFloat (Fin 5)),
      opt ''--rule-depth-tiers'' OStr (VStr DEFAULT_DEPTH_TIERS),
      opt ''--num-buckets'' OInt (VInt 16)]"

definition bench_args_of :: "namespace \<Rightarrow> bench_args result" where
  "bench_args_of ns =
     bindR (attr as_int ns ''--num-rules'') (\<lambda>num_rules.
     bindR (attr as_int ns ''--num-queries'') (\<lambda>num_queries.
     bindR (attr as_float ns ''--miss-rate'') (\<lambda>miss_rate.
     bindR (attr as_int ns ''--query-concurrency'') (\<lambda>query_concurrency.
     bindR (attr as_int ns ''--query-file-batch-size'') (\<lambda>query_file_batch_size.
     bindR (attr as_float ns ''--query-pause-seconds'') (\<lambda>query_pause_seconds.
     bindR (attr as_str ns ''--query-source'') (\<lambda>query_source.
     bindR (attr as_int ns ''--num-buckets'') (\<lambda>num_buckets.
     bindR (attr as_str ns ''--rule-depth-tiers'') (\<lambda>rule_depth_tiers.
     bindR (attr as_int ns ''--write-batch-size'') (\<lambda>write_batch_size.
     bindR (attr as_bool ns ''--no-flush'') (\<lambda>no_flush.
     bindR (attr as_str ns ''--mode'') (\<lambda>mode.
     bindR (attr as_int ns ''--seed'') (\<lambda>seed.
       Inr \<lparr>a_num_rules = num_rules, a_num_queries = num_queries, a_miss_rate = miss_rate,
            a_query_concurrency = query_concurrency, a_query_file_batch_size = query_file_batch_size,
            a_query_pause_seconds = query_pause_seconds, a_query_source = query_source,
            a_num_buckets = num_buckets, a_rule_depth_tiers = rule_depth_tiers,
            a_write_batch_size = write_batch_size, a_no_flush = no_flush, a_mode = mode, a_seed = seed\<rparr>)))))))))))))"


section \<open>memory_benchmark.py\<close>

definition MEM_OPTIONS :: "option_spec list" where
  "MEM_OPTIONS =
     [opt ''--dragonfly-host'' OStr (VStr ''localhost''),
      opt ''--dragonfly-port'' OInt (VInt 6379),
      opt ''--dragonfly-password'' OStr VNone,
      opt ''--dragonfly-tls'' OFlag (VBool False),
      opt ''--dragonfly-tls-ca-cert'' OStr VNone,
      opt ''--dragonfly-tls-cert'' OStr VNone,
      opt ''--dragonfly-tls-key'' OStr VNone,
      opt ''--redis-host'' OStr (VStr ''localhost''),
      opt ''--redis-port'' OInt (VInt 6380),
      opt ''--redis-password'' OStr VNone,
      opt ''--redis-tls'' OFlag (VBool False),
      opt ''--redis-tls-ca-cert'' OStr VNone,
      opt ''--redis-tls-cert'' OStr VNone,
      opt ''--redis-tls-key'' OStr VNone,
      opt ''--redis-label'' OStr (VStr ''Redis/Valkey''),
      opt ''--dragonfly-only'' OFlag (VBool False),
      opt ''--redis-only'' OFlag (VBool False),
      opt ''--types'' (OMany (map fst DEFAULT_CONFIGS)) VNone,
      opt ''--enable-json'' OFlag (VBool False),
      opt ''--json-depth'' (OChoice [''flat'', ''medium'', ''deep'', ''all'']) (VStr ''flat''),
      opt ''--scale'' OFloat (VFloat (Fin 1)),
      opt ''--string-keys'' OInt VNone,
      opt ''--hash-keys'' OInt VNone,
      opt ''--list-keys'' OInt VNone,
      opt ''--set-keys'' OInt VNone,
      opt ''--zset-keys'' OInt VNone,
      opt ''--stream-keys'' OInt VNone,
      opt ''--hll-keys'' OInt VNone,
      opt ''--json-keys'' OInt VNone,
      opt ''--value-size'' OInt VNone,
      opt ''--hash-fields'' OInt VNone,
      opt ''--list-elements'' OInt VNone,
      opt ''--set-members'' OInt VNone,
      opt ''--zset-members'' OInt VNone,
      opt ''--container-children-count'' OInt VNone,
      opt ''--repeat'' OAppendInt VNone,
      opt ''--pipeline-batch'' OInt VNone,
      opt ''--ttl'' OInt (VInt 3600)]"

definition mem_int_names :: "string list" where
  "mem_int_names =
     [''--string-keys'', ''--hash-keys'', ''--list-keys'', ''--set-keys'', ''--zset-keys'', ''--stream-keys'',
      ''--hll-keys'', ''--json-keys'', ''--value-size'', ''--hash-fields'', ''--list-elements'', ''--set-members'',
      ''--zset-members'', ''--pipeline-batch'']"

definition mem_args_of :: "namespace \<Rightarrow> mem_args result" where
  "mem_args_of ns =
     bindR (attr as_float ns ''--scale'') (\<lambda>scale.
     bindR (attr (maybe as_int) ns ''--container-children-count'') (\<lambda>children.
     bindR (attr as_bool ns ''--enable-json'') (\<lambda>enable_json.
     bindR (attr as_str ns ''--json-depth'') (\<lambda>json_depth.
     bindR (mapR (\<lambda>name. attr (maybe as_int) ns name) mem_int_names) (\<lambda>nums.
     bindR (attr (maybe as_strs) ns ''--types'') (\<lambda>types.
     bindR (attr (maybe as_ints) ns ''--repeat'') (\<lambda>repeats.
     bindR (attr as_int ns ''--ttl'') (\<lambda>ttl.
     bindR (attr as_bool ns ''--dragonfly-only'') (\<lambda>dragonfly_only.
     bindR (attr as_bool ns ''--redis-only'') (\<lambda>redis_only.
     bindR (attr as_str ns ''--redis-label'') (\<lambda>redis_label.
       Inr \<lparr>ma_scale = scale, ma_container_children_count = children, ma_enable_json = enable_json,
            ma_json_depth = json_depth, ma_string_keys = nums ! 0, ma_hash_keys = nums ! 1,
            ma_list_keys = nums ! 2, ma_set_keys = nums ! 3, ma_zset_keys = nums ! 4, ma_stream_keys = nums ! 5,
            ma_hll_keys = nums ! 6, ma_json_keys = nums ! 7, ma_value_size = nums ! 8, ma_hash_fields = nums ! 9,
            ma_list_elements = nums ! 10, ma_set_members = nums ! 11, ma_zset_members = nums ! 12,
            ma_pipeline_batch = nums ! 13, ma_types = types, ma_repeat = repeats, ma_ttl = ttl,
            ma_dragonfly_only = dragonfly_only, ma_redis_only = redis_only, ma_redis_label = redis_label\<rparr>)))))))))))"


section \<open>The diagnostics\<close>

definition HOT_TAG_OPTIONS :: "option_spec list" where
  "HOT_TAG_OPTIONS =
     [opt ''--host'' OStr (VStr ''localhost''),
      opt ''--port'' OInt (VInt 6379),
      opt ''--db'' OInt (VInt 0),
      opt ''--uri'' OStr VNone,
      opt ''--pid'' OInt VNone,
      opt ''--concurrency'' OInt (VInt 16),
      opt ''--duration-seconds'' OFloat (VFloat (Fin 5)),
      opt ''--num-distinct-tags'' OInt (VInt 2000),
      opt ''--namespace'' OStr (VStr ''hottagdiag''),
      opt ''--pipeline-size'' OInt (VInt 1),
      opt ''--phases'' OStr (VStr ''concentrated,distributed'')]"

definition HOTSPOT_OPTIONS :: "option_spec list" where
  "HOTSPOT_OPTIONS =
     [opt ''--host'' OStr (VStr ''localhost''),
      opt ''--port'' OInt (VInt 6379),
      opt ''--db'' OInt (VInt 0),
      opt ''--uri'' OStr VNone,
      opt ''--pid'' OInt VNone,
      opt ''--namespace'' OStr (VStr ''hotspotdiag''),
      opt ''--num-domains'' OInt (VInt 2000),
      opt ''--rule-port'' OInt (VInt 443),
      opt ''--mode'' (OChoice [''single'', ''multi'']) (VStr ''multi''),
      opt ''--concurrency'' OInt (VInt 16),
      opt ''--duration-seconds'' OFloat (VFloat (Fin 5)),
      opt ''--num-buckets'' OStr (VStr ''1'')]"

definition PINNING_OPTIONS :: "option_spec list" where
  "PINNING_OPTIONS =
     [opt ''--host'' OStr (VStr ''localhost''),
      opt ''--port'' OInt (VInt 6379),
      opt ''--db'' OInt (VInt 0),
      opt ''--uri'' OStr VNone,
      opt ''--num-connections'' OInt (VInt 20),
      opt ''--stagger-ms'' OFloat (VFloat (Fin 30)),
      opt ''--settle-seconds'' OFloat (VFloat (fl (3/10))),
      opt ''--cooldown-seconds'' OFloat (VFloat (Fin 1)),
      opt ''--trials'' OInt (VInt 1),
      opt ''--cases'' OStr (VStr ''independent-burst,independent-stagger,shared-burst,shared-stagger'')]"

section \<open>The tables are well formed\<close>

definition option_tables :: "option_spec list list" where
  "option_tables = [BENCH_OPTIONS, MEM_OPTIONS, HOT_TAG_OPTIONS, HOTSPOT_OPTIONS, PINNING_OPTIONS]"

lemma tables_ok: "list_all names_ok option_tables"
  by code_simp

lemma table_names: "specs \<in> set option_tables \<Longrightarrow> names_ok specs \<and> distinct (map os_name specs)"
  using tables_ok by (auto simp: list_all_iff names_ok_def)

text \<open>An option whose default has its kind, and one whose default is \<open>None\<close>.\<close>

definition typed_option :: "option_spec list \<Rightarrow> string \<Rightarrow> opt_kind \<Rightarrow> bool" where
  "typed_option specs name kind =
     (case find_spec specs name of
        Some s \<Rightarrow> os_kind s = kind \<and> value_has_kind kind (os_default s) | None \<Rightarrow> False)"

definition none_option :: "option_spec list \<Rightarrow> string \<Rightarrow> opt_kind \<Rightarrow> bool" where
  "none_option specs name kind =
     (case find_spec specs name of Some s \<Rightarrow> os_kind s = kind \<and> os_default s = VNone | None \<Rightarrow> False)"

lemma typed_value:
  assumes "namespace_ok specs ns" "typed_option specs name kind"
  shows "\<exists>v. map_of ns name = Some v \<and> value_has_kind kind v"
proof -
  obtain spec where sp: "find_spec specs name = Some spec" "os_kind spec = kind" "value_has_kind kind (os_default spec)"
    using assms(2) by (auto simp: typed_option_def split: option.splits)
  from namespace_value[OF assms(1) sp(1)] sp(2,3) show ?thesis by (auto simp: value_ok_def)
qed

lemma none_value:
  assumes "namespace_ok specs ns" "none_option specs name kind"
  shows "\<exists>v. map_of ns name = Some v \<and> (v = VNone \<or> value_has_kind kind v)"
proof -
  obtain spec where sp: "find_spec specs name = Some spec" "os_kind spec = kind" "os_default spec = VNone"
    using assms(2) by (auto simp: none_option_def split: option.splits)
  from namespace_value[OF assms(1) sp(1)] sp(2,3) show ?thesis by (auto simp: value_ok_def)
qed

lemma typed_attr:
  assumes "namespace_ok specs ns"
  shows "typed_option specs name OInt \<Longrightarrow> \<exists>n. attr as_int ns name = Inr n"
    and "typed_option specs name OStr \<Longrightarrow> \<exists>s. attr as_str ns name = Inr s"
    and "typed_option specs name OFloat \<Longrightarrow> \<exists>x. attr as_float ns name = Inr x"
    and "typed_option specs name OFlag \<Longrightarrow> \<exists>b. attr as_bool ns name = Inr b"
    and "typed_option specs name (OChoice cs) \<Longrightarrow> \<exists>s. attr as_str ns name = Inr s \<and> s \<in> set cs"
proof -
  note v = typed_value[OF assms, of name]
  show "typed_option specs name OInt \<Longrightarrow> \<exists>n. attr as_int ns name = Inr n"
    by (drule v, elim exE conjE, case_tac v) (simp_all add: attr_def)
  show "typed_option specs name OStr \<Longrightarrow> \<exists>s. attr as_str ns name = Inr s"
    by (drule v, elim exE conjE, case_tac v) (simp_all add: attr_def)
  show "typed_option specs name OFloat \<Longrightarrow> \<exists>x. attr as_float ns name = Inr x"
    by (drule v, elim exE conjE, case_tac v) (simp_all add: attr_def)
  show "typed_option specs name OFlag \<Longrightarrow> \<exists>b. attr as_bool ns name = Inr b"
    by (drule v, elim exE conjE, case_tac v) (simp_all add: attr_def)
  show "typed_option specs name (OChoice cs) \<Longrightarrow> \<exists>s. attr as_str ns name = Inr s \<and> s \<in> set cs"
    by (drule v, elim exE conjE, case_tac v) (simp_all add: attr_def)
qed

lemma none_attr:
  assumes "namespace_ok specs ns"
  shows "none_option specs name OInt \<Longrightarrow> \<exists>n. attr (maybe as_int) ns name = Inr n"
    and "none_option specs name (OMany cs) \<Longrightarrow> \<exists>ss. attr (maybe as_strs) ns name = Inr ss"
    and "none_option specs name OAppendInt \<Longrightarrow> \<exists>ks. attr (maybe as_ints) ns name = Inr ks"
proof -
  note v = none_value[OF assms, of name]
  show "none_option specs name OInt \<Longrightarrow> \<exists>n. attr (maybe as_int) ns name = Inr n"
    by (drule v, elim exE conjE, case_tac v) (auto simp: attr_def maybe_def)
  show "none_option specs name (OMany cs) \<Longrightarrow> \<exists>ss. attr (maybe as_strs) ns name = Inr ss"
    by (drule v, elim exE conjE, case_tac v) (auto simp: attr_def maybe_def)
  show "none_option specs name OAppendInt \<Longrightarrow> \<exists>ks. attr (maybe as_ints) ns name = Inr ks"
    by (drule v, elim exE conjE, case_tac v) (auto simp: attr_def maybe_def)
qed

lemma bench_kinds:
  "typed_option BENCH_OPTIONS ''--num-rules'' OInt"
  "typed_option BENCH_OPTIONS ''--num-queries'' OInt"
  "typed_option BENCH_OPTIONS ''--miss-rate'' OFloat"
  "typed_option BENCH_OPTIONS ''--query-concurrency'' OInt"
  "typed_option BENCH_OPTIONS ''--query-file-batch-size'' OInt"
  "typed_option BENCH_OPTIONS ''--query-pause-seconds'' OFloat"
  "typed_option BENCH_OPTIONS ''--query-source'' (OChoice [''memory'', ''disk'', ''reuse''])"
  "typed_option BENCH_OPTIONS ''--num-buckets'' OInt"
  "typed_option BENCH_OPTIONS ''--rule-depth-tiers'' OStr"
  "typed_option BENCH_OPTIONS ''--write-batch-size'' OInt"
  "typed_option BENCH_OPTIONS ''--no-flush'' OFlag"
  "typed_option BENCH_OPTIONS ''--mode'' (OChoice [''single'', ''multi''])"
  "typed_option BENCH_OPTIONS ''--seed'' OInt"
  by code_simp+

lemma bench_args_total:
  assumes "namespace_ok BENCH_OPTIONS ns"
  shows "\<exists>args. bench_args_of ns = Inr args \<and> a_mode args \<in> {''single'', ''multi''}
    \<and> a_query_source args \<in> {''memory'', ''disk'', ''reuse''}"
proof -
  note t = typed_attr[OF assms]
  obtain nr nq qc qb nb wb sd where ints:
    "attr as_int ns ''--num-rules'' = Inr nr" "attr as_int ns ''--num-queries'' = Inr nq"
    "attr as_int ns ''--query-concurrency'' = Inr qc" "attr as_int ns ''--query-file-batch-size'' = Inr qb"
    "attr as_int ns ''--num-buckets'' = Inr nb" "attr as_int ns ''--write-batch-size'' = Inr wb"
    "attr as_int ns ''--seed'' = Inr sd"
    using t(1)[OF bench_kinds(1)] t(1)[OF bench_kinds(2)] t(1)[OF bench_kinds(4)] t(1)[OF bench_kinds(5)]
      t(1)[OF bench_kinds(8)] t(1)[OF bench_kinds(10)] t(1)[OF bench_kinds(13)] by blast
  obtain mr qp dt nf where others:
    "attr as_float ns ''--miss-rate'' = Inr mr" "attr as_float ns ''--query-pause-seconds'' = Inr qp"
    "attr as_str ns ''--rule-depth-tiers'' = Inr dt" "attr as_bool ns ''--no-flush'' = Inr nf"
    using t(3)[OF bench_kinds(3)] t(3)[OF bench_kinds(6)] t(2)[OF bench_kinds(9)] t(4)[OF bench_kinds(11)] by blast
  obtain qs md where choices:
    "attr as_str ns ''--query-source'' = Inr qs" "qs \<in> set [''memory'', ''disk'', ''reuse'']"
    "attr as_str ns ''--mode'' = Inr md" "md \<in> set [''single'', ''multi'']"
    using t(5)[OF bench_kinds(7)] t(5)[OF bench_kinds(12)] by blast
  show ?thesis unfolding bench_args_of_def ints others choices(1,3) using choices(2,4) by simp
qed

lemma mem_kinds:
  "list_all (\<lambda>name. none_option MEM_OPTIONS name OInt) (''--container-children-count'' # mem_int_names)"
  "none_option MEM_OPTIONS ''--types'' (OMany (map fst DEFAULT_CONFIGS))" "none_option MEM_OPTIONS ''--repeat'' OAppendInt"
  "typed_option MEM_OPTIONS ''--scale'' OFloat" "typed_option MEM_OPTIONS ''--enable-json'' OFlag"
  "typed_option MEM_OPTIONS ''--json-depth'' (OChoice [''flat'', ''medium'', ''deep'', ''all''])"
  "typed_option MEM_OPTIONS ''--ttl'' OInt" "typed_option MEM_OPTIONS ''--dragonfly-only'' OFlag"
  "typed_option MEM_OPTIONS ''--redis-only'' OFlag" "typed_option MEM_OPTIONS ''--redis-label'' OStr"
  by code_simp+

lemma mem_args_total:
  assumes "namespace_ok MEM_OPTIONS ns"
  shows "\<exists>args. mem_args_of ns = Inr args"
proof -
  note t = typed_attr[OF assms] and u = none_attr[OF assms]
  have "\<forall>name\<in>set (''--container-children-count'' # mem_int_names). \<exists>v. attr (maybe as_int) ns name = Inr v"
    using mem_kinds(1) u(1) unfolding list_all_iff by blast
  then obtain g where g: "\<forall>name\<in>set (''--container-children-count'' # mem_int_names). attr (maybe as_int) ns name = Inr (g name)"
    by metis
  then have nums: "mapR (\<lambda>name. attr (maybe as_int) ns name) mem_int_names = Inr (map g mem_int_names)"
    by (intro mapR_Inr) simp
  have ch: "attr (maybe as_int) ns ''--container-children-count'' = Inr (g ''--container-children-count'')" using g by simp
  obtain ty where ty: "attr (maybe as_strs) ns ''--types'' = Inr ty" using u(2)[OF mem_kinds(2)] by blast
  obtain rp where rp: "attr (maybe as_ints) ns ''--repeat'' = Inr rp" using u(3)[OF mem_kinds(3)] by blast
  obtain sc where sc: "attr as_float ns ''--scale'' = Inr sc" using t(3)[OF mem_kinds(4)] by blast
  obtain ej where ej: "attr as_bool ns ''--enable-json'' = Inr ej" using t(4)[OF mem_kinds(5)] by blast
  obtain jd where jd: "attr as_str ns ''--json-depth'' = Inr jd" using t(5)[OF mem_kinds(6)] by blast
  obtain tt where tt: "attr as_int ns ''--ttl'' = Inr tt" using t(1)[OF mem_kinds(7)] by blast
  obtain dfo where dfo: "attr as_bool ns ''--dragonfly-only'' = Inr dfo" using t(4)[OF mem_kinds(8)] by blast
  obtain ro where ro: "attr as_bool ns ''--redis-only'' = Inr ro" using t(4)[OF mem_kinds(9)] by blast
  obtain rl where rl: "attr as_str ns ''--redis-label'' = Inr rl" using t(2)[OF mem_kinds(10)] by blast
  show ?thesis unfolding mem_args_of_def sc ch ej jd nums ty rp tt dfo ro rl bindR.simps by blast
qed


section \<open>Properties\<close>

text \<open>
  C14: Command lines are well typed. Whatever the arguments are, a namespace one of the five parsers
  returns has every option with a value of its declared kind or its default, so no attribute the programs
  read is missing or of another type; the two benchmarks get their argument records, the choices within
  their lists.
\<close>

theorem command_line_typed:
  assumes "parse_args specs argv = Inr ns" "specs \<in> set option_tables"
  shows "namespace_ok specs ns
    \<and> (specs = BENCH_OPTIONS \<longrightarrow> (\<exists>args. bench_args_of ns = Inr args \<and> a_mode args \<in> {''single'', ''multi''}
        \<and> a_query_source args \<in> {''memory'', ''disk'', ''reuse''}))
    \<and> (specs = MEM_OPTIONS \<longrightarrow> (\<exists>args. mem_args_of ns = Inr args))"
proof -
  have "namespace_ok specs ns" using parse_args_ok[OF assms(1)] table_names[OF assms(2)] by blast
  then show ?thesis using bench_args_total mem_args_total by blast
qed

theorem command_line_typed_witness:
  "\<exists>ns args. parse_args BENCH_OPTIONS [''--mode=single'', ''--num-r'', ''50'', ''--no-flush''] = Inr ns
    \<and> bench_args_of ns = Inr args \<and> a_mode args \<in> {''single'', ''multi''}"
proof -
  have c: "mapR (classify BENCH_OPTIONS) [''--mode=single'', ''--num-r'', ''50'', ''--no-flush'']
      = Inr [TOpt ''--mode'' (Some ''single''), TOpt ''--num-rules'' None, TArg ''50'', TOpt ''--no-flush'' None]"
    by code_simp
  have k: "typed_option BENCH_OPTIONS ''--mode'' (OChoice [''single'', ''multi''])"
      "typed_option BENCH_OPTIONS ''--num-rules'' OInt" "typed_option BENCH_OPTIONS ''--no-flush'' OFlag"
    by (fact bench_kinds)+
  have n: "py_int ''50'' = Inr 50" by code_simp
  have "\<exists>ns. parse_args BENCH_OPTIONS [''--mode=single'', ''--num-r'', ''50'', ''--no-flush''] = Inr ns"
    using k unfolding parse_args_def c by (auto simp: typed_option_def take_option_def convert_def n split: option.splits)
  then obtain ns where ns: "parse_args BENCH_OPTIONS [''--mode=single'', ''--num-r'', ''50'', ''--no-flush''] = Inr ns" by blast
  have "BENCH_OPTIONS \<in> set option_tables" by (simp add: option_tables_def)
  from command_line_typed[OF ns this] ns show ?thesis by blast
qed

text \<open>
  Integers on a command line are read back as they were written, negative ones included, for any
  integer options of any of the parsers in any order; a repeated option keeps its last value and the others
  keep their defaults.
\<close>

theorem integer_options_roundtrip:
  assumes "specs \<in> set option_tables" "list_all (\<lambda>a. int_option specs (fst a)) as"
  shows "parse_args specs (concat (map (\<lambda>a. [fst a, py_str (snd a)]) as))
    = Inr (foldl (\<lambda>ns a. AList.update (fst a) (VInt (snd a)) ns) (default_namespace specs) as)"
  using parse_ints[OF conjunct1[OF table_names[OF assms(1)]] assms(2)] .

theorem integer_options_roundtrip_witness:
  "\<exists>ns. parse_args BENCH_OPTIONS [''--seed'', ''-7'', ''--db'', ''15''] = Inr ns
    \<and> map_of ns ''--seed'' = Some (VInt (- 7)) \<and> map_of ns ''--num-buckets'' = Some (VInt 16)"
proof -
  let ?as = "[(''--seed'', - 7), (''--db'', 15)] :: (string \<times> int) list"
  have "BENCH_OPTIONS \<in> set option_tables" "list_all (\<lambda>a. int_option BENCH_OPTIONS (fst a)) ?as"
    by (simp add: option_tables_def) code_simp
  from integer_options_roundtrip[OF this]
  have "parse_args BENCH_OPTIONS (concat (map (\<lambda>a. [fst a, py_str (snd a)]) ?as))
      = Inr (foldl (\<lambda>ns a. AList.update (fst a) (VInt (snd a)) ns) (default_namespace BENCH_OPTIONS) ?as)" .
  moreover have "concat (map (\<lambda>a. [fst a, py_str (snd a)]) ?as) = [''--seed'', ''-7'', ''--db'', ''15'']" by code_simp
  ultimately have p: "parse_args BENCH_OPTIONS [''--seed'', ''-7'', ''--db'', ''15'']
      = Inr (foldl (\<lambda>ns a. AList.update (fst a) (VInt (snd a)) ns) (default_namespace BENCH_OPTIONS) ?as)" by simp
  show ?thesis
    by (rule exI, rule conjI, rule p) (simp add: update_conv' default_namespace_def BENCH_OPTIONS_def opt_def)
qed

end
