(* ===== verification/Bench_Cli.thy ===== *)
theory Bench_Cli
  imports Cli_Tables Bench_Main
begin

text \<open>
  \<open>fqdnrules/benchmark.py\<close> from its command line on: the parsed options decide the run.
\<close>

definition bench_cli :: "('db, 's) bench_env \<Rightarrow> string list \<Rightarrow> 'db \<Rightarrow> bench_result result option" where
  "bench_cli env argv db =
     (case bindR (parse_args BENCH_OPTIONS argv) bench_args_of of
        Inl e \<Rightarrow> Some (Inl e)
      | Inr args \<Rightarrow> bench_main env args db)"


section \<open>The arguments of a command line\<close>

text \<open>The record of the arguments: each field the last value its option was given, or its default.\<close>

definition cli_args :: "setting list \<Rightarrow> bench_args" where
  "cli_args ss =
     (let v = set_value BENCH_OPTIONS ss in
     \<lparr>a_num_rules = the (as_int (v ''--num-rules'')), a_num_queries = the (as_int (v ''--num-queries'')),
      a_miss_rate = the (as_float (v ''--miss-rate'')), a_query_concurrency = the (as_int (v ''--query-concurrency'')),
      a_query_file_batch_size = the (as_int (v ''--query-file-batch-size'')),
      a_query_pause_seconds = the (as_float (v ''--query-pause-seconds'')),
      a_query_source = the (as_str (v ''--query-source'')), a_num_buckets = the (as_int (v ''--num-buckets'')),
      a_rule_depth_tiers = the (as_str (v ''--rule-depth-tiers'')),
      a_write_batch_size = the (as_int (v ''--write-batch-size'')), a_no_flush = the (as_bool (v ''--no-flush'')),
      a_mode = the (as_str (v ''--mode'')), a_seed = the (as_int (v ''--seed''))\<rparr>)"

lemma attr_value:
  assumes "namespace_ok specs ns" "map_of ns name = Some v"
  shows "typed_option specs name OInt \<Longrightarrow> attr as_int ns name = Inr (the (as_int v))"
    and "typed_option specs name OStr \<Longrightarrow> attr as_str ns name = Inr (the (as_str v))"
    and "typed_option specs name OFloat \<Longrightarrow> attr as_float ns name = Inr (the (as_float v))"
    and "typed_option specs name OFlag \<Longrightarrow> attr as_bool ns name = Inr (the (as_bool v))"
    and "typed_option specs name (OChoice cs) \<Longrightarrow> attr as_str ns name = Inr (the (as_str v))"
proof -
  note t = typed_attr[OF assms(1), of name]
  show "typed_option specs name OInt \<Longrightarrow> attr as_int ns name = Inr (the (as_int v))"
    using t(1) assms(2) by (auto simp: attr_def split: option.splits)
  show "typed_option specs name OStr \<Longrightarrow> attr as_str ns name = Inr (the (as_str v))"
    using t(2) assms(2) by (auto simp: attr_def split: option.splits)
  show "typed_option specs name OFloat \<Longrightarrow> attr as_float ns name = Inr (the (as_float v))"
    using t(3) assms(2) by (auto simp: attr_def split: option.splits)
  show "typed_option specs name OFlag \<Longrightarrow> attr as_bool ns name = Inr (the (as_bool v))"
    using t(4) assms(2) by (auto simp: attr_def split: option.splits)
  show "typed_option specs name (OChoice cs) \<Longrightarrow> attr as_str ns name = Inr (the (as_str v))"
    using t(5)[of cs] assms(2) by (auto simp: attr_def split: option.splits)
qed

lemma bench_args_of_settings:
  assumes "settings_ok BENCH_OPTIONS ss"
  shows "bench_args_of (apply_settings BENCH_OPTIONS ss (default_namespace BENCH_OPTIONS)) = Inr (cli_args ss)"
proof -
  let ?ns = "apply_settings BENCH_OPTIONS ss (default_namespace BENCH_OPTIONS)"
  have n: "names_ok BENCH_OPTIONS" "distinct (map os_name BENCH_OPTIONS)"
    using table_names[of BENCH_OPTIONS] by (simp_all add: option_tables_def)
  have ok: "namespace_ok BENCH_OPTIONS ?ns" by (rule parse_args_ok[OF parse_settings[OF n(1) assms] n(2)])
  have v: "map_of ?ns name = Some (set_value BENCH_OPTIONS ss name)" if "typed_option BENCH_OPTIONS name k" for name k
    using that by (intro settings_value) (auto simp: typed_option_def split: option.splits)
  note a = attr_value[OF ok v] and k = bench_kinds
  show ?thesis
    unfolding bench_args_of_def a(1)[OF k(1) k(1)] a(1)[OF k(2) k(2)] a(3)[OF k(3) k(3)] a(1)[OF k(4) k(4)]
      a(1)[OF k(5) k(5)] a(3)[OF k(6) k(6)] a(5)[OF k(7) k(7)] a(1)[OF k(8) k(8)] a(2)[OF k(9) k(9)]
      a(1)[OF k(10) k(10)] a(4)[OF k(11) k(11)] a(5)[OF k(12) k(12)] a(1)[OF k(13) k(13)] bindR.simps cli_args_def Let_def ..
qed

lemma bench_cli_settings:
  assumes "settings_ok BENCH_OPTIONS ss"
  shows "bench_cli env (concat (map setting_words ss)) db = bench_main env (cli_args ss) db"
proof -
  have "names_ok BENCH_OPTIONS" using table_names[of BENCH_OPTIONS] by (simp add: option_tables_def)
  from parse_settings[OF this assms] bench_args_of_settings[OF assms] show ?thesis by (simp add: bench_cli_def)
qed


section \<open>Properties\<close>

text \<open>
  C32: A benchmark is what its command line says. For any settings of its options (flags, values as a word
  of their own or after an equals sign, in any order, repeated or not) the run is that of the last values and
  the other defaults. When these are accepted and the server is as the benchmark expects, it ends and reports
  the number of queries that was asked for; its ten samples are queries of the list that the seed, the number of rules, the
  number of queries and the miss rate determine, each with the rule of its pair or a miss.
\<close>

theorem command_line_run:
  assumes "settings_ok BENCH_OPTIONS ss" "fresh_run env (cli_args ss) db st"
  shows "bench_cli env (concat (map setting_words ss)) db = bench_main env (cli_args ss) db
    \<and> (\<exists>layout res r. bench_main env (cli_args ss) db = Some (Inr res)
      \<and> layout_stage env (cli_args ss) = Some (Inr (Some layout))
      \<and> set_value BENCH_OPTIONS ss ''--num-queries'' = VInt (res_num_queries res)
      \<and> int (length (res_latencies res)) = res_num_queries res \<and> length (res_samples res) = 10
      \<and> set_value BENCH_OPTIONS ss ''--miss-rate'' = VFloat (Fin r)
      \<and> (\<forall>num_rules seed. set_value BENCH_OPTIONS ss ''--num-rules'' = VInt num_rules
          \<and> set_value BENCH_OPTIONS ss ''--seed'' = VInt seed \<longrightarrow>
          (\<forall>s\<in>set (res_samples res). sample_correct (be_rng env) num_rules layout s
            \<and> sample_of (fst (build_queries (be_rng env) num_rules (res_num_queries res) r layout (be_seed env seed))) s)))"
proof -
  let ?args = "cli_args ss"
  have v: "\<exists>n. set_value BENCH_OPTIONS ss ''--num-queries'' = VInt n" "\<exists>x. set_value BENCH_OPTIONS ss ''--miss-rate'' = VFloat x"
  proof -
    have n: "names_ok BENCH_OPTIONS" "distinct (map os_name BENCH_OPTIONS)"
      using table_names[of BENCH_OPTIONS] by (simp_all add: option_tables_def)
    have ok: "namespace_ok BENCH_OPTIONS (apply_settings BENCH_OPTIONS ss (default_namespace BENCH_OPTIONS))"
      by (rule parse_args_ok[OF parse_settings[OF n(1) assms(1)] n(2)])
    have "find_spec BENCH_OPTIONS ''--num-queries'' \<noteq> None" "find_spec BENCH_OPTIONS ''--miss-rate'' \<noteq> None"
      using bench_kinds(2,3) by (auto simp: typed_option_def split: option.splits)
    note m = settings_value[OF this(1), of ss] settings_value[OF this(2), of ss]
    from typed_value[OF ok bench_kinds(2)] m(1) have "value_has_kind OInt (set_value BENCH_OPTIONS ss ''--num-queries'')" by auto
    then show "\<exists>n. set_value BENCH_OPTIONS ss ''--num-queries'' = VInt n"
      by (cases "set_value BENCH_OPTIONS ss ''--num-queries''") auto
    from typed_value[OF ok bench_kinds(3)] m(2) have "value_has_kind OFloat (set_value BENCH_OPTIONS ss ''--miss-rate'')" by auto
    then show "\<exists>x. set_value BENCH_OPTIONS ss ''--miss-rate'' = VFloat x"
      by (cases "set_value BENCH_OPTIONS ss ''--miss-rate''") auto
  qed
  obtain layout res r where R: "layout_stage env ?args = Some (Inr (Some layout))" "a_miss_rate ?args = Fin r"
    "bench_main env ?args db = Some (Inr res)" "res_num_queries res = a_num_queries ?args"
    "int (length (res_latencies res)) = a_num_queries ?args" "length (res_samples res) = 10"
    "\<forall>s\<in>set (res_samples res). sample_correct (be_rng env) (a_num_rules ?args) layout s"
    "\<forall>s\<in>set (res_samples res). sample_of (fst (build_queries (be_rng env) (a_num_rules ?args) (a_num_queries ?args) r layout
          (be_seed env (a_seed ?args)))) s"
    using fresh_run_result[OF assms(2)] by blast
  have f: "set_value BENCH_OPTIONS ss ''--num-queries'' = VInt (a_num_queries ?args)"
    "set_value BENCH_OPTIONS ss ''--miss-rate'' = VFloat (a_miss_rate ?args)"
    using v by (auto simp: cli_args_def Let_def)
  have g: "a_num_rules ?args = num_rules \<and> a_seed ?args = seed"
    if "set_value BENCH_OPTIONS ss ''--num-rules'' = VInt num_rules \<and> set_value BENCH_OPTIONS ss ''--seed'' = VInt seed" for num_rules seed
    using that by (simp add: cli_args_def Let_def)
  show ?thesis
    by (intro conjI bench_cli_settings[OF assms(1)] exI[of _ layout] exI[of _ res] exI[of _ r])
      (use R f g in auto)
qed

lemma small_cli_run:
  defines "ss \<equiv> [SetNext ''--num-queries'' ''7'', SetNext ''--num-buckets'' ''1'', SetJoined ''--num-rules'' ''1000'',
      SetJoined ''--query-source'' ''disk'', SetNext ''--num-queries'' ''100'', SetNext ''--seed'' ''-3'']"
  shows "fresh_run sample_env (cli_args ss) mem_empty \<lparr>rs_namespace = ''bench'', rs_num_buckets = 1\<rparr>"
  unfolding fresh_run_def
proof (intro conjI allI impI)
  have "py_int ''1'' = Inr 1" "py_int ''1000'' = Inr 1000" "py_int ''100'' = Inr 100" "py_int ''-3'' = Inr (- 3)"
    "stands_alone ''1''" "stands_alone ''100''" "stands_alone ''-3''" by code_simp+
  then have a: "cli_args ss = \<lparr>a_num_rules = 1000, a_num_queries = 100, a_miss_rate = fl (1/10), a_query_concurrency = 1,
      a_query_file_batch_size = 10000, a_query_pause_seconds = Fin 5, a_query_source = ''disk'', a_num_buckets = 1,
      a_rule_depth_tiers = DEFAULT_DEPTH_TIERS, a_write_batch_size = 5000, a_no_flush = False, a_mode = ''multi'', a_seed = - 3\<rparr>"
    by (simp add: ss_def cli_args_def Let_def set_value_def kind_of_def find_spec_def BENCH_OPTIONS_def opt_def)
  show "redis_laws (be_api sample_env)" by (simp add: sample_env_def mem_laws)
  show "rng_ok (be_rng sample_env)" by (simp add: sample_env_def least_rng_ok)
  have "pf_between 0 (fl (1/10)) 1" by code_simp
  then show "validate_args (be_sum_weights sample_env) (be_query_file sample_env \<noteq> None) (cli_args ss) = None"
    using default_tiers by (simp add: sample_env_def a validate_args_def)
  show "a_query_source (cli_args ss) \<noteq> ''reuse''" "\<not> a_no_flush (cli_args ss)" "0 < a_write_batch_size (cli_args ss)"
    by (simp_all add: a)
  show "be_reachable sample_env mem_empty" by (simp add: sample_env_def)
  show "open_store sample_env (cli_args ss) mem_empty = Inr \<lparr>rs_namespace = ''bench'', rs_num_buckets = 1\<rparr>"
    by (simp add: open_store_def sample_env_def rule_store_init_def mem_api_def mem_empty_def a)
  show "store_ok \<lparr>rs_namespace = ''bench'', rs_num_buckets = 1\<rparr>" by (simp add: store_ok_def)
  show "represents (be_api sample_env) \<lparr>rs_namespace = ''bench'', rs_num_buckets = 1\<rparr>
      (be_flushdb sample_env mem_empty) no_rules" by (simp add: sample_env_def mem_represents)
  fix tiers
  assume "parse_depth_tiers (be_sum_weights sample_env) (a_rule_depth_tiers (cli_args ss)) = Inr tiers"
  then show "positive_weights tiers" using default_tiers sample_weights by (simp add: sample_env_def a)
next
  fix n :: nat
  show "mset (be_schedule sample_env n) = mset [0..<n]" by (simp add: sample_env_def)
qed

theorem command_line_run_witness:
  "\<exists>res. bench_cli sample_env [''--num-queries'', ''7'', ''--num-buckets'', ''1'', ''--num-rules=1000'',
      ''--query-source=disk'', ''--num-queries'', ''100'', ''--seed'', ''-3''] mem_empty = Some (Inr res)
    \<and> res_num_queries res = 100"
proof -
  let ?ss = "[SetNext ''--num-queries'' ''7'', SetNext ''--num-buckets'' ''1'', SetJoined ''--num-rules'' ''1000'',
      SetJoined ''--query-source'' ''disk'', SetNext ''--num-queries'' ''100'', SetNext ''--seed'' ''-3'']"
  have t: "py_int ''7'' = Inr 7" "py_int ''1'' = Inr 1" "py_int ''1000'' = Inr 1000" "py_int ''100'' = Inr 100" "py_int ''-3'' = Inr (- 3)"
    "stands_alone ''7''" "stands_alone ''1''" "stands_alone ''100''" "stands_alone ''-3''" by code_simp+
  have "settings_ok BENCH_OPTIONS ?ss"
    by (simp add: settings_ok_def kind_of_def find_spec_def BENCH_OPTIONS_def opt_def t)
  note R = command_line_run[OF this small_cli_run]
  have w: "concat (map setting_words ?ss) = [''--num-queries'', ''7'', ''--num-buckets'', ''1'', ''--num-rules=1000'',
      ''--query-source=disk'', ''--num-queries'', ''100'', ''--seed'', ''-3'']" by simp
  have n: "set_value BENCH_OPTIONS ?ss ''--num-queries'' = VInt 100"
    by (simp add: set_value_def kind_of_def find_spec_def BENCH_OPTIONS_def opt_def t)
  from R show ?thesis unfolding w n by auto
qed

end
