(* ===== verification/Snack_Interleave.thy ===== *)
theory Snack_Interleave
  imports Snack_Bar
begin

text \<open>
  Requests of \<open>fast_api_snack_bar/app/main.py\<close> that overlap. A sale awaits the limiter and then the
  sorted set, so other requests and pauses may come between its two halves.
\<close>

section \<open>Overlapping requests\<close>

text \<open>
  A state with the sales that were let through and are not recorded yet. The steps are the first half of a
  request, the second half of any of them, and the passing of time.
\<close>

inductive request_step :: "'w snack_api \<Rightarrow> 'w \<times> string list \<Rightarrow> 'w \<times> string list \<Rightarrow> bool" for api where
  let_through:
    "map_of (SNACK_RATES api) snack = Some r
     \<Longrightarrow> sb_hit api w ''worker'' (rate_limit r) (rate_window r) (''sell:'' @ snack) = ((True, remaining), w')
     \<Longrightarrow> request_step api (w, open_sales) (w', snack # open_sales)"
| refused:
    "map_of (SNACK_RATES api) snack = Some r
     \<Longrightarrow> sb_hit api w ''worker'' (rate_limit r) (rate_window r) (''sell:'' @ snack) = ((False, remaining), w')
     \<Longrightarrow> request_step api (w, open_sales) (w', open_sales)"
| recorded:
    "snack \<in> set open_sales
     \<Longrightarrow> request_step api (w, open_sales) (record_sale api w snack, remove1 snack open_sales)"
| pause:
    "0 \<le> d \<Longrightarrow> request_step api (w, open_sales) (sb_sleep api w d, open_sales)"

text \<open>A request that nobody interrupts is its two halves.\<close>

lemma sell_two_steps:
  assumes "sell api snack w = (HttpOk r, w')"
  shows "(request_step api)\<^sup>*\<^sup>* (w, open_sales) (w', open_sales)"
proof -
  obtain rate where rate: "map_of (SNACK_RATES api) snack = Some rate"
    using assms by (cases "map_of (SNACK_RATES api) snack") (simp_all add: sell_def)
  obtain ok remaining w1 where hit: "sb_hit api w ''worker'' (rate_limit rate) (rate_window rate) (''sell:'' @ snack)
      = ((ok, remaining), w1)" by (metis prod.collapse)
  show ?thesis
  proof (cases ok)
    case True
    then have "w' = record_sale api w1 snack" using assms rate hit by (simp add: sell_def)
    moreover have "request_step api (w, open_sales) (w1, snack # open_sales)"
      by (rule let_through[OF rate]) (use hit True in simp)
    moreover have "request_step api (w1, snack # open_sales) (record_sale api w1 snack, open_sales)"
      using recorded[of snack "snack # open_sales" api w1] by simp
    ultimately show ?thesis by (metis converse_rtranclp_into_rtranclp rtranclp.rtrancl_refl)
  next
    case False
    then have "w' = w1" using assms rate hit by (simp add: sell_def)
    then show ?thesis using refused[OF rate, of w remaining w1 open_sales] hit False by auto
  qed
qed


section \<open>The abstract limiter\<close>

text \<open>
  What the system promises: a counter and a used-up quota for each snack, a clock, and sales that
  happen at once, within the quota of the running second.
\<close>

type_synonym limiter = "(string \<Rightarrow> int) \<times> (string \<Rightarrow> int) \<times> rat"

inductive limiter_step :: "limiter \<Rightarrow> limiter \<Rightarrow> bool" where
  sale:
    "snack_limit snack = Some limit \<Longrightarrow> quota snack < limit
     \<Longrightarrow> limiter_step (sold, quota, t) (sold(snack := sold snack + 1), quota(snack := quota snack + 1), t)"
| tick:
    "t \<le> t' \<Longrightarrow> limiter_step (sold, quota, t) (sold, if \<lfloor>t'\<rfloor> = \<lfloor>t\<rfloor> then quota else (\<lambda>_. 0), t')"

text \<open>A sale counts as soon as it was let through.\<close>

definition limiter_of ::
  "('w \<Rightarrow> string \<Rightarrow> int) \<Rightarrow> ('w \<Rightarrow> string \<Rightarrow> int) \<Rightarrow> ('w \<Rightarrow> rat) \<Rightarrow> 'w \<times> string list \<Rightarrow> limiter" where
  "limiter_of score used now wp =
     (case wp of (w, open_sales) \<Rightarrow>
        (\<lambda>s. score w s + int (count_list open_sales s), \<lambda>s. used w (scope_of s), now w))"

lemma count_remove1: "snack \<in> set xs \<Longrightarrow> int (count_list (remove1 snack xs) s) = int (count_list xs s) - (if s = snack then 1 else 0)"
  by (induction xs) auto

lemma rates_limit:
  assumes "snack_laws api score used now" "map_of (SNACK_RATES api) snack = Some r"
  shows "\<exists>limit. snack_limit snack = Some limit \<and> r = \<lparr>rate_limit = limit, rate_window = 1\<rparr>"
  using assms(2) by (auto simp: SNACK_RATES_def snack_limit_def snack_lawsD(1)[OF assms(1)] split: if_splits)

lemma request_refines:
  assumes "snack_laws api score used now" "request_step api wp wp'"
  shows "limiter_step\<^sup>=\<^sup>= (limiter_of score used now wp) (limiter_of score used now wp')"
  using assms(2)
proof cases
  case (let_through snack r w remaining w' open_sales)
  obtain limit where lim: "snack_limit snack = Some limit" "r = \<lparr>rate_limit = limit, rate_window = 1\<rparr>"
    using rates_limit[OF assms(1) let_through(3)] by blast
  note H = snack_lawsD(6-9)[OF assms(1) let_through(4)[unfolded lim(2) rate.simps]]
  have q: "used w (scope_of snack) < limit" using H(1) by (simp add: scope_of_def)
  have "limiter_of score used now wp' = ((\<lambda>s. score w s + int (count_list open_sales s))(snack :=
      score w snack + int (count_list open_sales snack) + 1),
      (\<lambda>s. used w (scope_of s))(snack := used w (scope_of snack) + 1), now w)"
    using H(2-4) let_through(2) by (auto simp: limiter_of_def fun_eq_iff scope_of_def)
  then show ?thesis
    using sale[OF lim(1), of "\<lambda>s. used w (scope_of s)" "\<lambda>s. score w s + int (count_list open_sales s)" "now w"] q
    by (simp add: limiter_of_def let_through(1))
next
  case (refused snack r w remaining w' open_sales)
  obtain limit where lim: "r = \<lparr>rate_limit = limit, rate_window = 1\<rparr>"
    using rates_limit[OF assms(1) refused(3)] by blast
  note H = snack_lawsD(7-9)[OF assms(1) refused(4)[unfolded lim rate.simps]]
  then have "limiter_of score used now wp' = limiter_of score used now wp"
    by (simp add: limiter_of_def refused(1,2) fun_upd_idem)
  then show ?thesis by simp
next
  case (recorded snack open_sales w)
  have "limiter_of score used now wp' = limiter_of score used now wp"
    using count_remove1[OF recorded(3)]
    by (auto simp: limiter_of_def recorded(1,2) record_sale_def snack_lawsD(3-5)[OF assms(1)] fun_eq_iff)
  then show ?thesis by simp
next
  case (pause d w open_sales)
  note S = snack_lawsD(10-12)[OF assms(1) pause(3), of w]
  have le: "now w \<le> now (sb_sleep api w d)" using S(2) pause(3) by simp
  have "(\<lambda>s. used (sb_sleep api w d) (scope_of s))
      = (if \<lfloor>now (sb_sleep api w d)\<rfloor> = \<lfloor>now w\<rfloor> then (\<lambda>s. used w (scope_of s)) else (\<lambda>_. 0))"
    unfolding S(3) by (simp split: if_split)
  then show ?thesis
    using tick[OF le, of "\<lambda>s. score w s + int (count_list open_sales s)" "\<lambda>s. used w (scope_of s)"]
    by (simp add: limiter_of_def pause(1,2) S(1))
qed

text \<open>The abstract limiter keeps the rates: by rule induction over its runs.\<close>

definition potential :: "string \<Rightarrow> int \<Rightarrow> limiter \<Rightarrow> int" where
  "potential snack limit l = (case l of (sold, quota, t) \<Rightarrow> sold snack - limit * \<lfloor>t\<rfloor> - quota snack)"

lemma limiter_step_potential:
  assumes "limiter_step l l'" "snack_limit snack = Some limit" "fst (snd l) snack \<le> limit"
  shows "fst (snd l') snack \<le> limit \<and> potential snack limit l' \<le> potential snack limit l"
  using assms(1)
proof cases
  case (sale s l quota sold t)
  then show ?thesis using assms(2,3) by (auto simp: potential_def)
next
  case (tick t t' sold quota)
  have lim: "0 < limit" using assms(2) by (auto simp: snack_limit_def split: if_splits)
  show ?thesis
  proof (cases "\<lfloor>t'\<rfloor> = \<lfloor>t\<rfloor>")
    case True
    then show ?thesis using tick assms(3) by (simp add: potential_def)
  next
    case False
    have "\<lfloor>t\<rfloor> \<le> \<lfloor>t'\<rfloor>" using tick by (intro floor_mono) simp
    with False have "limit * (\<lfloor>t\<rfloor> + 1) \<le> limit * \<lfloor>t'\<rfloor>" using lim by (intro mult_left_mono) simp_all
    then show ?thesis using False tick assms(3) lim by (simp add: potential_def distrib_left)
  qed
qed

lemma limiter_potential:
  assumes "limiter_step\<^sup>*\<^sup>* l l'" "snack_limit snack = Some limit" "fst (snd l) snack \<le> limit"
  shows "fst (snd l') snack \<le> limit \<and> potential snack limit l' \<le> potential snack limit l"
  using assms(1)
proof (induction rule: rtranclp_induct)
  case base
  show ?case using assms(3) by simp
next
  case (step l1 l2)
  then show ?case using limiter_step_potential[OF step.hyps(2) assms(2)] by fastforce
qed

lemma requests_refine:
  assumes "snack_laws api score used now" "(request_step api)\<^sup>*\<^sup>* wp wp'"
  shows "limiter_step\<^sup>*\<^sup>* (limiter_of score used now wp) (limiter_of score used now wp')"
  using assms(2)
proof (induction rule: rtranclp_induct)
  case (step wp1 wp2)
  then show ?case using request_refines[OF assms(1) step.hyps(2)] by (auto intro: rtranclp.rtrancl_into_rtrancl)
qed simp

text \<open>Two sales that overlap: both are let through, then one of them is recorded.\<close>

definition toy_overlap :: toy_server where
  "toy_overlap = record_sale toy_api (snd (sb_hit toy_api (snd (sb_hit toy_api toy_start ''worker'' 2 1 ''sell:Bananas''))
     ''worker'' 10 1 ''sell:Ice-Cream'')) ''Bananas''"

lemma toy_overlap_run: "(request_step toy_api)\<^sup>*\<^sup>* (toy_start, []) (toy_overlap, [''Ice-Cream''])"
proof -
  let ?w1 = "snd (sb_hit toy_api toy_start ''worker'' 2 1 ''sell:Bananas'')"
  let ?w2 = "snd (sb_hit toy_api ?w1 ''worker'' 10 1 ''sell:Ice-Cream'')"
  let ?r = "\<lambda>n. \<lparr>rate_limit = n, rate_window = 1\<rparr>"
  have m: "map_of (SNACK_RATES toy_api) ''Bananas'' = Some (?r 2)" "map_of (SNACK_RATES toy_api) ''Ice-Cream'' = Some (?r 10)"
    by code_simp+
  have h1: "sb_hit toy_api toy_start ''worker'' (rate_limit (?r 2)) (rate_window (?r 2)) (''sell:'' @ ''Bananas'')
      = ((True, 1), ?w1)" by (simp add: toy_api_def toy_start_def)
  have h2: "sb_hit toy_api ?w1 ''worker'' (rate_limit (?r 10)) (rate_window (?r 10)) (''sell:'' @ ''Ice-Cream'')
      = ((True, 9), ?w2)" by (simp add: toy_api_def toy_start_def)
  have "request_step toy_api (toy_start, []) (?w1, [''Bananas''])" by (rule let_through[OF m(1) h1])
  moreover have "request_step toy_api (?w1, [''Bananas'']) (?w2, [''Ice-Cream'', ''Bananas''])" by (rule let_through[OF m(2) h2])
  moreover have "request_step toy_api (?w2, [''Ice-Cream'', ''Bananas'']) (record_sale toy_api ?w2 ''Bananas'', [''Ice-Cream''])"
    using recorded[of "''Bananas''" "[''Ice-Cream'', ''Bananas'']" toy_api ?w2] by simp
  ultimately show ?thesis unfolding toy_overlap_def
    by (meson rtranclp.rtrancl_into_rtrancl rtranclp.rtrancl_refl)
qed

text \<open>
  C34: Overlapping requests are as good as sales that happen at once: every run of the steps, in any
  interleaving, is matched by a run of the abstract limiter, in which a sale counts as
  soon as it was let through; when no sale is open the counts of the leaderboard are the abstract ones.
\<close>

theorem interleaved_refines:
  assumes "snack_laws api score used now" "(request_step api)\<^sup>*\<^sup>* (w, open_sales) (w', open_sales')"
  shows "limiter_step\<^sup>*\<^sup>* (limiter_of score used now (w, open_sales)) (limiter_of score used now (w', open_sales'))
    \<and> (open_sales' = [] \<longrightarrow> fst (limiter_of score used now (w', open_sales')) = score w')"
  using requests_refine[OF assms] by (simp add: limiter_of_def)

theorem interleaved_refines_witness:
  "limiter_step\<^sup>*\<^sup>* (limiter_of ts_scores ts_used ts_now (toy_start, []))
     (limiter_of ts_scores ts_used ts_now (toy_overlap, [''Ice-Cream'']))"
  using interleaved_refines[OF toy_laws toy_overlap_run] by blast

text \<open>
  C21: The rates hold for overlapping requests too: in any run of the steps, whatever is open at its ends, the
  recorded sales of a snack with the open ones grow by at most the rate for every one-second window
  the run touches.
\<close>

theorem interleaved_rate:
  assumes "snack_laws api score used now" "(request_step api)\<^sup>*\<^sup>* (w, open_sales) (w', open_sales')"
    and "snack_limit snack = Some limit" "0 \<le> used w (scope_of snack)" "used w (scope_of snack) \<le> limit"
  shows "score w' snack + int (count_list open_sales' snack)
    \<le> score w snack + int (count_list open_sales snack) + limit * (\<lfloor>now w'\<rfloor> - \<lfloor>now w\<rfloor> + 1)"
proof -
  from limiter_potential[OF requests_refine[OF assms(1,2)] assms(3)] assms(4,5) show ?thesis
    by (simp add: limiter_of_def potential_def algebra_simps)
qed

theorem interleaved_rate_witness:
  "ts_scores toy_overlap ''Ice-Cream'' + int (count_list [''Ice-Cream''] ''Ice-Cream'') \<le> 0 + 0 + 10 * (0 - 0 + 1)"
proof -
  have "ts_now toy_overlap = 0" by code_simp
  then show ?thesis
    using interleaved_rate[OF toy_laws toy_overlap_run, of "''Ice-Cream''" 10] by (simp add: snack_limit_def toy_start_def)
qed

end
