(* ===== verification/Snack_Cache.thy ===== *)
theory Snack_Cache
  imports Snack_Bar
begin

text \<open>
  The cached listing of \<open>fast_api_snack_bar/app/main.py\<close>. The cache of the web framework is a parameter:
  it runs a handler or answers with what the handler returned before.
\<close>

section \<open>The handler behind the cache\<close>

type_synonym listing = "(string \<times> int) list"

type_synonym 'w cache_api = "int \<Rightarrow> ('w \<Rightarrow> listing) \<Rightarrow> 'w \<Rightarrow> listing \<times> 'w"

definition get_leaderboard_cached :: "'w snack_api \<Rightarrow> 'w cache_api \<Rightarrow> 'w \<Rightarrow> listing \<times> 'w" where
  "get_leaderboard_cached api cache w = cache 5 (read_leaderboard api) w"

text \<open>What happens to the state: requests for a sale, pauses, and requests for the cached listing.\<close>

datatype cached_event = Plain sb_event | ReadCached

fun cached_step :: "'w snack_api \<Rightarrow> 'w cache_api \<Rightarrow> cached_event \<Rightarrow> 'w \<Rightarrow> 'w" where
  "cached_step api cache (Plain e) w = sb_step api e w"
| "cached_step api cache ReadCached w = snd (get_leaderboard_cached api cache w)"

fun cached_run :: "'w snack_api \<Rightarrow> 'w cache_api \<Rightarrow> cached_event list \<Rightarrow> 'w \<Rightarrow> 'w" where
  "cached_run api cache [] w = w"
| "cached_run api cache (e # es) w = cached_run api cache es (cached_step api cache e w)"


section \<open>What the cache promises\<close>

text \<open>
  \<open>entry w\<close> is the stored listing with the time it was stored. An entry younger than its lifetime is
  returned; else the handler runs and its answer is stored. Sales and pauses leave it alone.
\<close>

definition cache_laws ::
  "'w snack_api \<Rightarrow> 'w cache_api \<Rightarrow> ('w \<Rightarrow> string \<Rightarrow> int) \<Rightarrow> ('w \<Rightarrow> string \<Rightarrow> int) \<Rightarrow> ('w \<Rightarrow> rat)
    \<Rightarrow> ('w \<Rightarrow> (listing \<times> rat) option) \<Rightarrow> bool" where
  "cache_laws api cache score used now entry \<longleftrightarrow>
     (\<forall>ttl handler w. score (snd (cache ttl handler w)) = score w \<and> used (snd (cache ttl handler w)) = used w
        \<and> now (snd (cache ttl handler w)) = now w
        \<and> (case entry w of
             Some (v, t) \<Rightarrow>
               if now w < t + of_int ttl then fst (cache ttl handler w) = v \<and> entry (snd (cache ttl handler w)) = entry w
               else fst (cache ttl handler w) = handler w \<and> entry (snd (cache ttl handler w)) = Some (handler w, now w)
           | None \<Rightarrow> fst (cache ttl handler w) = handler w \<and> entry (snd (cache ttl handler w)) = Some (handler w, now w)))
     \<and> (\<forall>w i l win s. entry (snd (sb_hit api w i l win s)) = entry w)
     \<and> (\<forall>w k d m. entry (sb_zincrby api w k d m) = entry w)
     \<and> (\<forall>w d. entry (sb_sleep api w d) = entry w)"

lemma cache_lawsD:
  assumes "cache_laws api cache score used now entry"
  shows "score (snd (cache ttl handler w)) = score w" "used (snd (cache ttl handler w)) = used w"
    "now (snd (cache ttl handler w)) = now w"
    and "entry w = Some (v, t) \<Longrightarrow> now w < t + of_int ttl \<Longrightarrow>
      fst (cache ttl handler w) = v \<and> entry (snd (cache ttl handler w)) = entry w"
    and "entry w = None \<or> (\<exists>v t. entry w = Some (v, t) \<and> \<not> now w < t + of_int ttl) \<Longrightarrow>
      fst (cache ttl handler w) = handler w \<and> entry (snd (cache ttl handler w)) = Some (handler w, now w)"
    and "entry (snd (sb_hit api w i l win s)) = entry w" "entry (sb_zincrby api w k d m) = entry w"
    "entry (sb_sleep api w q) = entry w"
proof -
  note L = assms[unfolded cache_laws_def]
  show "entry (snd (sb_hit api w i l win s)) = entry w" "entry (sb_zincrby api w k d m) = entry w"
    "entry (sb_sleep api w q) = entry w" using L by blast+
  have c: "score (snd (cache ttl handler w)) = score w \<and> used (snd (cache ttl handler w)) = used w
        \<and> now (snd (cache ttl handler w)) = now w
        \<and> (case entry w of
             Some (v, t) \<Rightarrow>
               if now w < t + of_int ttl then fst (cache ttl handler w) = v \<and> entry (snd (cache ttl handler w)) = entry w
               else fst (cache ttl handler w) = handler w \<and> entry (snd (cache ttl handler w)) = Some (handler w, now w)
           | None \<Rightarrow> fst (cache ttl handler w) = handler w \<and> entry (snd (cache ttl handler w)) = Some (handler w, now w))"
    using L by blast
  then show "score (snd (cache ttl handler w)) = score w" "used (snd (cache ttl handler w)) = used w"
    "now (snd (cache ttl handler w)) = now w" by blast+
  show "fst (cache ttl handler w) = v \<and> entry (snd (cache ttl handler w)) = entry w"
    if "entry w = Some (v, t)" "now w < t + of_int ttl" using c that by simp
  show "fst (cache ttl handler w) = handler w \<and> entry (snd (cache ttl handler w)) = Some (handler w, now w)"
    if "entry w = None \<or> (\<exists>v t. entry w = Some (v, t) \<and> \<not> now w < t + of_int ttl)" using c that by auto
qed


section \<open>How far the cached listing lags behind\<close>

text \<open>
  The invariant: the quota of every snack is in range, and a stored listing has for every snack a
  count that is not above its score now and from which the score has grown within the rate since.
\<close>

definition lags :: "('w \<Rightarrow> string \<Rightarrow> int) \<Rightarrow> ('w \<Rightarrow> string \<Rightarrow> int) \<Rightarrow> ('w \<Rightarrow> rat) \<Rightarrow> 'w \<Rightarrow> listing \<Rightarrow> rat \<Rightarrow> bool" where
  "lags score used now w v t \<longleftrightarrow>
     t \<le> now w \<and> (\<forall>snack limit. snack_limit snack = Some limit \<longrightarrow>
       (\<exists>c. (snack, c) \<in> set v \<and> c \<le> score w snack
          \<and> score w snack + limit * \<lfloor>t\<rfloor> \<le> c + limit * \<lfloor>now w\<rfloor> + used w (scope_of snack)))"

definition cache_inv ::
  "('w \<Rightarrow> string \<Rightarrow> int) \<Rightarrow> ('w \<Rightarrow> string \<Rightarrow> int) \<Rightarrow> ('w \<Rightarrow> rat) \<Rightarrow> ('w \<Rightarrow> (listing \<times> rat) option) \<Rightarrow> 'w \<Rightarrow> bool" where
  "cache_inv score used now entry w \<longleftrightarrow>
     (\<forall>snack limit. snack_limit snack = Some limit \<longrightarrow> 0 \<le> used w (scope_of snack) \<and> used w (scope_of snack) \<le> limit)
     \<and> (\<forall>v t. entry w = Some (v, t) \<longrightarrow> lags score used now w v t)"

lemma listing_has:
  assumes "snack_laws api score used now" "snack_limit snack = Some limit"
  shows "(snack, score w snack) \<in> set (read_leaderboard api w)"
proof -
  have "read_leaderboard api w = sort_key (\<lambda>row. - snd row)
      (map (\<lambda>snack. (snack, score w snack)) [''Apples'', ''Bananas'', ''Ice-Cream''])"
    using leaderboard_scores[OF assms(1), of w] .
  with assms(2) show ?thesis by (auto simp: snack_limit_def split: if_splits)
qed

text \<open>One plain event: the quota stays in range, counts and time only grow, and the potential only falls.\<close>

lemma plain_event:
  assumes "snack_laws api score used now" "pauses_ok [e]" "snack_limit snack = Some limit"
    and "0 \<le> used w (scope_of snack)" "used w (scope_of snack) \<le> limit"
  defines "w' \<equiv> sb_step api e w"
  shows "0 \<le> used w' (scope_of snack) \<and> used w' (scope_of snack) \<le> limit \<and> now w \<le> now w' \<and> score w snack \<le> score w' snack
    \<and> score w' snack + limit * \<lfloor>now w\<rfloor> + used w (scope_of snack)
      \<le> score w snack + limit * \<lfloor>now w'\<rfloor> + used w' (scope_of snack)"
proof -
  have "0 \<le> used w' (scope_of snack) \<and> now w \<le> now w' \<and> score w snack \<le> score w' snack"
  proof (cases e)
    case (ESell s)
    show ?thesis
      by (cases rule: sell_cases[OF assms(1), of s w]) (use ESell assms(4) in \<open>auto simp: w'_def\<close>)
  next
    case (ESleep d)
    then have d: "0 \<le> d" using assms(2) by simp
    show ?thesis using snack_lawsD(10-12)[OF assms(1) d, of w] ESleep assms(4) d by (simp add: w'_def)
  qed
  with rate_potential[OF assms(1-3,5)] show ?thesis by (simp add: w'_def)
qed

lemma plain_entry:
  assumes "cache_laws api cache score used now entry"
  shows "entry (sb_step api e w) = entry w"
proof (cases e)
  case (ESell s)
  show ?thesis
  proof (cases "map_of (SNACK_RATES api) s")
    case None
    then show ?thesis by (simp add: ESell sell_def)
  next
    case (Some r)
    obtain ok remaining w1 where h: "sb_hit api w ''worker'' (rate_limit r) (rate_window r) (''sell:'' @ s) = ((ok, remaining), w1)"
      by (metis prod.collapse)
    then have "entry w1 = entry w" using cache_lawsD(6)[OF assms] by (metis snd_conv)
    then show ?thesis using Some h cache_lawsD(7)[OF assms] by (simp add: ESell sell_def record_sale_def)
  qed
qed (simp add: cache_lawsD(8)[OF assms])

lemma plain_inv:
  assumes "snack_laws api score used now" "cache_laws api cache score used now entry" "pauses_ok [e]"
    and "cache_inv score used now entry w"
  shows "cache_inv score used now entry (sb_step api e w)"
proof -
  let ?w = "sb_step api e w"
  have q: "0 \<le> used w (scope_of s)" "used w (scope_of s) \<le> l" if "snack_limit s = Some l" for s l
    using assms(4) that by (simp_all add: cache_inv_def)
  note P = plain_event[OF assms(1,3) _ q]
  have "lags score used now ?w v t" if "entry w = Some (v, t)" for v t
  proof -
    have L: "lags score used now w v t" using assms(4) that by (simp add: cache_inv_def)
    have a: "snack_limit ''Apples'' = Some 1" by (simp add: snack_limit_def)
    from P[OF a a a] L have t: "t \<le> now ?w" by (simp add: lags_def)
    have "\<exists>c. (s, c) \<in> set v \<and> c \<le> score ?w s \<and> score ?w s + l * \<lfloor>t\<rfloor> \<le> c + l * \<lfloor>now ?w\<rfloor> + used ?w (scope_of s)"
      if l: "snack_limit s = Some l" for s l
    proof -
      obtain c where c: "(s, c) \<in> set v" "c \<le> score w s"
        "score w s + l * \<lfloor>t\<rfloor> \<le> c + l * \<lfloor>now w\<rfloor> + used w (scope_of s)" using L l by (auto simp: lags_def)
      show ?thesis by (rule exI[of _ c]) (use c P[OF l l l] in auto)
    qed
    with t show ?thesis by (simp add: lags_def)
  qed
  then show ?thesis using P unfolding cache_inv_def plain_entry[OF assms(2)] by blast
qed

lemma read_inv:
  assumes "snack_laws api score used now" "cache_laws api cache score used now entry" "cache_inv score used now entry w"
  shows "cache_inv score used now entry (snd (get_leaderboard_cached api cache w))
    \<and> (\<exists>t. lags score used now w (fst (get_leaderboard_cached api cache w)) t \<and> now w < t + 5)"
proof (cases "\<exists>v t. entry w = Some (v, t) \<and> now w < t + of_int 5")
  case True
  then obtain v t where e: "entry w = Some (v, t)" "now w < t + of_int 5" by blast
  note C = cache_lawsD(4)[OF assms(2) e, of "read_leaderboard api"] cache_lawsD(1-3)[OF assms(2), of 5 "read_leaderboard api" w]
  show ?thesis using C e assms(3) by (auto simp: get_leaderboard_cached_def cache_inv_def lags_def)
next
  case False
  then have "entry w = None \<or> (\<exists>v t. entry w = Some (v, t) \<and> \<not> now w < t + of_int 5)" by (cases "entry w") auto
  note C = cache_lawsD(5)[OF assms(2) this, of "read_leaderboard api"] cache_lawsD(1-3)[OF assms(2), of 5 "read_leaderboard api" w]
  have "lags score used now w (read_leaderboard api w) (now w)"
    using listing_has[OF assms(1)] assms(3) by (fastforce simp: lags_def cache_inv_def)
  with C assms(3) show ?thesis by (auto simp: get_leaderboard_cached_def cache_inv_def lags_def intro!: exI[of _ "now w"])
qed

definition cached_pauses_ok :: "cached_event list \<Rightarrow> bool" where
  "cached_pauses_ok es \<longleftrightarrow> list_all (\<lambda>e. case e of Plain e \<Rightarrow> pauses_ok [e] | ReadCached \<Rightarrow> True) es"

lemma run_inv:
  assumes "snack_laws api score used now" "cache_laws api cache score used now entry" "cached_pauses_ok es"
    and "cache_inv score used now entry w"
  shows "cache_inv score used now entry (cached_run api cache es w)"
  using assms(3,4)
proof (induction es arbitrary: w)
  case (Cons e es)
  have "cache_inv score used now entry (cached_step api cache e w)"
    using Cons.prems plain_inv[OF assms(1,2)] read_inv[OF assms(1,2)]
    by (cases e) (auto simp: cached_pauses_ok_def)
  with Cons show ?case by (simp add: cached_pauses_ok_def)
qed simp

text \<open>
  C29: The cached listing is never far behind: after any sequence of sales, pauses and cached reads that starts
  with an empty cache and unused quotas, it has for every registered snack a count that the snack has reached and
  from which the score is at most six seconds' worth of its rate away.
\<close>

theorem cached_listing_bounded:
  assumes "snack_laws api score used now" "cache_laws api cache score used now entry" "cached_pauses_ok es"
    and "entry w = None" "used w = (\<lambda>_. 0)" "snack_limit snack = Some limit"
  shows "\<exists>c. (snack, c) \<in> set (fst (get_leaderboard_cached api cache (cached_run api cache es w)))
    \<and> c \<le> score (cached_run api cache es w) snack
    \<and> score (cached_run api cache es w) snack \<le> c + 6 * limit"
proof -
  let ?w = "cached_run api cache es w"
  have "cache_inv score used now entry w"
    using assms(4,5) by (auto simp: cache_inv_def snack_limit_def split: if_splits)
  then have inv: "cache_inv score used now entry ?w" by (rule run_inv[OF assms(1-3)])
  obtain t where t: "now ?w < t + 5" and L: "lags score used now ?w (fst (get_leaderboard_cached api cache ?w)) t"
    using read_inv[OF assms(1,2) inv] by blast
  obtain c where c: "(snack, c) \<in> set (fst (get_leaderboard_cached api cache ?w))" "c \<le> score ?w snack"
    "score ?w snack + limit * \<lfloor>t\<rfloor> \<le> c + limit * \<lfloor>now ?w\<rfloor> + used ?w (scope_of snack)"
    using L assms(6) unfolding lags_def by blast
  have "\<lfloor>now ?w\<rfloor> \<le> \<lfloor>t\<rfloor> + 5" using t by linarith
  moreover have lim: "0 < limit" using assms(6) by (auto simp: snack_limit_def split: if_splits)
  ultimately have "limit * \<lfloor>now ?w\<rfloor> \<le> limit * (\<lfloor>t\<rfloor> + 5)" by (intro mult_left_mono) simp_all
  moreover have "used ?w (scope_of snack) \<le> limit" using inv assms(6) by (simp add: cache_inv_def)
  ultimately show ?thesis using c by (intro exI[of _ c]) (simp add: distrib_left)
qed


section \<open>A server with a cache\<close>

text \<open>The server of \<open>Snack_Bar\<close> with one cache entry.\<close>

type_synonym cached_server = "toy_server \<times> (listing \<times> rat) option"

definition cached_api :: "cached_server snack_api" where
  "cached_api =
     \<lparr>sb_per_second = sb_per_second toy_api,
      sb_hit = (\<lambda>w i l win s. (fst (sb_hit toy_api (fst w) i l win s), (snd (sb_hit toy_api (fst w) i l win s), snd w))),
      sb_zincrby = (\<lambda>w k d m. (sb_zincrby toy_api (fst w) k d m, snd w)),
      sb_zmscore = (\<lambda>w k ms. sb_zmscore toy_api (fst w) k ms),
      sb_sleep = (\<lambda>w d. (sb_sleep toy_api (fst w) d, snd w))\<rparr>"

definition toy_cache :: "cached_server cache_api" where
  "toy_cache ttl handler w =
     (let fresh = (handler w, (fst w, Some (handler w, ts_now (fst w))))
      in case snd w of
           Some (v, t) \<Rightarrow> if ts_now (fst w) < t + of_int ttl then (v, w) else fresh
         | None \<Rightarrow> fresh)"

lemma cached_snack_laws: "snack_laws cached_api (ts_scores \<circ> fst) (ts_used \<circ> fst) (ts_now \<circ> fst)"
  by (auto simp: snack_laws_def cached_api_def toy_api_def fun_eq_iff)

lemma toy_cache_laws: "cache_laws cached_api toy_cache (ts_scores \<circ> fst) (ts_used \<circ> fst) (ts_now \<circ> fst) snd"
  by (auto simp: cache_laws_def cached_api_def toy_cache_def Let_def split: option.split)

theorem cached_listing_bounded_witness:
  "fst (get_leaderboard_cached cached_api toy_cache (cached_run cached_api toy_cache
      [ReadCached, Plain (ESell ''Apples''), Plain (ESleep 2), Plain (ESell ''Apples'')] (toy_start, None)))
    = [(''Apples'', 0), (''Bananas'', 0), (''Ice-Cream'', 0)]
   \<and> (\<exists>c. ts_scores (fst (cached_run cached_api toy_cache
      [ReadCached, Plain (ESell ''Apples''), Plain (ESleep 2), Plain (ESell ''Apples'')] (toy_start, None))) ''Apples'' \<le> c + 6 * 1)"
proof -
  let ?es = "[ReadCached, Plain (ESell ''Apples''), Plain (ESleep 2), Plain (ESell ''Apples'')]"
  have ok: "cached_pauses_ok ?es" by (simp add: cached_pauses_ok_def)
  have start: "snd (toy_start, None :: (listing \<times> rat) option) = None" "(ts_used \<circ> fst) (toy_start, None :: (listing \<times> rat) option) = (\<lambda>_. 0)"
    by (simp_all add: toy_start_def)
  have "snack_limit ''Apples'' = Some 1" by (simp add: snack_limit_def)
  from cached_listing_bounded[OF cached_snack_laws toy_cache_laws ok start this]
  have "\<exists>c. (ts_scores \<circ> fst) (cached_run cached_api toy_cache ?es (toy_start, None)) ''Apples'' \<le> c + 6 * 1" by blast
  moreover have "fst (get_leaderboard_cached cached_api toy_cache (cached_run cached_api toy_cache ?es (toy_start, None)))
      = [(''Apples'', 0), (''Bananas'', 0), (''Ice-Cream'', 0)]" by code_simp
  ultimately show ?thesis by simp
qed

end
