(* ===== verification/Iso_Time.thy ===== *)
theory Iso_Time
  imports Slots_Golden
begin

text \<open>
  The texts \<open>fqdnrules/correlate_iowait.py\<close> reads: regular expressions as matchers with their order of
  preference, and the timestamps, \<open>ISO_RE\<close> and \<open>parse_iso\<close>, with the part of Python's \<open>datetime\<close> they
  rest on.
\<close>

section \<open>Matchers\<close>

text \<open>
  A matcher takes what follows as a continuation and returns the first success in the order in which a
  backtracking engine tries: a greedy repetition the longest first, a lazy one the shortest first.
\<close>

fun first_some :: "('a \<Rightarrow> 'b option) \<Rightarrow> 'a list \<Rightarrow> 'b option" where
  "first_some f [] = None"
| "first_some f (x # xs) = (case f x of None \<Rightarrow> first_some f xs | Some y \<Rightarrow> Some y)"

definition greedy :: "(char \<Rightarrow> bool) \<Rightarrow> nat \<Rightarrow> (string \<Rightarrow> string \<Rightarrow> 'a option) \<Rightarrow> string \<Rightarrow> 'a option" where
  "greedy p lo k s =
     first_some (\<lambda>i. k (take i s) (drop i s)) (rev [lo..<Suc (length (takeWhile p s))])"

definition lazy :: "(char \<Rightarrow> bool) \<Rightarrow> nat \<Rightarrow> (string \<Rightarrow> string \<Rightarrow> 'a option) \<Rightarrow> string \<Rightarrow> 'a option" where
  "lazy p lo k s =
     first_some (\<lambda>i. k (take i s) (drop i s)) [lo..<Suc (length (takeWhile p s))]"

definition literal :: "string \<Rightarrow> (string \<Rightarrow> 'a option) \<Rightarrow> string \<Rightarrow> 'a option" where
  "literal w k s = (if starts_with w s then k (drop (length w) s) else None)"

text \<open>Exactly \<open>n\<close> digits, as a number.\<close>

definition number :: "nat \<Rightarrow> (int \<Rightarrow> string \<Rightarrow> 'a option) \<Rightarrow> string \<Rightarrow> 'a option" where
  "number n k s =
     (if n \<le> length s \<and> list_all is_digit (take n s) then k (int (undec (take n s) 0)) (drop n s) else None)"

lemma literal_append [simp]: "literal w k (w @ s) = k s"
  by (simp add: literal_def starts_with_iff)

lemma greedy_longest:
  assumes "list_all p u" "rest = [] \<or> \<not> p (hd rest)" "lo \<le> length u" "k u rest = Some r"
  shows "greedy p lo k (u @ rest) = Some r"
proof -
  have "takeWhile p rest = []" using assms(2) by (cases rest) auto
  then have "takeWhile p (u @ rest) = u" using assms(1) by (simp add: list_all_iff takeWhile_append)
  then show ?thesis using assms(3,4) by (simp add: greedy_def)
qed

lemma first_some_skip:
  "(\<And>x. x \<in> set xs \<Longrightarrow> f x = None) \<Longrightarrow> first_some f (xs @ ys) = first_some f ys"
  by (induction xs) auto

lemma first_some_None: "(\<And>x. x \<in> set xs \<Longrightarrow> f x = None) \<Longrightarrow> first_some f xs = None"
  by (induction xs) auto

lemma greedy_none:
  assumes "\<And>i. lo \<le> i \<Longrightarrow> i \<le> length (takeWhile p s) \<Longrightarrow> k (take i s) (drop i s) = None"
  shows "greedy p lo k s = None"
  unfolding greedy_def by (rule first_some_None) (auto intro: assms)

lemma lazy_shortest:
  assumes "list_all p u" "lo \<le> length u" "k u rest = Some r"
    and "\<And>i. lo \<le> i \<Longrightarrow> i < length u \<Longrightarrow> k (take i u) (drop i u @ rest) = None"
  shows "lazy p lo k (u @ rest) = Some r"
proof -
  let ?n = "length (takeWhile p (u @ rest))"
  have le: "length u \<le> ?n" using assms(1) by (simp add: list_all_iff takeWhile_append)
  obtain c where c: "Suc ?n = length u + Suc c" using le less_iff_Suc_add[of "length u" "Suc ?n"] by auto
  have e: "[lo..<Suc ?n] = [lo..<length u] @ length u # [Suc (length u)..<Suc ?n]"
    unfolding c upt_add_eq_append[OF assms(2)] by (simp add: upt_conv_Cons)
  have "first_some (\<lambda>i. k (take i (u @ rest)) (drop i (u @ rest))) ([lo..<length u] @ length u # [Suc (length u)..<Suc ?n])
      = first_some (\<lambda>i. k (take i (u @ rest)) (drop i (u @ rest))) (length u # [Suc (length u)..<Suc ?n])"
    by (rule first_some_skip) (use assms(4) in auto)
  then show ?thesis unfolding lazy_def e using assms(3) by simp
qed


section \<open>Dates and times\<close>

record datetime =
  dt_year :: int
  dt_month :: int
  dt_day :: int
  dt_hour :: int
  dt_minute :: int
  dt_second :: int
  dt_micro :: int
  dt_offset :: "int option"

text \<open>The offset is in microseconds; a naive datetime has none.\<close>

definition is_leap :: "int \<Rightarrow> bool" where
  "is_leap y \<longleftrightarrow> y mod 4 = 0 \<and> (y mod 100 \<noteq> 0 \<or> y mod 400 = 0)"

definition days_in_month :: "int \<Rightarrow> int \<Rightarrow> int" where
  "days_in_month y m =
     (if m = 2 then (if is_leap y then 29 else 28) else if m \<in> {4, 6, 9, 11} then 30 else 31)"

definition valid_fields :: "datetime \<Rightarrow> bool" where
  "valid_fields d \<longleftrightarrow>
     1 \<le> dt_year d \<and> dt_year d \<le> 9999 \<and> 1 \<le> dt_month d \<and> dt_month d \<le> 12
     \<and> 1 \<le> dt_day d \<and> dt_day d \<le> days_in_month (dt_year d) (dt_month d)
     \<and> 0 \<le> dt_hour d \<and> dt_hour d \<le> 23 \<and> 0 \<le> dt_minute d \<and> dt_minute d \<le> 59
     \<and> 0 \<le> dt_second d \<and> dt_second d \<le> 59 \<and> 0 \<le> dt_micro d \<and> dt_micro d \<le> 999999"

text \<open>Days since the start of year 1, and microseconds, local and in UTC.\<close>

definition day_number :: "int \<Rightarrow> int \<Rightarrow> int \<Rightarrow> int" where
  "day_number y m d =
     (y - 1) * 365 + (y - 1) div 4 - (y - 1) div 100 + (y - 1) div 400
     + sum_list (map (days_in_month y) [1..m - 1]) + d"

definition local_micros :: "datetime \<Rightarrow> int" where
  "local_micros d =
     ((day_number (dt_year d) (dt_month d) (dt_day d) * 86400
       + dt_hour d * 3600 + dt_minute d * 60 + dt_second d) * 1000000) + dt_micro d"

text \<open>\<open>a - b\<close> in microseconds: a naive and an aware datetime cannot be subtracted.\<close>

definition diff_micros :: "datetime \<Rightarrow> datetime \<Rightarrow> int result" where
  "diff_micros a b =
     (case (dt_offset a, dt_offset b) of
        (None, None) \<Rightarrow> Inr (local_micros a - local_micros b)
      | (Some x, Some y) \<Rightarrow> Inr ((local_micros a - x) - (local_micros b - y))
      | _ \<Rightarrow> Inl (TypeError ''offset-naive and offset-aware''))"

text \<open>\<open>d.isoformat()\<close>.\<close>

definition padded :: "nat \<Rightarrow> int \<Rightarrow> string" where
  "padded k n = replicate (k - length (py_str n)) (CHR ''0'') @ py_str n"

definition offset_text :: "int \<Rightarrow> string" where
  "offset_text off =
     (let a = \<bar>off\<bar>; s = a div 1000000; us = a mod 1000000
      in (if off < 0 then ''-'' else ''+'') @ padded 2 (s div 3600) @ '':'' @ padded 2 (s div 60 mod 60)
         @ (if s mod 60 = 0 \<and> us = 0 then [] else '':'' @ padded 2 (s mod 60))
         @ (if us = 0 then [] else ''.'' @ padded 6 us))"

definition isoformat :: "datetime \<Rightarrow> string" where
  "isoformat d =
     padded 4 (dt_year d) @ ''-'' @ padded 2 (dt_month d) @ ''-'' @ padded 2 (dt_day d)
     @ ''T'' @ padded 2 (dt_hour d) @ '':'' @ padded 2 (dt_minute d) @ '':'' @ padded 2 (dt_second d)
     @ (if dt_micro d = 0 then [] else ''.'' @ padded 6 (dt_micro d))
     @ (case dt_offset d of None \<Rightarrow> [] | Some off \<Rightarrow> offset_text off)"


section \<open>Reading a timestamp\<close>

text \<open>\<open>ISO_RE\<close>: the fields of \<open>base\<close>, its fraction, and sign, hours and minutes of the offset.\<close>

definition iso_offset :: "datetime \<Rightarrow> string option \<Rightarrow> string
    \<Rightarrow> (datetime \<times> string option \<times> bool \<times> int \<times> int) option" where
  "iso_offset d fraction s =
     (case s of
        c # s1 \<Rightarrow>
          if c = CHR ''+'' \<or> c = CHR ''-'' then
            number 2 (\<lambda>oh s2. number 2 (\<lambda>om s3. if s3 = [] then Some (d, fraction, c = CHR ''-'', oh, om) else None)
              (if starts_with '':'' s2 then drop 1 s2 else s2)) s1
          else None
      | [] \<Rightarrow> None)"

definition ISO_RE :: "string \<Rightarrow> (datetime \<times> string option \<times> bool \<times> int \<times> int) option" where
  "ISO_RE =
     number 4 (\<lambda>y. literal ''-'' (number 2 (\<lambda>mo. literal ''-'' (number 2 (\<lambda>da. literal ''T''
     (number 2 (\<lambda>h. literal '':'' (number 2 (\<lambda>mi. literal '':'' (number 2 (\<lambda>se s.
       let d = \<lparr>dt_year = y, dt_month = mo, dt_day = da, dt_hour = h, dt_minute = mi, dt_second = se,
                dt_micro = 0, dt_offset = None\<rparr>
       in case s of
            c # s1 \<Rightarrow>
              if c = CHR ''.'' then greedy is_digit 1 (\<lambda>ds. iso_offset d (Some ds)) s1
              else iso_offset d None s
          | [] \<Rightarrow> None)))))))))))"

text \<open>
  \<open>datetime.fromisoformat(base)\<close>: the fraction has three or six digits up to Python 3.10 and any number
  of digits, cut or filled to six, from 3.11 on (\<open>lenient\<close>).
\<close>

definition fraction_micros :: "bool \<Rightarrow> string option \<Rightarrow> int result" where
  "fraction_micros lenient fraction =
     (case fraction of
        None \<Rightarrow> Inr 0
      | Some ds \<Rightarrow>
          if lenient \<or> length ds = 3 \<or> length ds = 6 then Inr (int (undec (take 6 (ds @ ''000000'')) 0))
          else Inl (ValueError ''isoformat''))"

text \<open>
  \<open>parse_iso\<close>. What \<open>datetime.fromisoformat\<close> does with a text of any other form depends on the Python
  version; it is the argument \<open>other\<close>.
\<close>

definition parse_iso :: "bool \<Rightarrow> (string \<Rightarrow> datetime result) \<Rightarrow> string \<Rightarrow> datetime result" where
  "parse_iso lenient other ts =
     (case ISO_RE (strip ts) of
        None \<Rightarrow> other (strip ts)
      | Some (d, fraction, neg, oh, om) \<Rightarrow>
          bindR (fraction_micros lenient fraction) (\<lambda>us.
            let base = d\<lparr>dt_micro := us\<rparr>;
                delta = (oh * 60 + om) * 60000000;
                off = (if neg then - delta else delta)
            in if \<not> valid_fields base then Inl (ValueError ''isoformat'')
               else if delta < 86400000000 then Inr (base\<lparr>dt_offset := Some off\<rparr>)
               else Inl (ValueError ''timezone'')))"


section \<open>What is printed is read back\<close>

lemma length_dec: "n < 10 ^ Suc k \<Longrightarrow> length (dec n) \<le> Suc k"
proof (induction k arbitrary: n)
  case 0
  then show ?case by (simp add: dec.simps[of n])
next
  case (Suc k)
  then have "length (dec (n div 10)) \<le> Suc k" by (intro Suc.IH) auto
  then show ?case by (simp add: dec.simps[of n])
qed

lemma undec_zeros: "undec (replicate k (CHR ''0'') @ s) 0 = undec s 0"
  by (induction k) auto

lemma padded_facts:
  assumes "0 \<le> n" "n < 10 ^ k" "0 < k"
  shows "length (padded k n) = k" "list_all is_digit (padded k n)" "int (undec (padded k n) 0) = n"
proof -
  have p: "py_str n = dec (nat n)" using assms(1) by (simp add: py_str_def)
  obtain j where j: "k = Suc j" using assms(3) by (cases k) auto
  have "nat n < 10 ^ Suc j" using assms(1,2) by (simp add: nat_less_iff j)
  from length_dec[OF this] show "length (padded k n) = k" by (simp add: padded_def p j)
  show "list_all is_digit (padded k n)"
    using dec_digits by (auto simp: padded_def p list_all_iff is_digit_def)
  show "int (undec (padded k n) 0) = n" using assms(1) by (simp add: padded_def undec_zeros p)
qed

lemma number_padded:
  "0 \<le> n \<Longrightarrow> n < 10 ^ k \<Longrightarrow> 0 < k \<Longrightarrow> number k f (padded k n @ s) = f n s"
  using padded_facts[of n k] by (simp add: number_def)

lemma padded_not_space: "0 \<le> n \<Longrightarrow> c \<in> set (padded k n) \<Longrightarrow> \<not> is_space c"
  using dec_digits[of c "nat n"] is_digit_not_space
  by (auto simp: padded_def py_str_def) (simp add: is_space_def Let_def)

lemma offset_text_minutes:
  "offset_text (60000000 * m) =
     (if m < 0 then ''-'' else ''+'') @ padded 2 (\<bar>m\<bar> div 60) @ '':'' @ padded 2 (\<bar>m\<bar> mod 60)"
proof -
  have a: "\<bar>60000000 * m\<bar> = 1000000 * (60 * \<bar>m\<bar>)" by (simp add: abs_mult)
  have "60 * \<bar>m\<bar> div 3600 = \<bar>m\<bar> div 60" using div_mult_mult1[of 60 "\<bar>m\<bar>" 60] by simp
  then show ?thesis unfolding offset_text_def a Let_def by simp
qed

lemma iso_offset_minutes:
  assumes "\<bar>m\<bar> < 1440"
  shows "iso_offset d fr (offset_text (60000000 * m)) = Some (d, fr, m < 0, \<bar>m\<bar> div 60, \<bar>m\<bar> mod 60)"
proof -
  define a where "a = \<bar>m\<bar>"
  have h: "0 \<le> a div 60" "a div 60 < 10 ^ 2" "0 \<le> a mod 60" "a mod 60 < 10 ^ 2"
    using assms pos_mod_bound[of 60 "a"] by (auto simp: a_def)
  let ?hh = "padded 2 (a div 60)" and ?mm = "padded 2 (a mod 60)"
  have n2: "number 2 (\<lambda>om s3. if s3 = [] then Some (d, fr, b, a div 60, om) else None) ?mm
      = Some (d, fr, b, a div 60, a mod 60)" for b
    using number_padded[OF h(3,4), of "\<lambda>om s3. if s3 = [] then Some (d, fr, b, a div 60, om) else None" "[]"]
    by simp
  have n1: "number 2 (\<lambda>oh s2. number 2 (\<lambda>om s3. if s3 = [] then Some (d, fr, b, oh, om) else None)
        (if starts_with '':'' s2 then drop 1 s2 else s2)) (?hh @ '':'' @ ?mm)
      = Some (d, fr, b, a div 60, a mod 60)" for b
    unfolding number_padded[OF h(1,2) zero_less_numeral] using n2[of b] by simp
  show ?thesis
    unfolding offset_text_minutes iso_offset_def a_def[symmetric]
    by (cases "m < 0") (use n1[of "CHR ''-'' = CHR ''-''"] n1[of "CHR ''+'' = CHR ''-''"] in simp_all)
qed

lemma strip_isoformat:
  assumes "valid_fields d" "dt_offset d = Some (60000000 * m)"
  shows "strip (isoformat d) = isoformat d"
proof (rule strip_id)
  have p: "\<not> is_space (CHR ''-'')" "\<not> is_space (CHR '':'')" "\<not> is_space (CHR ''T'')" "\<not> is_space (CHR ''.'')"
    "\<not> is_space (CHR ''+'')" by code_simp+
  have m: "0 \<le> \<bar>m\<bar> div 60" "0 \<le> \<bar>m\<bar> mod 60" by simp_all
  fix c assume "c \<in> set (isoformat d)"
  then show "\<not> is_space c"
    using p assms(1) padded_not_space[OF m(1)] padded_not_space[OF m(2)]
    unfolding isoformat_def assms(2) option.case offset_text_minutes valid_fields_def
    by (auto split: if_splits dest: padded_not_space[rotated])
qed

lemma days_in_month_le: "days_in_month y m \<le> 31"
  by (simp add: days_in_month_def)

lemma ISO_RE_isoformat:
  assumes "valid_fields d" "dt_offset d = Some (60000000 * m)" "\<bar>m\<bar> < 1440"
  shows "ISO_RE (isoformat d) = Some (d\<lparr>dt_micro := 0, dt_offset := None\<rparr>,
      (if dt_micro d = 0 then None else Some (padded 6 (dt_micro d))), m < 0, \<bar>m\<bar> div 60, \<bar>m\<bar> mod 60)"
proof -
  have y: "0 \<le> dt_year d" "dt_year d < 10 ^ 4" and mo: "0 \<le> dt_month d" "dt_month d < 10 ^ 2"
    and da: "0 \<le> dt_day d" "dt_day d < 10 ^ 2" and h: "0 \<le> dt_hour d" "dt_hour d < 10 ^ 2"
    and mi: "0 \<le> dt_minute d" "dt_minute d < 10 ^ 2" and se: "0 \<le> dt_second d" "dt_second d < 10 ^ 2"
    and us: "0 \<le> dt_micro d" "dt_micro d < 10 ^ 6"
    using assms(1) days_in_month_le[of "dt_year d" "dt_month d"] by (auto simp: valid_fields_def)
  note n = number_padded[OF y zero_less_numeral] number_padded[OF mo zero_less_numeral]
    number_padded[OF da zero_less_numeral] number_padded[OF h zero_less_numeral]
    number_padded[OF mi zero_less_numeral] number_padded[OF se zero_less_numeral]
  let ?d0 = "\<lparr>dt_year = dt_year d, dt_month = dt_month d, dt_day = dt_day d, dt_hour = dt_hour d,
      dt_minute = dt_minute d, dt_second = dt_second d, dt_micro = 0, dt_offset = None\<rparr>"
  have d0: "?d0 = d\<lparr>dt_micro := 0, dt_offset := None\<rparr>" by simp
  let ?off = "offset_text (60000000 * m)"
  obtain c t where off: "?off = c # t" "\<not> is_digit c" "c \<noteq> CHR ''.''"
    unfolding offset_text_minutes by (cases "m < 0") (auto simp: is_digit_def)
  show ?thesis
  proof (cases "dt_micro d = 0")
    case True
    have cs: "(case ?off of [] \<Rightarrow> None | c # s1 \<Rightarrow> if c = CHR ''.'' then g s1 else h) = h"
      for g and h :: "(datetime \<times> string option \<times> bool \<times> int \<times> int) option"
      using off by simp
    show ?thesis
      unfolding d0[symmetric] isoformat_def ISO_RE_def n literal_append assms(2) option.case Let_def
      by (simp add: cs True iso_offset_minutes[OF assms(3)])
  next
    case False
    note f = padded_facts[OF us zero_less_numeral]
    have "greedy is_digit 1 (\<lambda>ds. iso_offset ?d0 (Some ds)) (padded 6 (dt_micro d) @ ?off)
        = Some (?d0, Some (padded 6 (dt_micro d)), m < 0, \<bar>m\<bar> div 60, \<bar>m\<bar> mod 60)"
      by (rule greedy_longest) (use f off iso_offset_minutes[OF assms(3), of ?d0] in simp_all)
    then show ?thesis
      unfolding d0[symmetric] isoformat_def ISO_RE_def n literal_append assms(2) option.case Let_def
      using False by simp
  qed
qed

lemma parse_iso_isoformat:
  assumes "valid_fields d" "dt_offset d = Some (60000000 * m)" "\<bar>m\<bar> < 1440"
  shows "parse_iso lenient other (isoformat d) = Inr d"
proof -
  have us: "0 \<le> dt_micro d" "dt_micro d < 10 ^ 6" using assms(1) by (auto simp: valid_fields_def)
  note f = padded_facts[OF us zero_less_numeral]
  have fr: "fraction_micros lenient (if dt_micro d = 0 then None else Some (padded 6 (dt_micro d))) = Inr (dt_micro d)"
    using f by (simp add: fraction_micros_def)
  have "\<bar>m\<bar> div 60 * 60 + \<bar>m\<bar> mod 60 = \<bar>m\<bar>" by simp
  then have delta: "(\<bar>m\<bar> div 60 * 60 + \<bar>m\<bar> mod 60) * 60000000 = 60000000 * \<bar>m\<bar>" by (simp only: mult.commute)
  have v: "d\<lparr>dt_micro := 0, dt_offset := None, dt_micro := dt_micro d\<rparr> = d\<lparr>dt_offset := None\<rparr>"
    "valid_fields (d\<lparr>dt_offset := None\<rparr>)" "d\<lparr>dt_offset := None, dt_offset := Some (60000000 * m)\<rparr> = d"
    using assms(1,2) by (simp_all add: valid_fields_def)
  have "(if m < 0 then - (60000000 * \<bar>m\<bar>) else 60000000 * \<bar>m\<bar>) = 60000000 * m" by simp
  then show ?thesis
    unfolding parse_iso_def strip_isoformat[OF assms(1,2)] ISO_RE_isoformat[OF assms] option.case prod.case fr
      bindR.simps Let_def delta v(1)
    using v(2,3) assms(3) by simp
qed

text \<open>
  C26: Timestamps survive the round trip: what \<open>isoformat\<close> prints for any valid time with an offset of
  whole minutes, \<open>parse_iso\<close> reads back, the fraction included, with every supported Python version.
\<close>

theorem timestamp_roundtrip:
  assumes "valid_fields d" "dt_offset d = Some (60000000 * m)" "\<bar>m\<bar> < 1440"
  shows "parse_iso lenient other (isoformat d) = Inr d"
  using assms by (rule parse_iso_isoformat)

theorem timestamp_roundtrip_witness:
  "parse_iso False (\<lambda>s. Inl (ValueError s)) ''2024-02-29T23:59:58.001500-05:30''
    = Inr \<lparr>dt_year = 2024, dt_month = 2, dt_day = 29, dt_hour = 23, dt_minute = 59, dt_second = 58,
        dt_micro = 1500, dt_offset = Some (- 19800000000)\<rparr>"
proof -
  let ?d = "\<lparr>dt_year = 2024, dt_month = 2, dt_day = 29, dt_hour = 23, dt_minute = 59, dt_second = 58,
        dt_micro = 1500, dt_offset = Some (- 19800000000)\<rparr>"
  have "valid_fields ?d" "dt_offset ?d = Some (60000000 * (- 330))" "\<bar>- 330 :: int\<bar> < 1440" by code_simp+
  moreover have "isoformat ?d = ''2024-02-29T23:59:58.001500-05:30''" by code_simp
  ultimately show ?thesis using timestamp_roundtrip[of ?d "- 330" False "\<lambda>s. Inl (ValueError s)"] by simp
qed

end
