(* ===== verification/Diag_Iowait.thy ===== *)
theory Diag_Iowait
  imports Iso_Time Diag_Cpu
begin

text \<open>
  \<open>fqdnrules/correlate_iowait.py\<close>: the slow rows of the benchmark's report, the samples of \<open>iostat\<close>, and
  the report that lines them up.  The two logs are arguments. The slow rows are read back from the report as the Go
  benchmark prints it, with the lines between its rows.
\<close>

section \<open>Lines\<close>

text \<open>\<open>s.splitlines()\<close>: a carriage return and a line feed are one line end, and a last line end adds nothing.\<close>

definition is_line_end :: "char \<Rightarrow> bool" where
  "is_line_end c = (let n = ord c in (10 \<le> n \<and> n \<le> 13) \<or> (28 \<le> n \<and> n \<le> 30) \<or> n = 133)"

fun splitlines_from :: "string \<Rightarrow> string \<Rightarrow> string list" where
  "splitlines_from line [] = (if line = [] then [] else [line])"
| "splitlines_from line (c # s) =
     (if c = CHR 0x0D \<and> starts_with [CHR 0x0A] s then line # splitlines_from [] (tl s)
      else if is_line_end c then line # splitlines_from [] s
      else splitlines_from (line @ [c]) s)"

definition splitlines :: "string \<Rightarrow> string list" where
  "splitlines s = splitlines_from [] s"


section \<open>The slow queries\<close>

record slow_query =
  sq_rank :: int
  sq_timestamp :: datetime
  sq_latency_ms :: pyfloat
  sq_op :: string
  sq_detail :: string

text \<open>\<open>^=== Top \d+ slowest queries\<close>.\<close>

definition TOP_SLOW_HEADER_RE :: "string \<Rightarrow> bool" where
  "TOP_SLOW_HEADER_RE line =
     (literal ''=== Top '' (greedy is_digit 1 (\<lambda>_. literal '' slowest queries'' (\<lambda>_. Some ()))) line = Some ())"

text \<open>\<open>fqdn1=.*$\<close>: to the end of the line.\<close>

definition row_detail :: "string \<Rightarrow> string option" where
  "row_detail s =
     (let d = takeWhile (\<lambda>c. c \<noteq> CHR 0x0A) s
      in if starts_with ''fqdn1='' s \<and> (drop (length d) s = [] \<or> drop (length d) s = [CHR 0x0A]) then Some d else None)"

definition row_tail :: "string \<Rightarrow> (string \<times> string) option" where
  "row_tail = lazy (\<lambda>c. c \<noteq> CHR 0x0A) 1 (\<lambda>op. greedy is_space 1 (\<lambda>_ s. map_option (\<lambda>d. (op, d)) (row_detail s)))"

text \<open>
  \<open>^\s*(?P<rank>\d+)\.\s+(?P<ts>\S+)\s+(?P<lat>[\d.]+)ms\s+(?P<op>.+?)\s+(?P<detail>fqdn1=.*)$\<close>.
\<close>

definition TOP_SLOW_ROW_RE :: "string \<Rightarrow> (string \<times> string \<times> string \<times> string \<times> string) option" where
  "TOP_SLOW_ROW_RE =
     greedy is_space 0 (\<lambda>_. greedy is_digit 1 (\<lambda>rank. literal ''.'' (greedy is_space 1 (\<lambda>_.
     greedy (\<lambda>c. \<not> is_space c) 1 (\<lambda>ts. greedy is_space 1 (\<lambda>_.
     greedy (\<lambda>c. is_digit c \<or> c = CHR ''.'') 1 (\<lambda>lat. literal ''ms'' (greedy is_space 1 (\<lambda>_ s.
       map_option (\<lambda>(op, detail). (rank, ts, lat, op, detail)) (row_tail s))))))))))"

definition slow_row :: "bool \<Rightarrow> (string \<Rightarrow> datetime result) \<Rightarrow> string \<times> string \<times> string \<times> string \<times> string
    \<Rightarrow> slow_query result" where
  "slow_row lenient other m =
     (case m of (rank, ts, lat, op, detail) \<Rightarrow>
        bindR (py_int rank) (\<lambda>r. bindR (parse_iso lenient other ts) (\<lambda>t. bindR (py_float lat) (\<lambda>l.
          Inr \<lparr>sq_rank = r, sq_timestamp = t, sq_latency_ms = l, sq_op = op, sq_detail = strip detail\<rparr>))))"

text \<open>The loop over the lines, with the flag \<open>in_section\<close>.\<close>

fun slow_lines :: "bool \<Rightarrow> (string \<Rightarrow> datetime result) \<Rightarrow> bool \<Rightarrow> string list \<Rightarrow> slow_query list result" where
  "slow_lines lenient other in_section [] = Inr []"
| "slow_lines lenient other in_section (line # rest) =
     (if TOP_SLOW_HEADER_RE line then slow_lines lenient other True rest
      else if \<not> in_section then slow_lines lenient other in_section rest
      else if starts_with ''==='' line then Inr []
      else
        let stripped = strip line in
        if stripped = [] \<or> starts_with ''keys:'' stripped \<or> starts_with ''('' stripped then
          slow_lines lenient other in_section rest
        else case TOP_SLOW_ROW_RE line of
          None \<Rightarrow> slow_lines lenient other in_section rest
        | Some m \<Rightarrow> bindR (slow_row lenient other m) (\<lambda>q.
            bindR (slow_lines lenient other in_section rest) (\<lambda>qs. Inr (q # qs))))"

definition parse_top_slow :: "bool \<Rightarrow> (string \<Rightarrow> datetime result) \<Rightarrow> string \<Rightarrow> slow_query list result" where
  "parse_top_slow lenient other benchmark_log = slow_lines lenient other False (splitlines benchmark_log)"


section \<open>The samples\<close>

record iostat_sample =
  is_timestamp :: datetime
  is_iowait_pct :: pyfloat
  is_devices :: "(string \<times> pyfloat \<times> pyfloat) list"

datatype iostat_mode = NoMode | CpuHeader | DevRows

text \<open>The current sample is the last one of the list; there is none before the first timestamp.\<close>

record iostat_state =
  io_samples :: "iostat_sample list"
  io_mode :: iostat_mode
  io_dev_fields :: "string list"

definition update_current :: "(iostat_sample \<Rightarrow> iostat_sample) \<Rightarrow> iostat_sample list \<Rightarrow> iostat_sample list" where
  "update_current f samples = butlast samples @ [f (last samples)]"

definition float_or_zero :: "string option \<Rightarrow> pyfloat" where
  "float_or_zero s =
     (case s of None \<Rightarrow> Fin 0 | Some t \<Rightarrow> (case py_float t of Inl _ \<Rightarrow> Fin 0 | Inr x \<Rightarrow> x))"

text \<open>A row of the device table: name, utilisation and wait, found by the names of the columns.\<close>

definition device_row :: "string list \<Rightarrow> string list \<Rightarrow> iostat_sample \<Rightarrow> iostat_sample" where
  "device_row dev_fields parts s =
     (let field_map = map_of (rev (zip dev_fields parts));
          util = field_map ''%util'';
          await = (case field_map ''await'' of
                     Some a \<Rightarrow> (if a \<noteq> [] then Some a else field_map ''r_await'')
                   | None \<Rightarrow> field_map ''r_await'')
      in s\<lparr>is_devices := AList.update (hd parts) (float_or_zero util, float_or_zero await) (is_devices s)\<rparr>)"

definition cpu_row :: "string list \<Rightarrow> iostat_sample \<Rightarrow> iostat_sample" where
  "cpu_row parts s =
     (case bindR (item parts 3) py_float of Inl _ \<Rightarrow> s | Inr x \<Rightarrow> s\<lparr>is_iowait_pct := x\<rparr>)"

text \<open>
  One line. A text that is no timestamp raises ValueError inside, which is caught; another error would
  get out.
\<close>

definition iostat_line ::
  "bool \<Rightarrow> (string \<Rightarrow> datetime result) \<Rightarrow> iostat_state \<Rightarrow> string \<Rightarrow> iostat_state result" where
  "iostat_line lenient other st raw =
     (let line = rstrip_by is_space raw in
      if line = [] then Inr st
      else case parse_iso lenient other line of
        Inr ts \<Rightarrow> Inr (st\<lparr>io_samples := io_samples st @ [\<lparr>is_timestamp = ts, is_iowait_pct = Fin 0, is_devices = []\<rparr>],
                       io_mode := NoMode\<rparr>)
      | Inl (ValueError _) \<Rightarrow>
          if io_samples st = [] then Inr st
          else if starts_with ''avg-cpu:'' line then Inr (st\<lparr>io_mode := CpuHeader\<rparr>)
          else if io_mode st = CpuHeader then
            Inr (st\<lparr>io_samples := update_current (cpu_row (words line)) (io_samples st), io_mode := NoMode\<rparr>)
          else if starts_with ''Device'' line then Inr (st\<lparr>io_dev_fields := words line, io_mode := DevRows\<rparr>)
          else if io_mode st = DevRows then
            (let parts = words line in
             if length parts < 2 then Inr st
             else Inr (st\<lparr>io_samples := update_current (device_row (io_dev_fields st) parts) (io_samples st)\<rparr>))
          else Inr st
      | Inl e \<Rightarrow> Inl e)"

fun iostat_lines ::
  "bool \<Rightarrow> (string \<Rightarrow> datetime result) \<Rightarrow> iostat_state \<Rightarrow> string list \<Rightarrow> iostat_state result" where
  "iostat_lines lenient other st [] = Inr st"
| "iostat_lines lenient other st (raw # rest) =
     bindR (iostat_line lenient other st raw) (\<lambda>st1. iostat_lines lenient other st1 rest)"

definition iostat_start :: iostat_state where
  "iostat_start = \<lparr>io_samples = [], io_mode = NoMode, io_dev_fields = []\<rparr>"

text \<open>The first report is cumulative since boot and is dropped when there is another one.\<close>

definition parse_iostat :: "bool \<Rightarrow> (string \<Rightarrow> datetime result) \<Rightarrow> string \<Rightarrow> iostat_sample list result" where
  "parse_iostat lenient other iostat_log =
     bindR (iostat_lines lenient other iostat_start (splitlines iostat_log)) (\<lambda>st.
       Inr (if length (io_samples st) > 1 then tl (io_samples st) else io_samples st))"


section \<open>Lining up\<close>

text \<open>\<open>abs((a - b).total_seconds())\<close>.\<close>

definition gap_seconds :: "datetime \<Rightarrow> datetime \<Rightarrow> rat result" where
  "gap_seconds a b = bindR (diff_micros a b) (\<lambda>us. Inr \<bar>fdiv (of_int us) 1000000\<bar>)"

definition closest_sample :: "iostat_sample list \<Rightarrow> datetime \<Rightarrow> iostat_sample option result" where
  "closest_sample samples ts =
     (if samples = [] then Inr None
      else bindR (mapR (\<lambda>s. bindR (gap_seconds (is_timestamp s) ts) (\<lambda>g. Inr (g, s))) samples)
             (\<lambda>gs. Inr (Some (snd (arg_min_list fst gs)))))"

text \<open>
  Sorting and comparing floats. Python's order is linear on the numbers and the infinities; where
  a NaN ends up in a sorted list is not specified by it, here it is put last.
\<close>

fun pf_less :: "pyfloat \<Rightarrow> pyfloat \<Rightarrow> bool" where
  "pf_less NaN _ = False"
| "pf_less _ NaN = True"
| "pf_less NegInf y = (y \<noteq> NegInf)"
| "pf_less x NegInf = False"
| "pf_less PosInf _ = False"
| "pf_less x PosInf = True"
| "pf_less (Fin a) (Fin b) = (a < b)"

instantiation pyfloat :: linorder
begin

definition less_pyfloat :: "pyfloat \<Rightarrow> pyfloat \<Rightarrow> bool" where
  "less_pyfloat = pf_less"

definition less_eq_pyfloat :: "pyfloat \<Rightarrow> pyfloat \<Rightarrow> bool" where
  "less_eq_pyfloat x y \<longleftrightarrow> x = y \<or> pf_less x y"

instance
proof
  fix x y z :: pyfloat
  show "x < y \<longleftrightarrow> x \<le> y \<and> \<not> y \<le> x"
    by (cases x; cases y) (auto simp: less_pyfloat_def less_eq_pyfloat_def)
  show "x \<le> x" by (simp add: less_eq_pyfloat_def)
  show "x \<le> y \<Longrightarrow> y \<le> z \<Longrightarrow> x \<le> z"
    by (cases x; cases y; cases z) (auto simp: less_eq_pyfloat_def)
  show "x \<le> y \<Longrightarrow> y \<le> x \<Longrightarrow> x = y"
    by (cases x; cases y) (auto simp: less_eq_pyfloat_def)
  show "x \<le> y \<or> y \<le> x"
    by (cases x; cases y) (auto simp: less_eq_pyfloat_def)
qed

end

text \<open>\<open>x >= y\<close>, false when one side is NaN.\<close>

definition pf_ge :: "pyfloat \<Rightarrow> pyfloat \<Rightarrow> bool" where
  "pf_ge x y \<longleftrightarrow> x \<noteq> NaN \<and> y \<noteq> NaN \<and> y \<le> x"

fun pf_fixed :: "nat \<Rightarrow> pyfloat \<Rightarrow> string" where
  "pf_fixed k (Fin x) = fixed_point k x"
| "pf_fixed k PosInf = ''inf''"
| "pf_fixed k NegInf = ''-inf''"
| "pf_fixed k NaN = ''nan''"

definition baseline_iowait :: "iostat_sample list \<Rightarrow> pyfloat" where
  "baseline_iowait samples =
     (let all_iowait = sort (map is_iowait_pct samples) in all_iowait ! (length all_iowait div 2))"

definition top_devices :: "iostat_sample \<Rightarrow> (string \<times> pyfloat \<times> pyfloat) list" where
  "top_devices s = take 3 (sort_key (\<lambda>kv. pf_neg (fst (snd kv))) (is_devices s))"

text \<open>The lines of one slow query. The delta sign before the gap is outside the code points modelled; it is written \<open>d\<close>.\<close>

definition query_lines :: "iostat_sample list \<Rightarrow> pyfloat \<Rightarrow> slow_query \<Rightarrow> string list result" where
  "query_lines samples alert q =
     bindR (closest_sample samples (sq_timestamp q)) (\<lambda>sample.
     let heading = pad_left 2 (py_str (sq_rank q)) @ ''. '' @ isoformat (sq_timestamp q) @ ''  ''
           @ pad_left 9 (pf_fixed 3 (sq_latency_ms q)) @ ''ms  '' @ pad_right 10 (sq_op q) @ '' '' @ sq_detail q
     in case sample of
          None \<Rightarrow> Inr [heading, ''      no iostat sample available'']
        | Some s \<Rightarrow>
            bindR (gap_seconds (is_timestamp s) (sq_timestamp q)) (\<lambda>gap.
            let flag = (if pf_ge (is_iowait_pct s) alert then ''  <-- ELEVATED IOWAIT'' else []);
                nearest = ''      nearest iostat sample @ '' @ isoformat (is_timestamp s) @ '' (d''
                  @ fixed_point 1 gap @ ''s): %iowait='' @ pf_fixed 1 (is_iowait_pct s) @ flag;
                devs = top_devices s
            in Inr ([heading, nearest]
              @ (if devs = [] then []
                 else [''      devices: '' @ join '', '' (map (\<lambda>(name, util, await).
                   name @ '' util='' @ pf_fixed 1 util @ ''% await='' @ pf_fixed 1 await @ ''ms'') devs)]))))"

text \<open>The benchmark's own arguments, after an optional \<open>--\<close>; none at all is an error of usage.\<close>

definition benchmark_args :: "string list \<Rightarrow> string list result" where
  "benchmark_args args =
     (let rest = (if args \<noteq> [] \<and> hd args = ''--'' then tl args else args)
      in if rest = [] then Inl (SystemExit ''usage'') else Inr rest)"

text \<open>The report on the two logs; \<open>log_path\<close> is the name of the second one as it is printed.\<close>

definition correlate ::
  "bool \<Rightarrow> (string \<Rightarrow> datetime result) \<Rightarrow> string list \<Rightarrow> string \<Rightarrow> string \<Rightarrow> pyfloat \<Rightarrow> string list result" where
  "correlate lenient other bench_lines iostat_log log_path alert =
     bindR (parse_top_slow lenient other (join [CHR 0x0A] bench_lines)) (\<lambda>slow_queries.
     bindR (parse_iostat lenient other iostat_log) (\<lambda>samples.
       if slow_queries = [] then
         Inr [CHR 0x0A # ''no '' @ [CHR 0x27] @ ''=== Top N slowest queries ==='' @ [CHR 0x27]
           @ '' rows found -- is this a benchmark build with the top-slow report, and did any query clear -slow-latency-gate (default 0, so this shouldn''
           @ [CHR 0x27] @ ''t normally happen)?'']
       else if samples = [] then
         Inr [CHR 0x0A # ''no iostat samples parsed -- check '' @ log_path]
       else
         bindR (mapR (query_lines samples alert) slow_queries) (\<lambda>out.
           Inr ((CHR 0x0A # ''=== iowait correlation (n='' @ py_str (int (length samples))
             @ '' samples, median %iowait over the run: '' @ pf_fixed 1 (baseline_iowait samples) @ '') ==='') # concat out))))"


section \<open>Reading the benchmark's rows\<close>

text \<open>A row as the Go benchmark prints it, \<open>%2d. %s  %9.3fms  %-10s fqdn1=...\<close>.\<close>

record report_row =
  rr_rank :: int
  rr_ts :: string
  rr_lat :: string
  rr_op :: string
  rr_rest :: string

definition row_text :: "report_row \<Rightarrow> string" where
  "row_text r =
     pad_left 2 (py_str (rr_rank r)) @ ''. '' @ rr_ts r @ ''  '' @ pad_left 9 (rr_lat r) @ ''ms  ''
     @ pad_right 10 (rr_op r) @ '' fqdn1='' @ rr_rest r"

definition row_groups :: "report_row \<Rightarrow> string \<times> string \<times> string \<times> string \<times> string" where
  "row_groups r = (py_str (rr_rank r), rr_ts r, rr_lat r, rr_op r, ''fqdn1='' @ rr_rest r)"

definition row_ok :: "report_row \<Rightarrow> bool" where
  "row_ok r \<longleftrightarrow>
     0 \<le> rr_rank r \<and> is_token (rr_ts r)
     \<and> rr_lat r \<noteq> [] \<and> list_all (\<lambda>c. is_digit c \<or> c = CHR ''.'') (rr_lat r)
     \<and> rr_op r \<noteq> [] \<and> \<not> is_space (last (rr_op r)) \<and> \<not> is_space (hd (rr_op r))
     \<and> list_all (\<lambda>c. c \<noteq> CHR 0x0A \<and> c \<noteq> CHR ''='') (rr_op r) \<and> CHR 0x0A \<notin> set (rr_rest r)"

lemma is_space_blank [simp]: "is_space (CHR '' '')"
  by code_simp

lemma row_detail_ok: "CHR 0x0A \<notin> set rest \<Longrightarrow> row_detail (''fqdn1='' @ rest) = Some (''fqdn1='' @ rest)"
proof -
  assume "CHR 0x0A \<notin> set rest"
  then have "\<forall>c\<in>set rest. c \<noteq> CHR 0x0A" by metis
  then have d: "takeWhile (\<lambda>c. c \<noteq> CHR 0x0A) (''fqdn1='' @ rest) = ''fqdn1='' @ rest"
    unfolding takeWhile_eq_all_conv by auto
  show ?thesis unfolding row_detail_def Let_def d by simp
qed

lemma row_detail_none:
  assumes "is_space b" "CHR ''='' \<notin> set u"
  shows "row_detail (u @ b # v) = None"
proof -
  have "\<not> starts_with ''fqdn1='' (u @ b # v)"
  proof
    assume "starts_with ''fqdn1='' (u @ b # v)"
    then obtain t where t: "u @ b # v = ''fqdn1='' @ t" by (auto simp: starts_with_iff)
    have w: "take 6 (u @ b # v) = ''fqdn1=''" unfolding t by simp
    show False
    proof (cases "length u < 6")
      case True
      then have "b \<in> set (take 6 (u @ b # v))" by (auto simp: take_Cons' )
      then have "b \<in> set ''fqdn1=''" unfolding w .
      moreover have "list_all (\<lambda>c. \<not> is_space c) ''fqdn1=''" by code_simp
      ultimately show False using assms(1) by (auto simp: list_all_iff)
    next
      case False
      then have "take 6 u = ''fqdn1=''" using w by simp
      then have "CHR ''='' \<in> set (take 6 u)" by simp
      then show False using assms(2) set_take_subset[of 6 u] by blast
    qed
  qed
  then show ?thesis by (simp add: row_detail_def Let_def)
qed

lemma takeWhile_last:
  assumes "u \<noteq> []" "\<not> p (last u)"
  shows "length (takeWhile p (u @ v)) < length u"
proof -
  have "last u \<in> set u" using assms(1) by simp
  then have "takeWhile p (u @ v) = takeWhile p u" using assms(2) by (metis takeWhile_append1)
  moreover have "takeWhile p u \<noteq> u" using assms by (metis last_in_set set_takeWhileD)
  ultimately show ?thesis
    by (metis length_takeWhile_le nat_less_le takeWhile_eq_take take_all)
qed

lemma row_tail_ok:
  assumes "op \<noteq> []" "\<not> is_space (last op)" "list_all (\<lambda>c. c \<noteq> CHR 0x0A \<and> c \<noteq> CHR ''='') op"
    and "CHR 0x0A \<notin> set rest"
  shows "row_tail (op @ replicate (Suc m) (CHR '' '') @ ''fqdn1='' @ rest) = Some (op, ''fqdn1='' @ rest)"
proof -
  let ?X = "replicate (Suc m) (CHR '' '') @ ''fqdn1='' @ rest"
  have X: "?X = CHR '' '' # replicate m (CHR '' '') @ ''fqdn1='' @ rest" by simp
  have f: "\<not> is_space (CHR ''f'')" by code_simp
  show ?thesis
    unfolding row_tail_def
  proof (rule lazy_shortest)
    show "list_all (\<lambda>c. c \<noteq> CHR 0x0A) op" using assms(3) by (auto simp: list_all_iff)
    show "1 \<le> length op" using assms(1) by (cases op) auto
    show "greedy is_space 1 (\<lambda>_ s. map_option (\<lambda>d. (op, d)) (row_detail s)) ?X = Some (op, ''fqdn1='' @ rest)"
      by (rule greedy_longest) (use f row_detail_ok[OF assms(4)] in \<open>auto simp: list_all_iff\<close>)
    fix i assume i: "1 \<le> i" "i < length op"
    let ?u = "drop i op"
    have u: "?u \<noteq> []" "\<not> is_space (last ?u)" using i assms(2) by simp_all
    show "greedy is_space 1 (\<lambda>_ s. map_option (\<lambda>d. (take i op, d)) (row_detail s)) (?u @ ?X) = None"
    proof (rule greedy_none)
      fix j assume "j \<le> length (takeWhile is_space (?u @ ?X))"
      then have j: "j < length ?u" using takeWhile_last[where p = is_space and v = ?X, OF u] by linarith
      then have d: "drop j (?u @ ?X) = drop j ?u @ CHR '' '' # replicate m (CHR '' '') @ ''fqdn1='' @ rest"
        by (simp add: X)
      have "CHR ''='' \<notin> set (drop j ?u)"
        using assms(3) set_drop_subset[of "j + i" op] by (auto simp: list_all_iff add.commute)
      from row_detail_none[OF is_space_blank this]
      show "map_option (\<lambda>d. (take i op, d)) (row_detail (drop j (?u @ ?X))) = None" unfolding d by simp
    qed
  qed
qed

lemma pad_right_blank: "pad_right k s @ '' '' @ t = s @ replicate (Suc (k - length s)) (CHR '' '') @ t"
  by (simp add: pad_right_def replicate_app_Cons_same)

lemma digits_py_str: "0 \<le> n \<Longrightarrow> list_all is_digit (py_str n)"
  using dec_digits by (auto simp: py_str_def list_all_iff)

lemma row_matches:
  assumes "row_ok r"
  shows "TOP_SLOW_ROW_RE (row_text r) = Some (row_groups r)"
proof -
  obtain rank ts lat op rest where r: "r = \<lparr>rr_rank = rank, rr_ts = ts, rr_lat = lat, rr_op = op, rr_rest = rest\<rparr>"
    by (cases r) auto
  have ok: "0 \<le> rank" "ts \<noteq> []" "list_all (\<lambda>c. \<not> is_space c) ts" "lat \<noteq> []"
    "list_all (\<lambda>c. is_digit c \<or> c = CHR ''.'') lat" "op \<noteq> []" "\<not> is_space (last op)" "\<not> is_space (hd op)"
    "list_all (\<lambda>c. c \<noteq> CHR 0x0A \<and> c \<noteq> CHR ''='') op" "CHR 0x0A \<notin> set rest"
    using assms by (simp_all add: row_ok_def r is_token_def)
  have dg: "list_all is_digit (py_str rank)" by (rule digits_py_str[OF ok(1)])
  have ne: "py_str rank \<noteq> []" using ok(1) by (simp add: py_str_def)
  have nsp: "\<not> is_space (hd (py_str rank))" using dg ne is_digit_not_space by (cases "py_str rank") auto
  have dot: "\<not> is_digit (CHR ''.'')" "\<not> is_space (CHR ''.'')" "\<not> (is_digit (CHR ''m'') \<or> CHR ''m'' = CHR ''.'')"
    by code_simp+
  have nlat: "\<not> is_space (hd lat)" using ok(4,5) dot(2) is_digit_not_space by (cases lat) auto
  have nts: "\<not> is_space (hd ts)" using ok(2,3) by (cases ts) auto
  let ?t9 = "op @ replicate (Suc (10 - length op)) (CHR '' '') @ ''fqdn1='' @ rest"
  note t9 = row_tail_ok[OF ok(6,7,9,10), of "10 - length op"]
  have row: "row_text r = replicate (2 - length (py_str rank)) (CHR '' '') @ py_str rank @ ''.'' @ '' '' @ ts
      @ ''  '' @ replicate (9 - length lat) (CHR '' '') @ lat @ ''ms'' @ ''  '' @ ?t9"
    by (simp add: row_text_def r pad_left_def pad_right_def replicate_app_Cons_same)
  have blanks: "list_all is_space (replicate k (CHR '' ''))" for k by (simp add: list_all_iff)
  have k6: "greedy is_space 1 (\<lambda>_ s. map_option (\<lambda>(op, detail). (rank', ts', lat', op, detail)) (row_tail s)) (''  '' @ ?t9)
      = Some (rank', ts', lat', op, ''fqdn1='' @ rest)" for rank' ts' lat'
    by (rule greedy_longest) (use t9 ok(6,8) in simp_all)
  have k5: "greedy (\<lambda>c. is_digit c \<or> c = CHR ''.'') 1 (\<lambda>lat. literal ''ms'' (greedy is_space 1 (\<lambda>_ s.
        map_option (\<lambda>(op, detail). (rank', ts', lat, op, detail)) (row_tail s)))) (lat @ ''ms'' @ ''  '' @ ?t9)
      = Some (rank', ts', lat, op, ''fqdn1='' @ rest)" for rank' ts'
  proof (rule greedy_longest)
    show "1 \<le> length lat" using ok(4) by (cases lat) auto
    show "literal ''ms'' (greedy is_space 1 (\<lambda>_ s. map_option (\<lambda>(op, detail). (rank', ts', lat, op, detail)) (row_tail s)))
        (''ms'' @ ''  '' @ ?t9) = Some (rank', ts', lat, op, ''fqdn1='' @ rest)"
      unfolding literal_append by (rule k6)
  qed (use ok(5) dot(3) in auto)
  have bl: "''  '' @ replicate k (CHR '' '') @ s = replicate (Suc (Suc k)) (CHR '' '') @ s" for k s by simp
  have k4: "greedy is_space 1 (\<lambda>_. greedy (\<lambda>c. is_digit c \<or> c = CHR ''.'') 1 (\<lambda>lat. literal ''ms'' (greedy is_space 1 (\<lambda>_ s.
        map_option (\<lambda>(op, detail). (rank', ts', lat, op, detail)) (row_tail s)))))
        (''  '' @ replicate (9 - length lat) (CHR '' '') @ lat @ ''ms'' @ ''  '' @ ?t9)
      = Some (rank', ts', lat, op, ''fqdn1='' @ rest)" for rank' ts'
    unfolding bl by (rule greedy_longest[OF blanks]) (use k5 ok(4) nlat in simp_all)
  have k3: "greedy (\<lambda>c. \<not> is_space c) 1 (\<lambda>ts. greedy is_space 1 (\<lambda>_. greedy (\<lambda>c. is_digit c \<or> c = CHR ''.'') 1 (\<lambda>lat.
        literal ''ms'' (greedy is_space 1 (\<lambda>_ s. map_option (\<lambda>(op, detail). (rank', ts, lat, op, detail)) (row_tail s))))))
        (ts @ ''  '' @ replicate (9 - length lat) (CHR '' '') @ lat @ ''ms'' @ ''  '' @ ?t9)
      = Some (rank', ts, lat, op, ''fqdn1='' @ rest)" for rank'
  proof (rule greedy_longest)
    show "1 \<le> length ts" using ok(2) by (cases ts) auto
  qed (use ok(3) k4 in simp_all)
  have "TOP_SLOW_ROW_RE (row_text r) = Some (py_str rank, ts, lat, op, ''fqdn1='' @ rest)"
    unfolding TOP_SLOW_ROW_RE_def row
  proof (rule greedy_longest[OF blanks])
    show "greedy is_digit 1 (\<lambda>rank. literal ''.'' (greedy is_space 1 (\<lambda>_.
        greedy (\<lambda>c. \<not> is_space c) 1 (\<lambda>ts. greedy is_space 1 (\<lambda>_.
        greedy (\<lambda>c. is_digit c \<or> c = CHR ''.'') 1 (\<lambda>lat. literal ''ms'' (greedy is_space 1 (\<lambda>_ s.
          map_option (\<lambda>(op, detail). (rank, ts, lat, op, detail)) (row_tail s)))))))))
        (py_str rank @ ''.'' @ '' '' @ ts @ ''  '' @ replicate (9 - length lat) (CHR '' '') @ lat @ ''ms'' @ ''  '' @ ?t9)
      = Some (py_str rank, ts, lat, op, ''fqdn1='' @ rest)"
    proof (rule greedy_longest[OF dg])
      show "literal ''.'' (greedy is_space 1 (\<lambda>_.
        greedy (\<lambda>c. \<not> is_space c) 1 (\<lambda>ts. greedy is_space 1 (\<lambda>_.
        greedy (\<lambda>c. is_digit c \<or> c = CHR ''.'') 1 (\<lambda>lat. literal ''ms'' (greedy is_space 1 (\<lambda>_ s.
          map_option (\<lambda>(op, detail). (py_str rank, ts, lat, op, detail)) (row_tail s))))))))
        (''.'' @ '' '' @ ts @ ''  '' @ replicate (9 - length lat) (CHR '' '') @ lat @ ''ms'' @ ''  '' @ ?t9)
        = Some (py_str rank, ts, lat, op, ''fqdn1='' @ rest)"
        unfolding literal_append
        by (rule greedy_longest) (use k3 ok(2) nts in simp_all)
      show "1 \<le> length (py_str rank)" using ne by (cases "py_str rank") auto
    qed (use dot(1) in simp)
  qed (use ne nsp in simp_all)
  then show ?thesis by (simp add: row_groups_def r)
qed

text \<open>A row is not taken for anything else.\<close>

lemma row_head:
  assumes "row_ok r"
  shows "\<exists>k c t. row_text r = replicate k (CHR '' '') @ c # t \<and> is_digit c"
proof -
  obtain c t where ct: "py_str (rr_rank r) = c # t"
    using assms by (cases "py_str (rr_rank r)") (auto simp: row_ok_def py_str_def)
  then have "is_digit c" using digits_py_str[of "rr_rank r"] assms by (simp add: row_ok_def)
  then show ?thesis
    unfolding row_text_def pad_left_def ct
    by (intro exI[of _ "2 - length (c # t)"] exI[of _ c] exI[of _ "t @ ''. '' @ rr_ts r @ ''  ''
      @ (replicate (9 - length (rr_lat r)) (CHR '' '') @ rr_lat r) @ ''ms  '' @ pad_right 10 (rr_op r) @ '' fqdn1='' @ rr_rest r"])
      simp
qed

lemma strip_hd:
  assumes "\<not> is_space c"
  shows "\<exists>t'. strip (replicate k (CHR '' '') @ c # t) = c # t'"
proof -
  have d: "dropWhile is_space (replicate k (CHR '' '') @ c # t) = c # t"
    using assms by (induction k) auto
  obtain u where u: "c # t = rstrip_by is_space (c # t) @ u" "\<forall>x\<in>set u. is_space x"
    using rstrip_by_prefix[of "c # t" is_space] by blast
  have "rstrip_by is_space (c # t) \<noteq> []" using u assms by (cases "rstrip_by is_space (c # t)") auto
  then show ?thesis unfolding strip_def d using u(1) by (cases "rstrip_by is_space (c # t)") auto
qed

lemma row_line:
  assumes "row_ok r"
  shows "slow_lines lenient other True (row_text r # rest) =
    bindR (slow_row lenient other (row_groups r)) (\<lambda>q. bindR (slow_lines lenient other True rest) (\<lambda>qs. Inr (q # qs)))"
proof -
  obtain k c t where row: "row_text r = replicate k (CHR '' '') @ c # t" "is_digit c" using row_head[OF assms] by blast
  have c: "c \<noteq> CHR ''=''" "c \<noteq> CHR ''k''" "c \<noteq> CHR ''(''" "\<not> is_space c"
    using row(2) is_digit_not_space by (auto simp: is_digit_def)
  obtain t' where t': "strip (row_text r) = c # t'" unfolding row(1) using strip_hd[OF c(4)] by blast
  have eq: "\<not> starts_with (CHR ''='' # w) (row_text r)" for w
    unfolding row(1) using c(1) by (cases k) auto
  have "\<not> TOP_SLOW_HEADER_RE (row_text r)" unfolding TOP_SLOW_HEADER_RE_def literal_def using eq by simp
  then show ?thesis using eq[of "''==''"] t' c row_matches[OF assms] by (simp add: Let_def)
qed

lemma section_rows:
  assumes "list_all row_ok rows"
  shows "slow_lines lenient other True (map row_text rows) = mapR (\<lambda>r. slow_row lenient other (row_groups r)) rows"
  using assms by (induction rows) (simp_all add: row_line del: slow_lines.simps(2))

section \<open>The report of the Go benchmark\<close>

text \<open>
  What \<open>printTopSlowReport\<close> in \<open>go-benchmark/main.go\<close> prints: a heading, then for each query its row, the line
  of its keys and, where the pool was watched, a line about it; or one line when there is no query. The gate and
  the keys are texts here.
\<close>

record report_entry =
  re_row :: report_row
  re_keys :: string
  re_pool :: "string option"

definition entry_lines :: "report_entry \<Rightarrow> string list" where
  "entry_lines e =
     [row_text (re_row e), ''      keys: '' @ re_keys e]
     @ (case re_pool e of None \<Rightarrow> [] | Some p \<Rightarrow> [''      pool during this query: '' @ p])"

definition report_lines :: "int \<Rightarrow> string \<Rightarrow> report_entry list \<Rightarrow> string list" where
  "report_lines n gate entries =
     (''=== Top '' @ py_str n @ '' slowest queries (>= '' @ gate @ ''ms) ==='')
     # (if entries = [] then [''  (no queries at or above the '' @ gate @ ''ms gate)''] else concat (map entry_lines entries))"

lemma strip_starts:
  assumes "w \<noteq> []" "\<not> is_space (hd w)" "\<not> is_space (last w)"
  shows "starts_with w (strip (replicate k (CHR '' '') @ w @ t))"
proof -
  obtain c w' where w: "w = c # w'" using assms(1) by (cases w) auto
  have d: "dropWhile is_space (replicate k (CHR '' '') @ w @ t) = w @ t"
    using assms(2) unfolding w by (induction k) auto
  obtain r u where r: "rstrip_by is_space (w @ t) = r" and u: "w @ t = r @ u" "\<forall>x\<in>set u. is_space x"
    using rstrip_by_prefix[of "w @ t" is_space] by blast
  from u(1) obtain v where "w = r @ v \<and> u = v @ t \<or> r = w @ v"
    by (auto simp: append_eq_append_conv2)
  moreover have "v = []" if "w = r @ v" "u = v @ t"
    using that u(2) assms(3) by (cases v rule: rev_cases) auto
  ultimately show ?thesis unfolding strip_def d r by (auto simp: starts_with_iff)
qed

text \<open>A line that does not start like a heading, a section or a number is passed over.\<close>

lemma row_none:
  assumes "\<not> is_space c" "\<not> is_digit c"
  shows "TOP_SLOW_ROW_RE (replicate k (CHR '' '') @ c # t) = None"
  unfolding TOP_SLOW_ROW_RE_def
proof (rule greedy_none)
  fix i
  let ?s = "replicate k (CHR '' '') @ c # t"
  assume "i \<le> length (takeWhile is_space ?s)"
  moreover have "takeWhile is_space ?s = replicate k (CHR '' '')" using assms(1) by (induction k) auto
  ultimately have "drop i ?s = replicate (k - i) (CHR '' '') @ c # t" by simp
  moreover have "\<not> is_digit (CHR '' '')" by code_simp
  ultimately have no: "takeWhile is_digit (drop i ?s) = []" using assms(2) by (cases "k - i") simp_all
  show "greedy is_digit 1 (\<lambda>rank. literal ''.'' (greedy is_space 1 (\<lambda>_.
     greedy (\<lambda>c. \<not> is_space c) 1 (\<lambda>ts. greedy is_space 1 (\<lambda>_.
     greedy (\<lambda>c. is_digit c \<or> c = CHR ''.'') 1 (\<lambda>lat. literal ''ms'' (greedy is_space 1 (\<lambda>_ s.
       map_option (\<lambda>(op, detail). (rank, ts, lat, op, detail)) (row_tail s))))))))) (drop i ?s) = None"
    unfolding greedy_def[of is_digit] no by simp
qed

lemma note_line:
  assumes "w \<noteq> []" "\<not> is_space (hd w)" "\<not> is_space (last w)" "hd w \<noteq> CHR ''=''" "\<not> is_digit (hd w)"
  shows "slow_lines lenient other True ((replicate k (CHR '' '') @ w @ t) # rest) = slow_lines lenient other True rest"
proof -
  let ?l = "replicate k (CHR '' '') @ w @ t"
  have eq: "\<not> starts_with (CHR ''='' # v) ?l" for v
    using assms(1,4) by (cases k; cases w) auto
  have "\<not> TOP_SLOW_HEADER_RE ?l" unfolding TOP_SLOW_HEADER_RE_def literal_def using eq by simp
  moreover have "TOP_SLOW_ROW_RE ?l = None" using row_none[OF assms(2,5), of k "tl w @ t"] assms(1) by (cases w) auto
  ultimately show ?thesis using eq[of "''==''"] by (simp add: Let_def)
qed

lemma entry_line:
  assumes "row_ok (re_row e)"
  shows "slow_lines lenient other True (entry_lines e @ rest) =
    bindR (slow_row lenient other (row_groups (re_row e))) (\<lambda>q.
      bindR (slow_lines lenient other True rest) (\<lambda>qs. Inr (q # qs)))"
proof -
  have k: "slow_lines lenient other True ((''      keys: '' @ t) # ls) = slow_lines lenient other True ls" for t ls
    using note_line[of "''keys:''" lenient other 6 "CHR '' '' # t" ls] by (simp add: numeral_eq_Suc is_space_def is_digit_def)
  have p: "slow_lines lenient other True ((''      pool during this query: '' @ t) # ls) = slow_lines lenient other True ls" for t ls
    using note_line[of "''pool''" lenient other 6 "'' during this query: '' @ t" ls]
    by (simp add: numeral_eq_Suc is_space_def is_digit_def)
  show ?thesis
  proof (cases "re_pool e")
    case None
    then have "entry_lines e @ rest = row_text (re_row e) # (''      keys: '' @ re_keys e) # rest"
      by (simp only: entry_lines_def option.case append_Cons append_Nil)
    then show ?thesis by (simp only: row_line[OF assms] k)
  next
    case (Some t)
    then have "entry_lines e @ rest = row_text (re_row e) # (''      keys: '' @ re_keys e)
        # (''      pool during this query: '' @ t) # rest"
      by (simp only: entry_lines_def option.case append_Cons append_Nil)
    then show ?thesis by (simp only: row_line[OF assms] k p)
  qed
qed

text \<open>The end of the section: nothing more, or blank lines and the heading of another one.\<close>

definition section_end :: "string list \<Rightarrow> bool" where
  "section_end ls =
     (case dropWhile (\<lambda>l. strip l = []) ls of
        [] \<Rightarrow> True
      | l # _ \<Rightarrow> starts_with ''==='' l \<and> \<not> TOP_SLOW_HEADER_RE l)"

lemma end_lines: "section_end ls \<Longrightarrow> slow_lines lenient other True ls = Inr []"
proof (induction ls)
  case (Cons l ls)
  show ?case
  proof (cases "strip l = []")
    case True
    have "\<not> starts_with ''==='' l"
    proof
      assume "starts_with ''==='' l"
      then obtain t where "l = ''==='' @ t" by (auto simp: starts_with_iff)
      with strip_starts[of "''===''" 0 t] True show False by (simp add: is_space_def)
    qed
    moreover from this have "\<not> TOP_SLOW_HEADER_RE l"
      by (auto simp: TOP_SLOW_HEADER_RE_def literal_def starts_with_iff)
    ultimately show ?thesis using Cons True by (simp add: section_end_def)
  next
    case False
    then show ?thesis using Cons.prems by (simp add: section_end_def)
  qed
qed simp

lemma heading_line: "0 \<le> n \<Longrightarrow> TOP_SLOW_HEADER_RE (''=== Top '' @ py_str n @ '' slowest queries'' @ t)"
proof -
  assume n: "0 \<le> n"
  have "literal ''=== Top '' (greedy is_digit 1 (\<lambda>_. literal '' slowest queries'' (\<lambda>_. Some ())))
      (''=== Top '' @ py_str n @ '' slowest queries'' @ t) = Some ()"
    unfolding literal_append
  proof (rule greedy_longest[OF digits_py_str[OF n]])
    show "1 \<le> length (py_str n)" using n by (cases "py_str n") (auto simp: py_str_def)
    show "literal '' slowest queries'' (\<lambda>_. Some ()) ('' slowest queries'' @ t) = Some ()" by (simp only: literal_append)
    show "'' slowest queries'' @ t = [] \<or> \<not> is_digit (hd ('' slowest queries'' @ t))" by (simp add: is_digit_def)
  qed
  then show ?thesis by (simp add: TOP_SLOW_HEADER_RE_def)
qed

lemma report_read:
  assumes "0 \<le> n" "list_all (\<lambda>e. row_ok (re_row e)) entries" "list_all (\<lambda>l. \<not> TOP_SLOW_HEADER_RE l) before" "section_end after"
  shows "slow_lines lenient other False (before @ report_lines n gate entries @ after)
    = mapR (\<lambda>e. slow_row lenient other (row_groups (re_row e))) entries"
proof -
  have b: "slow_lines lenient other False (before @ ls) = slow_lines lenient other False ls" for ls
    using assms(3) by (induction before) simp_all
  have h: "slow_lines lenient other False ((''=== Top '' @ py_str n @ '' slowest queries (>= '' @ gate @ ''ms) ==='') # ls)
      = slow_lines lenient other True ls" for ls
    using heading_line[OF assms(1), of "'' (>= '' @ gate @ ''ms) ===''"] by simp
  have e: "slow_lines lenient other True (concat (map entry_lines entries) @ after)
      = mapR (\<lambda>e. slow_row lenient other (row_groups (re_row e))) entries"
    using assms(2) by (induction entries) (simp_all add: end_lines[OF assms(4)] entry_line del: slow_lines.simps(2))
  have z: "slow_lines lenient other True ((''  (no queries at or above the '' @ gate @ ''ms gate)'') # after) = Inr []"
    using note_line[of "''(no''" lenient other 2 "'' queries at or above the '' @ gate @ ''ms gate)''" after]
    by (simp add: numeral_eq_Suc is_space_def is_digit_def end_lines[OF assms(4)])
  have r: "report_lines n gate entries @ after = (''=== Top '' @ py_str n @ '' slowest queries (>= '' @ gate @ ''ms) ==='')
      # ((if entries = [] then [''  (no queries at or above the '' @ gate @ ''ms gate)''] else concat (map entry_lines entries)) @ after)"
    by (simp only: report_lines_def append_Cons)
  show ?thesis
  proof (cases "entries = []")
    case True
    then show ?thesis unfolding b r h if_P[OF True] append_Cons[of _ "[]"] append_Nil z by simp
  next
    case False
    show ?thesis unfolding b r h if_not_P[OF False] by (rule e)
  qed
qed

text \<open>From the lines to the text and back.\<close>

definition one_line :: "string \<Rightarrow> bool" where
  "one_line l \<longleftrightarrow> list_all (\<lambda>c. \<not> is_line_end c) l"

lemma splitlines_from_line:
  "one_line l \<Longrightarrow> splitlines_from p (l @ CHR 0x0A # t) = (p @ l) # splitlines_from [] t"
  "one_line l \<Longrightarrow> splitlines_from p l = (if p @ l = [] then [] else [p @ l])"
proof (induction l arbitrary: p)
  case Nil
  { case 1 show ?case by (simp add: is_line_end_def) }
  { case 2 show ?case by simp }
next
  case (Cons c l)
  { case 1
    then have c: "c \<noteq> CHR 0x0D" "\<not> is_line_end c" "one_line l" by (auto simp: one_line_def is_line_end_def)
    then show ?case using Cons.IH(1)[of "p @ [c]"] by simp }
  { case 2
    then have c: "c \<noteq> CHR 0x0D" "\<not> is_line_end c" "one_line l" by (auto simp: one_line_def is_line_end_def)
    then show ?case using Cons.IH(2)[of "p @ [c]"] by simp }
qed

lemma splitlines_join:
  assumes "list_all one_line ls"
  shows "splitlines (join [CHR 0x0A] ls) = (if ls \<noteq> [] \<and> last ls = [] then butlast ls else ls)"
proof -
  have "splitlines_from [] (join [CHR 0x0A] ls) = (if ls \<noteq> [] \<and> last ls = [] then butlast ls else ls)"
    using assms
    by (induction "[CHR 0x0A :: char]" ls rule: join.induct) (auto simp: splitlines_from_line)
  then show ?thesis by (simp add: splitlines_def)
qed

lemma last_blank: "slow_lines lenient other b (ls @ [[]]) = slow_lines lenient other b ls"
proof (induction ls arbitrary: b)
  case Nil
  have "\<not> TOP_SLOW_HEADER_RE []" "strip [] = []" by code_simp+
  then show ?case by simp
qed (simp add: Let_def split: option.split)

lemma parse_joined:
  assumes "list_all one_line ls"
  shows "parse_top_slow lenient other (join [CHR 0x0A] ls) = slow_lines lenient other False ls"
proof (cases "ls \<noteq> [] \<and> last ls = []")
  case True
  then have "ls = butlast ls @ [[]]" by (metis append_butlast_last_id)
  with last_blank[of lenient other False "butlast ls"] True show ?thesis
    by (simp add: parse_top_slow_def splitlines_join[OF assms])
qed (auto simp: parse_top_slow_def splitlines_join[OF assms])

text \<open>
  C25: The report of the Go benchmark is read completely. In the lines of a whole run, whatever comes before
  its heading and whatever follows from the next section on, every row it prints gives one slow query, in order,
  from its rank, timestamp, latency and operation as they were printed (an operation may contain blanks) and
  everything from the name on; the lines of keys and of the pool between the rows, and the line of a report without
  queries, are passed over. The first row that cannot be converted raises.
\<close>

theorem report_section_parsed:
  assumes "0 \<le> n" "list_all (\<lambda>e. row_ok (re_row e)) entries" "list_all (\<lambda>l. \<not> TOP_SLOW_HEADER_RE l) before" "section_end after"
    and "list_all one_line (before @ report_lines n gate entries @ after)"
  shows "parse_top_slow lenient other (join [CHR 0x0A] (before @ report_lines n gate entries @ after))
    = mapR (\<lambda>e. slow_row lenient other (row_groups (re_row e))) entries"
  using report_read[OF assms(1-4)] parse_joined[OF assms(5)] by simp

theorem report_section_parsed_witness:
  "parse_top_slow True (\<lambda>s. Inl (ValueError s)) (join [CHR 0x0A]
     [''ready'', ''=== Top 10 slowest queries (>= 0.000ms) ==='',
      '' 1. 2024-05-01T10:00:00.000250+02:00     31.500ms  EVALSHA x3 fqdn1=a.b.com port=443 fqdn2=c.com result=miss'',
      ''      keys: r:{b:a.com}:a.com:443, r:{b:*}:*:443'',
      ''      pool during this query: hits=+1 misses=+0 timeouts=+0 staleConns=+0'',
      [], ''=== Connection pool stats (whole run) ==='', ''hits=1''])
   = Inr [\<lparr>sq_rank = 1,
       sq_timestamp = \<lparr>dt_year = 2024, dt_month = 5, dt_day = 1, dt_hour = 10, dt_minute = 0, dt_second = 0,
         dt_micro = 250, dt_offset = Some 7200000000\<rparr>,
       sq_latency_ms = Fin (63/2), sq_op = ''EVALSHA x3'',
       sq_detail = ''fqdn1=a.b.com port=443 fqdn2=c.com result=miss''\<rparr>]"
proof -
  let ?r = "\<lparr>rr_rank = 1, rr_ts = ''2024-05-01T10:00:00.000250+02:00'', rr_lat = ''31.500'', rr_op = ''EVALSHA x3'',
      rr_rest = ''a.b.com port=443 fqdn2=c.com result=miss''\<rparr>"
  let ?e = "\<lparr>re_row = ?r, re_keys = ''r:{b:a.com}:a.com:443, r:{b:*}:*:443'',
      re_pool = Some ''hits=+1 misses=+0 timeouts=+0 staleConns=+0''\<rparr>"
  let ?before = "[''ready'']" and ?after = "[[], ''=== Connection pool stats (whole run) ==='', ''hits=1'']"
  let ?d = "\<lparr>dt_year = 2024, dt_month = 5, dt_day = 1, dt_hour = 10, dt_minute = 0, dt_second = 0,
      dt_micro = 250, dt_offset = Some 7200000000\<rparr>"
  have "list_all (\<lambda>e. row_ok (re_row e)) [?e]" "list_all (\<lambda>l. \<not> TOP_SLOW_HEADER_RE l) ?before" "section_end ?after"
    "list_all one_line (?before @ report_lines 10 ''0.000'' [?e] @ ?after)" by code_simp+
  from report_section_parsed[OF _ this, of True "\<lambda>s. Inl (ValueError s)"]
  have "parse_top_slow True (\<lambda>s. Inl (ValueError s)) (join [CHR 0x0A] (?before @ report_lines 10 ''0.000'' [?e] @ ?after))
      = mapR (\<lambda>e. slow_row True (\<lambda>s. Inl (ValueError s)) (row_groups (re_row e))) [?e]" by simp
  moreover have "?before @ report_lines 10 ''0.000'' [?e] @ ?after =
     [''ready'', ''=== Top 10 slowest queries (>= 0.000ms) ==='',
      '' 1. 2024-05-01T10:00:00.000250+02:00     31.500ms  EVALSHA x3 fqdn1=a.b.com port=443 fqdn2=c.com result=miss'',
      ''      keys: r:{b:a.com}:a.com:443, r:{b:*}:*:443'',
      ''      pool during this query: hits=+1 misses=+0 timeouts=+0 staleConns=+0'',
      [], ''=== Connection pool stats (whole run) ==='', ''hits=1'']"
    by code_simp
  moreover have "slow_row True (\<lambda>s. Inl (ValueError s)) (row_groups ?r) = Inr \<lparr>sq_rank = 1, sq_timestamp = ?d,
       sq_latency_ms = Fin (63/2), sq_op = ''EVALSHA x3'', sq_detail = ''fqdn1=a.b.com port=443 fqdn2=c.com result=miss''\<rparr>"
  proof -
    have "valid_fields ?d" "dt_offset ?d = Some (60000000 * 120)" "\<bar>120 :: int\<bar> < 1440"
      "isoformat ?d = ''2024-05-01T10:00:00.000250+02:00''" by code_simp+
    then have "parse_iso True (\<lambda>s. Inl (ValueError s)) ''2024-05-01T10:00:00.000250+02:00'' = Inr ?d"
      using parse_iso_isoformat[of ?d 120] by metis
    moreover have "py_float ''31.500'' = Inr (Fin (63/2))" by code_simp
    moreover have "strip (''fqdn1='' @ ''a.b.com port=443 fqdn2=c.com result=miss'') = ''fqdn1=a.b.com port=443 fqdn2=c.com result=miss''"
      by code_simp
    ultimately show ?thesis by (simp add: slow_row_def row_groups_def)
  qed
  ultimately show ?thesis by simp
qed


section \<open>Timestamps in UTC\<close>

definition ends_in_digit :: "string \<Rightarrow> bool" where
  "ends_in_digit s \<longleftrightarrow> s \<noteq> [] \<and> is_digit (last s)"

lemma ends_drop: "ends_in_digit (drop n s) \<Longrightarrow> ends_in_digit s"
  by (auto simp: ends_in_digit_def last_drop)

lemma number_ends: "number n k s = Some r \<Longrightarrow> (\<And>v t. k v t = Some r \<Longrightarrow> ends_in_digit t) \<Longrightarrow> ends_in_digit s"
  using ends_drop by (auto simp: number_def split: if_splits)

lemma literal_ends: "literal w k s = Some r \<Longrightarrow> (\<And>t. k t = Some r \<Longrightarrow> ends_in_digit t) \<Longrightarrow> ends_in_digit s"
  using ends_drop by (auto simp: literal_def split: if_splits)

lemma first_some_Some: "first_some f xs = Some r \<Longrightarrow> \<exists>x. f x = Some r"
  by (induction xs) (auto split: option.splits)

lemma greedy_ends: "greedy p lo k s = Some r \<Longrightarrow> (\<And>u t. k u t = Some r \<Longrightarrow> ends_in_digit t) \<Longrightarrow> ends_in_digit s"
proof -
  assume k: "\<And>u t. k u t = Some r \<Longrightarrow> ends_in_digit t" and "greedy p lo k s = Some r"
  then obtain i where "k (take i s) (drop i s) = Some r" unfolding greedy_def using first_some_Some by fastforce
  from ends_drop[OF k[OF this]] show ?thesis .
qed

lemma number_last:
  assumes "number 2 (\<lambda>v s. if s = [] then Some (f v) else None) s = Some r"
  shows "ends_in_digit s"
proof -
  from assms have "length s = 2" "list_all is_digit s" by (auto simp: number_def split: if_splits)
  then show ?thesis by (cases s rule: rev_cases) (auto simp: ends_in_digit_def)
qed

lemma iso_offset_ends:
  assumes "iso_offset d fr s = Some r"
  shows "ends_in_digit s"
proof (cases s)
  case Nil
  with assms show ?thesis by (simp add: iso_offset_def)
next
  case (Cons c s1)
  have "ends_in_digit s1"
  proof (rule number_ends)
    show "number 2 (\<lambda>oh s2. number 2 (\<lambda>om s3. if s3 = [] then Some (d, fr, c = CHR ''-'', oh, om) else None)
        (if starts_with '':'' s2 then drop 1 s2 else s2)) s1 = Some r"
      using assms Cons by (auto simp: iso_offset_def split: if_splits)
    fix oh s2
    assume n: "number 2 (\<lambda>om s3. if s3 = [] then Some (d, fr, c = CHR ''-'', oh, om) else None)
        (if starts_with '':'' s2 then drop 1 s2 else s2) = Some r"
    have "ends_in_digit (if starts_with '':'' s2 then drop 1 s2 else s2)"
      by (rule number_last[OF n])
    then show "ends_in_digit s2" using ends_drop by (auto split: if_splits)
  qed
  then show ?thesis unfolding Cons using ends_drop[of 1 "c # s1"] by simp
qed

lemma iso_tail_ends:
  "(case t of [] \<Rightarrow> None
     | c # s1 \<Rightarrow> if c = CHR ''.'' then greedy is_digit 1 (\<lambda>ds. iso_offset d (Some ds)) s1 else iso_offset d None t)
    = Some r \<Longrightarrow> ends_in_digit t"
  using ends_drop[of 1 t] by (cases t) (auto dest: iso_offset_ends greedy_ends split: if_splits)

lemma ISO_RE_ends: "ISO_RE s = Some r \<Longrightarrow> ends_in_digit s"
  unfolding ISO_RE_def Let_def by (erule number_ends literal_ends iso_tail_ends)+

lemma utc_not_iso: "ISO_RE (b @ ''Z'') = None"
proof (cases "ISO_RE (b @ ''Z'')")
  case (Some r)
  then have "ends_in_digit (b @ ''Z'')" by (rule ISO_RE_ends)
  then show ?thesis by (simp add: ends_in_digit_def is_digit_def)
qed

text \<open>
  C40: Go writes the offset of UTC as the letter Z. Such a timestamp does not match \<open>ISO_RE\<close>, so it goes
  to \<open>datetime.fromisoformat\<close>, which rejects the Z up to Python 3.10: on a machine whose clock is in UTC the
  first row of the report ends the script with a ValueError, after the whole benchmark has run. Every
  other offset is read without it.
\<close>

theorem utc_report_rejected:
  assumes "\<And>t. other (t @ ''Z'') = Inl (ValueError ''isoformat'')"
    and "TOP_SLOW_HEADER_RE header" "list_all row_ok (r # rows)" "rr_ts r = b @ ''Z''"
  shows "slow_lines lenient other False (header # map row_text (r # rows)) = Inl (ValueError ''isoformat'')"
proof -
  have rk: "row_ok r" using assms(3) by simp
  then have tok: "list_all (\<lambda>c. \<not> is_space c) (b @ ''Z'')" by (simp add: row_ok_def is_token_def assms(4)[symmetric])
  then have "strip (b @ ''Z'') = b @ ''Z''" by (intro strip_id) (auto simp: list_all_iff)
  then have "parse_iso lenient other (rr_ts r) = Inl (ValueError ''isoformat'')"
    unfolding assms(4) parse_iso_def using utc_not_iso assms(1) by simp
  moreover have "py_int (py_str (rr_rank r)) = Inr (rr_rank r)" by simp
  ultimately have "slow_row lenient other (row_groups r) = Inl (ValueError ''isoformat'')"
    by (simp add: slow_row_def row_groups_def)
  then show ?thesis using assms(2) section_rows[OF assms(3)] by simp
qed

theorem utc_report_rejected_witness:
  "slow_lines False (\<lambda>s. Inl (ValueError ''isoformat'')) False
     [''=== Top 10 slowest queries (>= 0.000ms) ==='',
      '' 1. 2024-05-01T10:00:00.250Z     31.500ms  GET        fqdn1=a.com'']
   = Inl (ValueError ''isoformat'')"
proof -
  let ?h = "''=== Top 10 slowest queries (>= 0.000ms) ===''"
  let ?r = "\<lparr>rr_rank = 1, rr_ts = ''2024-05-01T10:00:00.250Z'', rr_lat = ''31.500'', rr_op = ''GET'', rr_rest = ''a.com''\<rparr>"
  have "TOP_SLOW_HEADER_RE ?h" "list_all row_ok [?r]" "rr_ts ?r = ''2024-05-01T10:00:00.250'' @ ''Z''" by code_simp+
  moreover have "row_text ?r = '' 1. 2024-05-01T10:00:00.250Z     31.500ms  GET        fqdn1=a.com''" by code_simp
  ultimately show ?thesis
    using utc_report_rejected[of "\<lambda>s. Inl (ValueError ''isoformat'')" ?h ?r "[]" "''2024-05-01T10:00:00.250''" False] by simp
qed


section \<open>The samples of iostat\<close>

text \<open>The timestamps among the lines.\<close>

definition line_timestamp :: "bool \<Rightarrow> (string \<Rightarrow> datetime result) \<Rightarrow> string \<Rightarrow> datetime list" where
  "line_timestamp lenient other raw =
     (if rstrip_by is_space raw = [] then []
      else case parse_iso lenient other (rstrip_by is_space raw) of Inl _ \<Rightarrow> [] | Inr t \<Rightarrow> [t])"

lemma update_current_timestamps:
  assumes "samples \<noteq> []" "\<And>s. is_timestamp (f s) = is_timestamp s"
  shows "map is_timestamp (update_current f samples) = map is_timestamp samples"
  using assms by (cases samples rule: rev_cases) (simp_all add: update_current_def)

lemma row_timestamps: "is_timestamp (cpu_row parts s) = is_timestamp s" "is_timestamp (device_row fs parts s) = is_timestamp s"
  by (simp_all add: cpu_row_def device_row_def Let_def split: sum.split)

text \<open>\<open>datetime.fromisoformat\<close> raises nothing but ValueError on a text.\<close>

definition only_value_errors :: "(string \<Rightarrow> datetime result) \<Rightarrow> bool" where
  "only_value_errors other \<longleftrightarrow> (\<forall>t e. other t = Inl e \<longrightarrow> (\<exists>m. e = ValueError m))"

lemma parse_iso_error:
  assumes "only_value_errors other" "parse_iso lenient other ts = Inl e"
  shows "\<exists>m. e = ValueError m"
  using assms by (auto simp: only_value_errors_def parse_iso_def fraction_micros_def result_simps Let_def split: option.splits if_splits)

lemma iostat_line_ok:
  assumes "only_value_errors other"
  shows "\<exists>st'. iostat_line lenient other st raw = Inr st'
    \<and> map is_timestamp (io_samples st') = map is_timestamp (io_samples st) @ line_timestamp lenient other raw"
proof -
  let ?line = "rstrip_by is_space raw"
  consider "?line = []" | ts where "?line \<noteq> []" "parse_iso lenient other ?line = Inr ts"
    | m where "?line \<noteq> []" "parse_iso lenient other ?line = Inl (ValueError m)"
    using parse_iso_error[OF assms, of lenient ?line] by (cases "parse_iso lenient other ?line") blast+
  then show ?thesis
  proof cases
    case 3
    then show ?thesis
      by (cases "io_samples st = []")
        (auto simp: iostat_line_def line_timestamp_def Let_def update_current_timestamps row_timestamps)
  qed (simp_all add: iostat_line_def line_timestamp_def Let_def)
qed

lemma iostat_lines_ok:
  assumes "only_value_errors other"
  shows "\<exists>st'. iostat_lines lenient other st raws = Inr st'
    \<and> map is_timestamp (io_samples st') = map is_timestamp (io_samples st) @ concat (map (line_timestamp lenient other) raws)"
proof (induction raws arbitrary: st)
  case Nil
  show ?case by simp
next
  case (Cons raw raws)
  obtain st1 where "iostat_line lenient other st raw = Inr st1"
    "map is_timestamp (io_samples st1) = map is_timestamp (io_samples st) @ line_timestamp lenient other raw"
    using iostat_line_ok[OF assms] by blast
  with Cons[of st1] show ?case by auto
qed

text \<open>
  C23: Reading an iostat log never fails, whatever is in it: unreadable lines and numbers are passed over.
  The samples are those of the lines that are timestamps, in order, without the first one, the totals
  since boot, when there is another.
\<close>

theorem iostat_samples_exact:
  assumes "only_value_errors other"
  shows "\<exists>samples. parse_iostat lenient other iostat_log = Inr samples
    \<and> map is_timestamp samples =
        (let ts = concat (map (line_timestamp lenient other) (splitlines iostat_log))
         in if length ts > 1 then tl ts else ts)"
proof -
  obtain st where st: "iostat_lines lenient other iostat_start (splitlines iostat_log) = Inr st"
    "map is_timestamp (io_samples st) = concat (map (line_timestamp lenient other) (splitlines iostat_log))"
    using iostat_lines_ok[OF assms, of lenient iostat_start "splitlines iostat_log"] by (auto simp: iostat_start_def)
  have len: "length (concat (map (line_timestamp lenient other) (splitlines iostat_log))) = length (io_samples st)"
    unfolding st(2)[symmetric] by simp
  show ?thesis
    unfolding parse_iostat_def st(1) bindR.simps Let_def len unfolding st(2)[symmetric]
    by (auto simp: map_tl)
qed

theorem iostat_samples_exact_witness:
  "\<exists>samples. parse_iostat True (\<lambda>s. Inl (ValueError s)) ''avg-cpu:'' = Inr samples \<and> samples = []"
proof -
  have v: "only_value_errors (\<lambda>s. Inl (ValueError s))" by (simp add: only_value_errors_def)
  have "concat (map (line_timestamp True (\<lambda>s. Inl (ValueError s))) (splitlines ''avg-cpu:'')) = []" by code_simp
  with iostat_samples_exact[OF v, of True "''avg-cpu:''"] show ?thesis by simp
qed


section \<open>The closest sample\<close>

text \<open>Dividing by a million keeps the order of the microseconds.\<close>

lemma micros_error: "\<bar>fdiv (of_int a) 1000000 - of_int a / 1000000\<bar> \<le> of_int \<bar>a\<bar> / 1000000 / 2 ^ 53"
  using round64_error[of "of_int a / 1000000"] by simp

lemma abs_fdiv_less:
  fixes a b :: int
  assumes "\<bar>a\<bar> < \<bar>b\<bar>" "\<bar>b\<bar> < 2 ^ 52"
  shows "\<bar>fdiv (of_int a) 1000000\<bar> < \<bar>fdiv (of_int b) 1000000\<bar>"
proof -
  let ?f = "\<lambda>x::int. fdiv (of_int x) 1000000"
  have err: "\<bar>?f x - of_int x / 1000000\<bar> < 1 / 2000000" if "\<bar>x\<bar> < 2 ^ 52" for x
  proof -
    have "(of_int \<bar>x\<bar> :: rat) < of_int (2 ^ 52)" using that by (simp only: of_int_less_iff)
    then have "of_int \<bar>x\<bar> / 1000000 / 2 ^ 53 < (1 / 2000000 :: rat)" by (simp add: field_simps)
    with micros_error[of x] show ?thesis by (rule le_less_trans)
  qed
  have "\<bar>a\<bar> < 2 ^ 52" using assms by simp
  note ea = err[OF this] and eb = err[OF assms(2)]
  have "\<bar>a\<bar> + 1 \<le> \<bar>b\<bar>" using assms(1) by simp
  then have "(of_int (\<bar>a\<bar> + 1) :: rat) \<le> of_int \<bar>b\<bar>" by (simp only: of_int_le_iff)
  then have "\<bar>of_int a / 1000000 :: rat\<bar> + 1 / 1000000 \<le> \<bar>of_int b / 1000000\<bar>" by (simp add: field_simps)
  with ea eb show ?thesis by linarith
qed

definition utc_micros :: "datetime \<Rightarrow> int" where
  "utc_micros d = local_micros d - (case dt_offset d of None \<Rightarrow> 0 | Some off \<Rightarrow> off)"

lemma gap_aware:
  "dt_offset a \<noteq> None \<Longrightarrow> dt_offset b \<noteq> None
    \<Longrightarrow> gap_seconds a b = Inr \<bar>fdiv (of_int (utc_micros a - utc_micros b)) 1000000\<bar>"
  by (auto simp: gap_seconds_def diff_micros_def utc_micros_def)

lemma arg_min_list_map:
  "xs \<noteq> [] \<Longrightarrow> snd (arg_min_list fst (map (\<lambda>x. (f x, x)) xs)) = arg_min_list f xs"
proof -
  have p: "arg_min_list fst (map (\<lambda>x. (f x, x)) xs) = (f (arg_min_list f xs), arg_min_list f xs)" if "xs \<noteq> []" for xs :: "'a list"
    using that by (induction f xs rule: arg_min_list.induct) (auto simp: Let_def)
  assume "xs \<noteq> []"
  from p[OF this] show ?thesis by simp
qed

text \<open>
  C24: A slow query is lined up with the sample nearest to it in time, across different offsets and in
  spite of the float seconds, as long as the log spans less than 142 years.
\<close>

theorem closest_sample_nearest:
  assumes "samples \<noteq> []" "dt_offset ts \<noteq> None" "list_all (\<lambda>s. dt_offset (is_timestamp s) \<noteq> None) samples"
    and "list_all (\<lambda>s. \<bar>utc_micros (is_timestamp s) - utc_micros ts\<bar> < 2 ^ 52) samples"
  shows "\<exists>s\<in>set samples. closest_sample samples ts = Inr (Some s)
    \<and> list_all (\<lambda>s'. \<bar>utc_micros (is_timestamp s) - utc_micros ts\<bar> \<le> \<bar>utc_micros (is_timestamp s') - utc_micros ts\<bar>) samples"
proof -
  let ?d = "\<lambda>s. utc_micros (is_timestamp s) - utc_micros ts"
  let ?g = "\<lambda>s. \<bar>fdiv (of_int (?d s)) 1000000\<bar>"
  let ?s = "arg_min_list ?g samples"
  have m: "mapR (\<lambda>s. bindR (gap_seconds (is_timestamp s) ts) (\<lambda>g. Inr (g, s))) samples = Inr (map (\<lambda>s. (?g s, s)) samples)"
    by (rule mapR_Inr) (use assms(2,3) gap_aware in \<open>auto simp: list_all_iff\<close>)
  have c: "closest_sample samples ts = Inr (Some ?s)"
    unfolding closest_sample_def m using assms(1) arg_min_list_map[OF assms(1)] by simp
  have s: "?s \<in> set samples" by (rule arg_min_list_in[OF assms(1)])
  have "\<bar>?d ?s\<bar> \<le> \<bar>?d x\<bar>" if x: "x \<in> set samples" for x
  proof (rule ccontr)
    assume "\<not> \<bar>?d ?s\<bar> \<le> \<bar>?d x\<bar>"
    then have "\<bar>?d x\<bar> < \<bar>?d ?s\<bar>" by simp
    moreover have "\<bar>?d ?s\<bar> < 2 ^ 52" using assms(4) s by (simp add: list_all_iff)
    ultimately have "?g x < ?g ?s" by (rule abs_fdiv_less)
    moreover have "?g ?s \<le> ?g x" using f_arg_min_list_f[OF assms(1), of ?g] x by (simp add: Min_le)
    ultimately show False by simp
  qed
  with c s show ?thesis by (auto simp: list_all_iff)
qed

theorem closest_sample_nearest_witness:
  "\<exists>s. closest_sample
     [\<lparr>is_timestamp = \<lparr>dt_year = 2024, dt_month = 1, dt_day = 1, dt_hour = 8, dt_minute = 0, dt_second = 1, dt_micro = 0,
        dt_offset = Some 0\<rparr>, is_iowait_pct = Fin 1, is_devices = []\<rparr>,
      \<lparr>is_timestamp = \<lparr>dt_year = 2024, dt_month = 1, dt_day = 1, dt_hour = 10, dt_minute = 0, dt_second = 3, dt_micro = 0,
        dt_offset = Some 7200000000\<rparr>, is_iowait_pct = Fin 2, is_devices = []\<rparr>]
     \<lparr>dt_year = 2024, dt_month = 1, dt_day = 1, dt_hour = 9, dt_minute = 0, dt_second = 4, dt_micro = 0,
        dt_offset = Some 3600000000\<rparr> = Inr (Some s) \<and> is_iowait_pct s = Fin 2"
proof -
  let ?a = "\<lparr>is_timestamp = \<lparr>dt_year = 2024, dt_month = 1, dt_day = 1, dt_hour = 8, dt_minute = 0, dt_second = 1, dt_micro = 0,
        dt_offset = Some 0\<rparr>, is_iowait_pct = Fin 1, is_devices = []\<rparr>"
  let ?b = "\<lparr>is_timestamp = \<lparr>dt_year = 2024, dt_month = 1, dt_day = 1, dt_hour = 10, dt_minute = 0, dt_second = 3, dt_micro = 0,
        dt_offset = Some 7200000000\<rparr>, is_iowait_pct = Fin 2, is_devices = []\<rparr>"
  let ?t = "\<lparr>dt_year = 2024, dt_month = 1, dt_day = 1, dt_hour = 9, dt_minute = 0, dt_second = 4, dt_micro = 0,
        dt_offset = Some 3600000000\<rparr>"
  have d: "utc_micros (is_timestamp ?a) - utc_micros ?t = - 3000000" "utc_micros (is_timestamp ?b) - utc_micros ?t = - 1000000"
    by (simp_all add: utc_micros_def local_micros_def)
  have "[?a, ?b] \<noteq> []" "dt_offset ?t \<noteq> None" "list_all (\<lambda>s. dt_offset (is_timestamp s) \<noteq> None) [?a, ?b]" by simp_all
  moreover have "list_all (\<lambda>s. \<bar>utc_micros (is_timestamp s) - utc_micros ?t\<bar> < 2 ^ 52) [?a, ?b]" using d by simp
  ultimately obtain s where s: "s \<in> set [?a, ?b]" "closest_sample [?a, ?b] ?t = Inr (Some s)"
    "list_all (\<lambda>s'. \<bar>utc_micros (is_timestamp s) - utc_micros ?t\<bar> \<le> \<bar>utc_micros (is_timestamp s') - utc_micros ?t\<bar>) [?a, ?b]"
    using closest_sample_nearest[of "[?a, ?b]" ?t] by blast
  from s(1,3) d have "s = ?b" by auto
  with s(2) show ?thesis by simp
qed

end
