(* ===== verification/Corr_Main.thy ===== *)
theory Corr_Main
  imports Diag_Iowait Cli
begin

text \<open>
  The main flow of \<open>fqdnrules/correlate_iowait.py\<close>: the command line with the benchmark's own
  arguments, the two processes and their logs, and the report. The programs it starts and the file
  system are arguments; what it starts, prints and writes is the result.
\<close>

section \<open>The command line\<close>

definition CORR_OPTIONS :: "option_spec list" where
  "CORR_OPTIONS =
     [opt ''--benchmark'' OStr (VStr ''./benchmark''),
      opt ''--interval'' OInt (VInt 1),
      opt ''--out-dir'' OStr VNone,
      opt ''--iowait-alert-pct'' OFloat (VFloat (Fin 10))]"

text \<open>
  The parser has one positional argument that takes the remainder: options are consumed up to the
  first argument that belongs to none, or to \<open>--\<close>, and everything from there on is kept as it is. The
  result is the number of tokens left, the namespace and whether an unknown option was met.
\<close>

function consume_options ::
  "option_spec list \<Rightarrow> token list \<Rightarrow> namespace \<Rightarrow> bool \<Rightarrow> (nat \<times> namespace \<times> bool) result" where
  "consume_options specs [] ns extras = Inr (0, ns, extras)"
| "consume_options specs (TArg s # ts) ns extras = Inr (Suc (length ts), ns, extras)"
| "consume_options specs (TUnknown s # ts) ns extras = consume_options specs ts ns True"
| "consume_options specs (TOpt name explicit # ts) ns extras =
     (case take_option specs name explicit ts ns of
        Inl e \<Rightarrow> Inl e
      | Inr (rest, ns') \<Rightarrow> consume_options specs rest ns' extras)"
  by pat_completeness auto
termination
  by (relation "measure (\<lambda>(specs, ts, ns, extras). length ts)") (auto dest: take_option_length)

definition parse_remainder :: "option_spec list \<Rightarrow> string list \<Rightarrow> (namespace \<times> string list) result" where
  "parse_remainder specs argv =
     (let before = takeWhile (\<lambda>s. s \<noteq> ''--'') argv
      in bindR (mapR (classify specs) before) (\<lambda>ts.
         bindR (consume_options specs ts (default_namespace specs) False) (\<lambda>(left, ns, extras).
           if extras then usage else Inr (ns, drop (length before - left) argv))))"

record corr_args =
  co_benchmark :: string
  co_interval :: int
  co_out_dir :: "string option"
  co_alert :: pyfloat
  co_args :: "string list"

definition corr_args_of :: "namespace \<times> string list \<Rightarrow> corr_args result" where
  "corr_args_of parsed =
     (case parsed of (ns, args) \<Rightarrow>
        bindR (attr as_str ns ''--benchmark'') (\<lambda>benchmark.
        bindR (attr as_int ns ''--interval'') (\<lambda>interval.
        bindR (attr (maybe as_str) ns ''--out-dir'') (\<lambda>out_dir.
        bindR (attr as_float ns ''--iowait-alert-pct'') (\<lambda>alert.
          Inr \<lparr>co_benchmark = benchmark, co_interval = interval, co_out_dir = out_dir, co_alert = alert,
               co_args = args\<rparr>)))))"


section \<open>Paths\<close>

text \<open>A path as its root and its components, as \<open>pathlib\<close> normalises them.\<close>

type_synonym path = "string \<times> string list"

definition path_of :: "string \<Rightarrow> path" where
  "path_of s =
     ((if starts_with ''//'' s \<and> \<not> starts_with ''///'' s then ''//'' else if starts_with ''/'' s then ''/'' else []),
      filter (\<lambda>p. p \<noteq> [] \<and> p \<noteq> ''.'') (split_on (CHR ''/'') s))"

definition path_text :: "path \<Rightarrow> string" where
  "path_text p = (if fst p = [] \<and> snd p = [] then ''.'' else fst p @ join ''/'' (snd p))"

definition child :: "path \<Rightarrow> string \<Rightarrow> path" where
  "child p name = (fst p, snd p @ [name])"


section \<open>The run\<close>

text \<open>
  The system: which programs are found, the time, the environment, what a benchmark command prints (its
  lines with their line ends) and returns, what iostat writes for a command and an environment until
  it is terminated, and whether it ends in time then.
\<close>

record proc_env =
  pe_which :: "string \<Rightarrow> string option"
  pe_now :: rat
  pe_environ :: "string \<rightharpoonup> string"
  pe_benchmark :: "string list \<Rightarrow> string list \<times> int"
  pe_iostat :: "string list \<Rightarrow> (string \<rightharpoonup> string) \<Rightarrow> string"
  pe_stops :: bool

record run_log =
  rl_commands :: "string list list"
  rl_directory :: string
  rl_files :: "(string \<times> string) list"
  rl_stdout :: string
  rl_stderr :: string
  rl_killed :: bool

definition out_dir :: "proc_env \<Rightarrow> corr_args \<Rightarrow> path" where
  "out_dir env args =
     (case co_out_dir args of
        Some d \<Rightarrow> if d \<noteq> [] then path_of d else path_of (''/tmp/bench-iowait-'' @ py_str \<lfloor>pe_now env\<rfloor>)
      | None \<Rightarrow> path_of (''/tmp/bench-iowait-'' @ py_str \<lfloor>pe_now env\<rfloor>))"

text \<open>\<open>print(line)\<close>.\<close>

definition printed :: "string list \<Rightarrow> string" where
  "printed ls = concat (map (\<lambda>l. l @ [CHR 0x0A]) ls)"

definition correlate_run ::
  "bool \<Rightarrow> (string \<Rightarrow> datetime result) \<Rightarrow> proc_env \<Rightarrow> corr_args \<Rightarrow> run_log result" where
  "correlate_run lenient other env args =
     bindR (benchmark_args (co_args args)) (\<lambda>bench_args.
     if pe_which env ''iostat'' = None then usage
     else
       let dir = out_dir env args;
           bench_log_path = path_text (child dir ''benchmark.log'');
           iostat_log_path = path_text (child dir ''iostat.log'');
           iostat_cmd = [''iostat'', ''-xmt'', py_str (co_interval args)];
           iostat_env = (pe_environ env)(''S_TIME_FORMAT'' \<mapsto> ''ISO'');
           bench_cmd = co_benchmark args # bench_args;
           (output, returncode) = pe_benchmark env bench_cmd;
           bench_lines = map (rstrip_by (\<lambda>c. c = CHR 0x0A)) output;
           iostat_log = pe_iostat env iostat_cmd iostat_env
       in bindR (correlate lenient other bench_lines iostat_log iostat_log_path (co_alert args)) (\<lambda>report.
          Inr \<lparr>rl_commands = [iostat_cmd, bench_cmd], rl_directory = path_text dir,
               rl_files = [(bench_log_path, concat output), (iostat_log_path, iostat_log)],
               rl_stdout = printed [''logging to '' @ path_text dir @ ''/'', ''running: '' @ join '' '' bench_cmd]
                 @ concat output @ printed report,
               rl_stderr = (if returncode = 0 then []
                 else printed [CHR 0x0A # ''warning: benchmark exited with code '' @ py_str returncode
                   @ ''; correlating whatever it printed anyway'']),
               rl_killed = (\<not> pe_stops env)\<rparr>))"

definition correlate_main ::
  "bool \<Rightarrow> (string \<Rightarrow> datetime result) \<Rightarrow> proc_env \<Rightarrow> string list \<Rightarrow> run_log result" where
  "correlate_main lenient other env argv =
     bindR (parse_remainder CORR_OPTIONS argv) (\<lambda>parsed.
     bindR (corr_args_of parsed) (correlate_run lenient other env))"


section \<open>Lemmas\<close>

text \<open>A timestamp with an offset.\<close>

definition aware :: "datetime \<Rightarrow> bool" where
  "aware t \<longleftrightarrow> dt_offset t \<noteq> None"

lemma closest_sample_aware:
  assumes "aware ts" "list_all (\<lambda>s. aware (is_timestamp s)) samples" "samples \<noteq> []"
  shows "\<exists>s\<in>set samples. closest_sample samples ts = Inr (Some s)"
proof -
  let ?g = "\<lambda>s. \<bar>fdiv (of_int (utc_micros (is_timestamp s) - utc_micros ts)) 1000000\<bar>"
  have "mapR (\<lambda>s. bindR (gap_seconds (is_timestamp s) ts) (\<lambda>g. Inr (g, s))) samples = Inr (map (\<lambda>s. (?g s, s)) samples)"
    by (rule mapR_Inr) (use assms(1,2) gap_aware in \<open>auto simp: list_all_iff aware_def\<close>)
  then have "closest_sample samples ts = Inr (Some (arg_min_list ?g samples))"
    using assms(3) arg_min_list_map[OF assms(3)] by (simp add: closest_sample_def)
  with arg_min_list_in[OF assms(3)] show ?thesis by blast
qed

lemma query_lines_aware:
  assumes "aware (sq_timestamp q)" "list_all (\<lambda>s. aware (is_timestamp s)) samples" "samples \<noteq> []"
  shows "\<exists>ls. query_lines samples alert q = Inr ls \<and> 2 \<le> length ls"
proof -
  obtain s where s: "s \<in> set samples" "closest_sample samples (sq_timestamp q) = Inr (Some s)"
    using closest_sample_aware[OF assms] by blast
  have "aware (is_timestamp s)" using assms(2) s(1) by (simp add: list_all_iff)
  from gap_aware[of "is_timestamp s" "sq_timestamp q"] this assms(1) show ?thesis
    by (simp add: query_lines_def s(2) aware_def Let_def)
qed

lemma correlate_ends:
  assumes "parse_top_slow lenient other (join [CHR 0x0A] bench_lines) = Inr qs"
    and "parse_iostat lenient other iostat_log = Inr samples"
    and "list_all (\<lambda>q. aware (sq_timestamp q)) qs" "list_all (\<lambda>s. aware (is_timestamp s)) samples"
  shows "\<exists>report. correlate lenient other bench_lines iostat_log log_path alert = Inr report
    \<and> (if qs = [] \<or> samples = [] then length report = 1 else 2 * length qs + 1 \<le> length report)"
proof (cases "qs = [] \<or> samples = []")
  case True
  then show ?thesis using assms(1,2) by (auto simp: correlate_def)
next
  case False
  have "\<forall>q\<in>set qs. \<exists>ls. query_lines samples alert q = Inr ls \<and> 2 \<le> length ls"
    using query_lines_aware assms(3,4) False by (simp add: list_all_iff)
  then obtain f where f: "\<forall>q\<in>set qs. query_lines samples alert q = Inr (f q) \<and> 2 \<le> length (f q)" by metis
  have m: "mapR (query_lines samples alert) qs = Inr (map f qs)" by (rule mapR_Inr) (use f in simp)
  have "2 * length qs \<le> length (concat (map f qs))" using f by (induction qs) auto
  with False m assms(1,2) show ?thesis by (simp add: correlate_def)
qed

text \<open>The command line: an option with its text, then everything after the separator as it is.\<close>

lemma classify_benchmark: "classify CORR_OPTIONS ''--benchmark'' = Inr (TOpt ''--benchmark'' None)"
  by code_simp

lemma parse_separator:
  assumes "b \<noteq> []" "hd b \<noteq> CHR ''-''"
  shows "bindR (parse_remainder CORR_OPTIONS (''--benchmark'' # b # ''--'' # rest)) corr_args_of
    = Inr \<lparr>co_benchmark = b, co_interval = 1, co_out_dir = None, co_alert = Fin 10, co_args = ''--'' # rest\<rparr>"
proof -
  have b: "b \<noteq> ''--''" "classify CORR_OPTIONS b = Inr (TArg b)" using assms by (auto simp: classify_def Let_def case_prod_unfold)
  have t: "takeWhile (\<lambda>s. s \<noteq> ''--'') (''--benchmark'' # b # ''--'' # rest) = [''--benchmark'', b]" using b(1) by simp
  have o: "consume_options CORR_OPTIONS [TOpt ''--benchmark'' None, TArg b] (default_namespace CORR_OPTIONS) False
      = Inr (0, AList.update ''--benchmark'' (VStr b) (default_namespace CORR_OPTIONS), False)"
    by (simp add: take_option_def find_spec_def CORR_OPTIONS_def opt_def convert_def)
  have p: "parse_remainder CORR_OPTIONS (''--benchmark'' # b # ''--'' # rest)
      = Inr (AList.update ''--benchmark'' (VStr b) (default_namespace CORR_OPTIONS), ''--'' # rest)"
    unfolding parse_remainder_def t by (simp add: classify_benchmark b(2) o del: consume_options.simps)
  show ?thesis unfolding p
    by (simp add: corr_args_of_def attr_def maybe_def default_namespace_def CORR_OPTIONS_def opt_def)
qed


section \<open>Properties\<close>

text \<open>
  C36: The benchmark's own arguments reach it untouched: everything after the separator, whatever it looks
  like (the script's own options, \<open>-h\<close> or another separator included), is the rest of the command that is
  run, the output is kept in the log as it was printed, and a run whose two logs can be read ends in a
  report with at least two lines for each slow query.
\<close>

theorem correlation_run:
  assumes "b \<noteq> []" "hd b \<noteq> CHR ''-''" "rest \<noteq> []" "pe_which env ''iostat'' \<noteq> None"
    and "pe_benchmark env (b # rest) = (out, code)"
    and "iostat_log = pe_iostat env [''iostat'', ''-xmt'', ''1''] ((pe_environ env)(''S_TIME_FORMAT'' \<mapsto> ''ISO''))"
    and "parse_top_slow lenient other (join [CHR 0x0A] (map (rstrip_by (\<lambda>c. c = CHR 0x0A)) out)) = Inr qs"
    and "parse_iostat lenient other iostat_log = Inr samples"
    and "list_all (\<lambda>q. aware (sq_timestamp q)) qs" "list_all (\<lambda>s. aware (is_timestamp s)) samples"
  shows "\<exists>log report. correlate_main lenient other env (''--benchmark'' # b # ''--'' # rest) = Inr log
    \<and> rl_commands log = [[''iostat'', ''-xmt'', ''1''], b # rest]
    \<and> map snd (rl_files log) = [concat out, iostat_log]
    \<and> (\<exists>banner. rl_stdout log = printed banner @ concat out @ printed report)
    \<and> (if qs = [] \<or> samples = [] then length report = 1 else 2 * length qs + 1 \<le> length report)"
proof -
  let ?args = "\<lparr>co_benchmark = b, co_interval = 1, co_out_dir = None, co_alert = Fin 10, co_args = ''--'' # rest\<rparr>"
  obtain ns where p: "parse_remainder CORR_OPTIONS (''--benchmark'' # b # ''--'' # rest) = Inr ns" "corr_args_of ns = Inr ?args"
    using parse_separator[OF assms(1,2), of rest] by (auto simp: result_simps)
  obtain report where r: "correlate lenient other (map (rstrip_by (\<lambda>c. c = CHR 0x0A)) out) iostat_log
      (path_text (child (out_dir env ?args) ''iostat.log'')) (Fin 10) = Inr report"
    "if qs = [] \<or> samples = [] then length report = 1 else 2 * length qs + 1 \<le> length report"
    using correlate_ends[OF assms(7-10)] by blast
  have a: "benchmark_args (''--'' # rest) = Inr rest" using assms(3) by (simp add: benchmark_args_def)
  have one: "py_str 1 = ''1''" by code_simp
  let ?dir = "out_dir env ?args"
  let ?banner = "[''logging to '' @ path_text ?dir @ ''/'', ''running: '' @ join '' '' (b # rest)]"
  let ?log = "\<lparr>rl_commands = [[''iostat'', ''-xmt'', ''1''], b # rest], rl_directory = path_text ?dir,
    rl_files = [(path_text (child ?dir ''benchmark.log''), concat out), (path_text (child ?dir ''iostat.log''), iostat_log)],
    rl_stdout = printed ?banner @ concat out @ printed report,
    rl_stderr = (if code = 0 then [] else printed [CHR 0x0A # ''warning: benchmark exited with code '' @ py_str code
      @ ''; correlating whatever it printed anyway'']),
    rl_killed = (\<not> pe_stops env)\<rparr>"
  have run: "correlate_main lenient other env (''--benchmark'' # b # ''--'' # rest) = Inr ?log"
    using assms(4) by (auto simp add: correlate_main_def p correlate_run_def a one assms(5) assms(6)[symmetric] Let_def r(1))
  show ?thesis
    by (rule exI[of _ ?log], rule exI[of _ report], intro conjI run r(2) exI[of _ ?banner]) simp_all
qed

definition corr_sample_env :: proc_env where
  "corr_sample_env =
     \<lparr>pe_which = (\<lambda>p. Some p), pe_now = 5, pe_environ = Map.empty,
      pe_benchmark = (\<lambda>cmd. ([''=== Top 10 slowest queries (>= 0.000ms) ==='' @ [CHR 0x0A],
        '' 1. 2024-05-01T10:00:00.000250+02:00     31.500ms  GET        fqdn1=a.com'' @ [CHR 0x0A]], 0)),
      pe_iostat = (\<lambda>cmd vars. ''2024-05-01T08:00:00.000500+00:00''), pe_stops = True\<rparr>"

text \<open>The row and the timestamp of the sample.\<close>

lemma corr_sample_logs:
  defines "other \<equiv> \<lambda>s. Inl (ValueError s)"
  shows "parse_top_slow True other
      (join [CHR 0x0A] (map (rstrip_by (\<lambda>c. c = CHR 0x0A)) (fst (pe_benchmark corr_sample_env [''./b'', ''-h'']))))
    = Inr [\<lparr>sq_rank = 1,
       sq_timestamp = \<lparr>dt_year = 2024, dt_month = 5, dt_day = 1, dt_hour = 10, dt_minute = 0, dt_second = 0,
         dt_micro = 250, dt_offset = Some 7200000000\<rparr>,
       sq_latency_ms = Fin (63/2), sq_op = ''GET'', sq_detail = ''fqdn1=a.com''\<rparr>]"
    and "parse_iostat True other (pe_iostat corr_sample_env cmd vars)
    = Inr [\<lparr>is_timestamp = \<lparr>dt_year = 2024, dt_month = 5, dt_day = 1, dt_hour = 8, dt_minute = 0, dt_second = 0,
         dt_micro = 500, dt_offset = Some 0\<rparr>, is_iowait_pct = Fin 0, is_devices = []\<rparr>]"
proof -
  let ?h = "''=== Top 10 slowest queries (>= 0.000ms) ===''"
  let ?r = "\<lparr>rr_rank = 1, rr_ts = ''2024-05-01T10:00:00.000250+02:00'', rr_lat = ''31.500'', rr_op = ''GET'', rr_rest = ''a.com''\<rparr>"
  let ?d = "\<lparr>dt_year = 2024, dt_month = 5, dt_day = 1, dt_hour = 10, dt_minute = 0, dt_second = 0,
      dt_micro = 250, dt_offset = Some 7200000000\<rparr>"
  let ?e = "\<lparr>dt_year = 2024, dt_month = 5, dt_day = 1, dt_hour = 8, dt_minute = 0, dt_second = 0,
      dt_micro = 500, dt_offset = Some 0\<rparr>"
  have "TOP_SLOW_HEADER_RE ?h" "list_all row_ok [?r]" by code_simp+
  then have lines: "slow_lines True other False [?h, row_text ?r] = mapR (\<lambda>r. slow_row True other (row_groups r)) [?r]"
    using section_rows[of "[?r]" True other] by simp
  have "valid_fields ?d" "dt_offset ?d = Some (60000000 * 120)" "\<bar>120 :: int\<bar> < 1440"
    "isoformat ?d = ''2024-05-01T10:00:00.000250+02:00''" by code_simp+
  then have d: "parse_iso True other ''2024-05-01T10:00:00.000250+02:00'' = Inr ?d"
    using parse_iso_isoformat[of ?d 120] by metis
  have "valid_fields ?e" "dt_offset ?e = Some (60000000 * 0)" "\<bar>0 :: int\<bar> < 1440"
    "isoformat ?e = ''2024-05-01T08:00:00.000500+00:00''" by code_simp+
  then have e: "parse_iso True other ''2024-05-01T08:00:00.000500+00:00'' = Inr ?e"
    using parse_iso_isoformat[of ?e 0] by metis
  have row: "row_text ?r = '' 1. 2024-05-01T10:00:00.000250+02:00     31.500ms  GET        fqdn1=a.com''" by code_simp
  have "py_float ''31.500'' = Inr (Fin (63/2))" "strip (''fqdn1='' @ ''a.com'') = ''fqdn1=a.com''" "py_int (py_str 1) = Inr 1"
    by code_simp+
  then have slow: "slow_row True other (row_groups ?r) = Inr \<lparr>sq_rank = 1, sq_timestamp = ?d,
       sq_latency_ms = Fin (63/2), sq_op = ''GET'', sq_detail = ''fqdn1=a.com''\<rparr>"
    using d by (simp add: slow_row_def row_groups_def)
  have "splitlines (join [CHR 0x0A] (map (rstrip_by (\<lambda>c. c = CHR 0x0A)) (fst (pe_benchmark corr_sample_env [''./b'', ''-h'']))))
      = [?h, '' 1. 2024-05-01T10:00:00.000250+02:00     31.500ms  GET        fqdn1=a.com'']" by code_simp
  then show "parse_top_slow True other
      (join [CHR 0x0A] (map (rstrip_by (\<lambda>c. c = CHR 0x0A)) (fst (pe_benchmark corr_sample_env [''./b'', ''-h'']))))
    = Inr [\<lparr>sq_rank = 1, sq_timestamp = ?d, sq_latency_ms = Fin (63/2), sq_op = ''GET'', sq_detail = ''fqdn1=a.com''\<rparr>]"
    using lines slow unfolding row parse_top_slow_def by simp
  have "splitlines (pe_iostat corr_sample_env cmd vars) = [''2024-05-01T08:00:00.000500+00:00'']"
    by (simp add: corr_sample_env_def) code_simp
  moreover have "rstrip_by is_space ''2024-05-01T08:00:00.000500+00:00'' = ''2024-05-01T08:00:00.000500+00:00''" by code_simp
  ultimately show "parse_iostat True other (pe_iostat corr_sample_env cmd vars)
      = Inr [\<lparr>is_timestamp = ?e, is_iowait_pct = Fin 0, is_devices = []\<rparr>]"
    by (simp add: parse_iostat_def iostat_line_def e iostat_start_def Let_def)
qed

theorem correlation_run_witness:
  "\<exists>log. correlate_main True (\<lambda>s. Inl (ValueError s)) corr_sample_env [''--benchmark'', ''./b'', ''--'', ''-h''] = Inr log
    \<and> rl_commands log = [[''iostat'', ''-xmt'', ''1''], [''./b'', ''-h'']]"
proof -
  obtain out code where o: "pe_benchmark corr_sample_env [''./b'', ''-h''] = (out, code)" by (cases "pe_benchmark corr_sample_env [''./b'', ''-h'']")
  note logs = corr_sample_logs(1)[unfolded o fst_conv] corr_sample_logs(2)
  have "''./b'' \<noteq> []" "hd ''./b'' \<noteq> CHR ''-''" "[''-h''] \<noteq> []" "pe_which corr_sample_env ''iostat'' \<noteq> None"
    by (simp_all add: corr_sample_env_def)
  from correlation_run[OF this o refl logs] show ?thesis by (simp add: aware_def) blast
qed

end
