(* ===== verification/Spec2Isabelle.thy ===== *)
theory Spec2Isabelle
  imports Router_Slots Bench_Main Mem_Report_Spec
    Snack_Bar Slots_Golden Router_Crosscheck Diag_Hot_Tag Diag_Hotspot Diag_Pinning
    Keyspace_Histogram Bench_Report Bench_Cli Snack_Interleave Snack_Cache Corr_Main
begin

text \<open>
  A verification development for FunWithDragonflyDB. It models the Python programs of the
  repository as HOL functions: the FQDN-pair rule router with its benchmark, cross-check and diagnostics
  (\<open>src/fqdnrules\<close>), the memory benchmark with its histogram script (\<open>src/memoryBenchmarkScript\<close>) and
  the snack sales demonstration (\<open>src/fast_api_snack_bar\<close>).

  \<^bold>\<open>Base.\<close> \<open>Prelude\<close> has the exceptions as values of \<open>py_error\<close>, the result type
  \<open>py_error + 'a\<close> with \<open>bindR\<close> and \<open>mapR\<close>, and shared facts on lists and maps. \<open>Py_Str\<close> writes out
  what the programs use of \<open>str\<close>, \<open>int\<close> and \<open>bisect\<close>. \<open>Float64\<close> is Python's \<open>float\<close> as a rational that every
  operation rounds to 53 bits, half to even, without a bound on the exponent; \<open>pyfloat\<close> adds the
  infinities and NaN where the input can bring them in, and \<open>round()\<close> is rounding half to even.
  \<open>Interval_Partition\<close> is a locale for half-open intervals found by bisection; the slot ranges and
  the rule layout interpret it.

  \<^bold>\<open>The router.\<close>
  \<^item> \<open>Fqdn_Pattern\<close> models \<open>fqdn_pattern.py\<close>: \<open>normalize_fqdn\<close>, \<open>candidates\<close> and
    \<open>field_candidates\<close> with ranks, hash tags and replica indices. Lemmas: the candidates of a query
    are exactly the patterns that cover it, in strictly increasing rank (locale
    \<open>candidate_source\<close>, interpreted for both candidate kinds).
  \<^item> \<open>Fqdn_Slots\<close> models \<open>fqdn_slots.py\<close>: CRC-16, \<open>slot\<close>, \<open>slot_range\<close> and the search of
    \<open>compute_bucket_table\<close>, whose loop carries the iteration cap of the code and so ends.
  \<^item> \<open>Redis_Api\<close> is the interface to the server, which is not part of the repository: the record
    \<open>redis_api\<close> has the commands the router sends over a state \<open>'db\<close>, and \<open>redis_laws\<close> is what
    their documentation promises (reads after writes and deletes, and the reply of a delete); a
    pipeline is run as the sequence of its commands. An in-memory instance satisfies it and carries the witnesses.
  \<^item> \<open>Fqdn_Router\<close> models \<open>fqdn_router.py\<close>: \<open>RuleStore\<close> as the record \<open>rule_store\<close>, \<open>put\<close>,
    \<open>put_many\<close>, \<open>delete\<close>, \<open>lookup\<close> as \<open>rs_put\<close>, \<open>rs_put_many\<close>, \<open>rs_delete\<close>, \<open>rs_lookup\<close>, and the Lua
    text the lookup runs on the server as \<open>lua_lookup\<close>.
  \<^item> \<open>Router_Keys\<close>, \<open>Router_Store\<close>, \<open>Router_Lookup\<close>, \<open>Router_Spec\<close> and \<open>Router_Slots\<close> state
    and prove the contract. The abstract state is a rule table, a map from (first pattern, port,
    second pattern) to scope and rule id; \<open>represents\<close> relates it to the fields of the server. The
    writes refine updates of the table, through the locale \<open>key_scheme\<close> interpreted on the
    store's keys, and a lookup returns the applicable rule of least rank pair. \<open>store_ok\<close>
    says that the store is unbucketed or that the token search for its replica count succeeds.

  \<^bold>\<open>The router's benchmark\<close>, \<open>benchmark.py\<close>.
  \<^item> \<open>Bench_Layout\<close>: depth tiers, key sizes, \<open>RuleLayout\<close>, and the rule and the queries of an index.
    The random generator is the record \<open>rng_api\<close> over a state; \<open>rng_ok\<close> states that each draw lies
    in its documented range. \<open>sum\<close> over floats is the parameter \<open>fsum\<close>, because its compensated
    summation depends on the Python version.
  \<^item> \<open>Bench_Run\<close>: the batched write phase, query list and file, the query phase, statistics,
    argument checks and the description of the target. The clock is a list of readings or a
    function of the query index; a concurrent run is a schedule, a permutation of the tasks.
    \<open>Bench_Stats\<close> adds what the description of the target uses of \<open>urllib.parse\<close>, and shows that
    it does not depend on the password.
  \<^item> \<open>Bench_Names\<close>, \<open>Bench_Spec\<close>, \<open>Bench_Queries\<close>, \<open>Bench_Phase\<close>, \<open>Bench_Stats\<close>: every rule is placed and
    written once, every hit query is answered by its rule and every miss query by none, the query
    file is read back, the schedule does not matter, percentiles are ordered.
  \<^item> \<open>Bench_Main\<close>: the warm-up and \<open>main\<close>, from the checked arguments to the reported numbers.
    \<open>bench_main\<close> is \<open>None\<close> where the layout loop does not return; the theorem on fresh runs shows that
    a run with accepted arguments and positive tier weights is not one of those.

  \<^bold>\<open>The memory benchmark\<close>, \<open>memory_benchmark.py\<close>.
  \<^item> \<open>Mem_Config\<close>, \<open>Mem_Config_Spec\<close>: \<open>TypeConfig\<close>, \<open>DEFAULT_CONFIGS\<close> and the passes of
    \<open>build_configs\<close> over an association list in insertion order, equal to one closed table.
  \<^item> \<open>Mem_Json\<close>: the generated documents and their serialisation.
  \<^item> \<open>Mem_Populate\<close>, \<open>Mem_Populate_Spec\<close>: the populate functions. The server is the record
    \<open>mem_world\<close> over a state \<open>'w\<close>: sending a pipeline, \<open>DEBUG POPULATE\<close>, memory readings, the clock and the random
    draws; \<open>world_ok\<close> states that an empty pipeline does nothing, that sending commands in two
    parts is sending them at once, and that a random draw has the requested length and alphabet.
    The locale \<open>key_writer\<close> is what the loops need of the commands of one key; it is interpreted
    for all eight kinds, and \<open>type_group\<close> says what a key of each type receives. The inductive
    \<open>draws\<close> relates the worlds that random draws connect.
  \<^item> \<open>Mem_Sequence\<close>: \<open>compute_children_sequence\<close>. \<open>Mem_Bench\<close>, \<open>Mem_Bench_Spec\<close>: one server's
    measurement and the sweep, with the accounting of the memory differences.
  \<^item> \<open>Mem_Report\<close>, \<open>Mem_Report_Spec\<close>: number formatting, the rows of the three reports and \<open>main\<close>.

  \<^item> \<open>Keyspace_Histogram\<close>: \<open>keyspace_size_histogram.py\<close>, the buckets and the printed rows over the list
    of the server's replies; the buckets partition the sizes.

  \<^bold>\<open>The tools around the router.\<close>
  \<^item> \<open>Slots_Golden\<close>: the golden file of \<open>fqdn_slots.py\<close> and the indented JSON text. \<open>Router_Crosscheck\<close>:
    \<open>crosscheck_python.py\<close>. Its reference \<open>ref_lookup\<close> scans the rules; a loaded store agrees with it,
    and so the golden results follow without evaluating the store. The key scan is a parameter with
    \<open>scan_laws\<close> (a pattern without special characters but the final star finds the keys of its prefix).
  \<^item> \<open>Diag_Cpu\<close>: what \<open>diagnose_hot_tag_routing.py\<close> and \<open>diagnose_router_hotspot.py\<close> share: the readings
    of \<open>/proc\<close>, the report on threads and the timed loops. A loop is a \<open>partial_function\<close> over the sequence of
    its clock readings; it is \<open>None\<close> exactly when no reading reaches the deadline. \<open>Diag_Hot_Tag\<close> and
    \<open>Diag_Hotspot\<close> are the two programs, the second over the store of \<open>Fqdn_Router\<close>.
  \<^item> \<open>Diag_Pinning\<close>: \<open>diagnose_thread_pinning.py\<close> over a client library with a server behind it
    (\<open>conn_laws\<close>, satisfied by \<open>toy_conns\<close>).
  \<^item> \<open>Iso_Time\<close> and \<open>Diag_Iowait\<close>: \<open>correlate_iowait.py\<close>. The regular expressions are matchers over the
    remaining text with backtracking in the order of Python's engine; \<open>datetime\<close> is a record of its
    fields with an offset in microseconds. What \<open>fromisoformat\<close> accepts beyond the pattern is a parameter,
    because it depends on the Python version.
  \<^item> \<open>Corr_Main\<close>: the main flow of \<open>correlate_iowait.py\<close>, from the words of the command line to the
    printed table. The two child processes and the files they leave are the record \<open>proc_env\<close>, and the
    commands sent and the files written are recorded in order in \<open>run_log\<close>.

  \<^bold>\<open>Command lines.\<close> \<open>Cli\<close> is the part of \<open>argparse\<close> the parsers use, \<open>Cli_Tables\<close> the options of the five
  programs and the argument records read from a namespace; every namespace that is returned is
  well typed, and a line of settings is read back as the last value of each option. \<open>Bench_Report\<close> has the lines \<open>benchmark.py\<close> prints, and \<open>Bench_Cli\<close> composes the parser,
  the argument checks and the run of \<open>Bench_Main\<close>.

  \<^bold>\<open>The snack sales demonstration.\<close> \<open>Snack_Bar\<close>: the leaderboard, the sale handler and the worker loop as
  steps over a server; \<open>snack_laws\<close> is what the sorted set and the fixed-window rate limiter promise, and
  a concrete server satisfies it. The leaderboard counts the sales let through, the rates are
  enforced for all clients together, and the worker makes progress. \<open>Snack_Interleave\<close> splits a request
  into its server commands and lets requests overlap: every interleaving refines an abstract limiter that
  decides each request in one step. \<open>Snack_Cache\<close> is the cached listing of the leaderboard and the bound
  on what it lags behind.

  \<^bold>\<open>Not modelled.\<close> The drawing of finished tables and banners, the interactive prompt, help texts, the
  wiring of the web framework. The printed form of a float without a format is an
  argument where a program prints one. The greeting \<open>memoryBenchmarkScript/main.py\<close> has no logic, and the
  Go services are outside the modelled language.
\<close>

end
